(* ===== verification/Prelude.thy ===== *)
theory Prelude
  imports Main "HOL-Library.Word" "HOL-Library.Signed_Division"
begin

text \<open>
  What the component theories share: the machine integer types of \<open>include/defs.h\<close>, the
  result type of operations that can fault, arrays with their bounds, the C conversions the
  sources rely on (\<open>uint64_t\<close> to \<open>int\<close> and back, the 32-bit shift \<open>1 << n\<close>), and the generic
  lemmas about them.

  Faults. C leaves an out-of-range array access, a dereference of a bad pointer and a division by
  zero undefined. The model makes each of them a value: an operation whose source can do one of
  these returns \<open>Inl\<close> of a \<open>fault\<close>, so a theorem that an operation returns \<open>Inr\<close> says that
  none of them happens. \<open>Halt\<close> is the value of code that never returns: \<open>PANIC\<close>, which ends in
  \<open>while(1);\<close>, and the other endless loops of the sources.
\<close>

unbundle bit_operations_syntax

text \<open>Bits of the constants are rewritten by the lemmas about each of them, not as numbers.\<close>

declare bit_numeral_word_iff [simp del] bit_neg_numeral_word_iff [simp del]

section \<open>Machine integers\<close>

type_synonym u8 = "8 word"
type_synonym u16 = "16 word"
type_synonym u32 = "32 word"
type_synonym u64 = "64 word"

section \<open>Faults and results\<close>

datatype fault = OutOfBounds | NullPointer | WildPointer | DivByZero | Halt

type_synonym 'a res = "fault + 'a"

definition rbind :: "'a res \<Rightarrow> ('a \<Rightarrow> 'b res) \<Rightarrow> 'b res" where
  "rbind m f = (case m of Inl e \<Rightarrow> Inl e | Inr x \<Rightarrow> f x)"

text \<open>A loop whose body runs once for each element of a list, stopping at the first fault.\<close>

primrec rfold :: "('a \<Rightarrow> 's \<Rightarrow> 's res) \<Rightarrow> 'a list \<Rightarrow> 's \<Rightarrow> 's res" where
  "rfold f [] s = Inr s"
| "rfold f (x # xs) s = rbind (f x s) (rfold f xs)"

section \<open>Arrays\<close>

text \<open>An array is a list; the index is the C \<open>int\<close> (or unsigned) value used in the source.\<close>

definition arr_get :: "'a list \<Rightarrow> int \<Rightarrow> 'a res" where
  "arr_get xs i = (if 0 \<le> i \<and> i < int (length xs) then Inr (xs ! nat i) else Inl OutOfBounds)"

definition arr_set :: "'a list \<Rightarrow> int \<Rightarrow> 'a \<Rightarrow> 'a list res" where
  "arr_set xs i v =
     (if 0 \<le> i \<and> i < int (length xs) then Inr (xs[nat i := v]) else Inl OutOfBounds)"

text \<open>
  \<open>memset\<close> on an array of \<open>uint64_t\<close>: the loop stores bytes, byte \<open>a\<close> of the array being byte
  \<open>a mod 8\<close> (counted from the low end) of element \<open>a div 8\<close>.
\<close>

definition set_byte :: "u64 \<Rightarrow> nat \<Rightarrow> u8 \<Rightarrow> u64" where
  "set_byte w k c = (w AND NOT (push_bit (8 * k) 0xFF)) OR push_bit (8 * k) (ucast c)"

definition memset_byte :: "u8 \<Rightarrow> nat \<Rightarrow> u64 list \<Rightarrow> u64 list res" where
  "memset_byte c a m =
     rbind (arr_get m (int (a div 8))) (\<lambda>w. arr_set m (int (a div 8)) (set_byte w (a mod 8) c))"

definition memset_u64 :: "u64 list \<Rightarrow> u8 \<Rightarrow> u32 \<Rightarrow> u64 list res" where
  "memset_u64 m c n = rfold (memset_byte c) [0..<unat n] m"

section \<open>Conversions of C\<close>

text \<open>Assigning a \<open>uint64_t\<close> to an \<open>int\<close> keeps the low 32 bits, read as two's complement.\<close>

definition int_of_u64 :: "u64 \<Rightarrow> int" where
  "int_of_u64 w = sint (ucast w :: u32)"

text \<open>An \<open>int\<close> converted to \<open>uint64_t\<close> is sign-extended.\<close>

definition u64_of_int :: "int \<Rightarrow> u64" where
  "u64_of_int i = word_of_int i"

text \<open>
  The expression \<open>1 << n\<close>, whose operand \<open>1\<close> is an \<open>int\<close>. C defines it for \<open>0 \<le> n < 32\<close>.
  Outside that range the model takes what the target does: the sources are compiled for x86-64
  (\<open>Makefile\<close>: \<open>gcc -O1 -march=amdfam10\<close>), whose \<open>shl\<close> on a 32-bit register uses the low five
  bits of the count.
\<close>

definition int_shl1 :: "int \<Rightarrow> u32" where
  "int_shl1 n = push_bit (nat (n mod 32)) 1"

text \<open>The same value converted to \<open>uint64_t\<close>, as it is where it meets a 64-bit operand.\<close>

definition shl1_u64 :: "int \<Rightarrow> u64" where
  "shl1_u64 n = scast (int_shl1 n)"

text \<open>The bytes of an integer in memory, the lowest first.\<close>

definition le_bytes :: "nat \<Rightarrow> 'a::len word \<Rightarrow> u8 list" where
  "le_bytes k w = map (\<lambda>i. ucast (drop_bit (8 * i) w)) [0..<k]"

primrec le_word :: "u8 list \<Rightarrow> 'a::len word" where
  "le_word [] = 0"
| "le_word (b # bs) = ucast b OR push_bit 8 (le_word bs)"

section \<open>Lemmas\<close>

named_theorems kernel_simps "unfolding rules for the operations of the model"

lemma rbind_simps [simp]:
  "rbind (Inl e) f = Inl e"
  "rbind (Inr x) f = f x"
  by (simp_all add: rbind_def)

lemma rbind_eq_Inr_iff: "rbind m f = Inr y \<longleftrightarrow> (\<exists>x. m = Inr x \<and> f x = Inr y)"
  by (cases m) auto

lemma rbind_InrE [elim!]:
  assumes "rbind m f = Inr y"
  obtains x where "m = Inr x" and "f x = Inr y"
  using assms by (auto simp: rbind_eq_Inr_iff)

lemma rbind_assoc: "rbind (rbind m f) g = rbind m (\<lambda>x. rbind (f x) g)"
  by (cases m) auto

lemma rfold_append: "rfold f (xs @ ys) s = rbind (rfold f xs s) (rfold f ys)"
proof (induction xs arbitrary: s)
  case (Cons x xs)
  then show ?case by (cases "f x s") simp_all
qed simp

text \<open>The invariant rule of a fault-free loop.\<close>

lemma rfold_invariant:
  assumes "rfold f xs s = Inr t" and "P s"
    and "\<And>x s t. x \<in> set xs \<Longrightarrow> P s \<Longrightarrow> f x s = Inr t \<Longrightarrow> P t"
  shows "P t"
  using assms
proof (induction xs arbitrary: s)
  case Nil
  then show ?case by simp
next
  case (Cons x xs)
  then obtain s' where "f x s = Inr s'" and "rfold f xs s' = Inr t" by auto
  with Cons show ?case by (meson list.set_intros)
qed

text \<open>A loop none of whose iterations faults under an invariant runs to its end.\<close>

lemma rfold_total:
  assumes "P s" and "\<And>x s. x \<in> set xs \<Longrightarrow> P s \<Longrightarrow> \<exists>t. f x s = Inr t \<and> P t"
  shows "\<exists>t. rfold f xs s = Inr t \<and> P t"
  using assms
proof (induction xs arbitrary: s)
  case Nil
  then show ?case by simp
next
  case (Cons x xs)
  obtain s' where "f x s = Inr s'" "P s'" using Cons.prems by (meson list.set_intros(1))
  moreover have "\<exists>t. rfold f xs s' = Inr t \<and> P t"
    using Cons.IH[OF \<open>P s'\<close>] Cons.prems(2) by (meson list.set_intros(2))
  ultimately show ?case by auto
qed

lemma rfold_cong: "(\<And>x s. x \<in> set xs \<Longrightarrow> f x s = g x s) \<Longrightarrow> rfold f xs s = rfold g xs s"
proof (induction xs arbitrary: s)
  case (Cons x xs)
  then show ?case by (cases "g x s") simp_all
qed simp

text \<open>A loop that updates one field of a state is a loop on the field.\<close>

lemma rfold_field:
  assumes "\<And>m s. get (put m s) = m" and "\<And>m m' s. put m (put m' s) = put m s"
    and "\<And>s. put (get s) s = s"
  shows "rfold (\<lambda>i s. rbind (f i (get s)) (\<lambda>m. Inr (put m s))) xs s =
           rbind (rfold f xs (get s)) (\<lambda>m. Inr (put m s))"
proof (induction xs arbitrary: s)
  case Nil
  then show ?case by (simp add: assms)
next
  case (Cons x xs)
  then show ?case by (cases "f x (get s)") (simp_all add: assms)
qed

lemma arr_get_nat [simp]: "n < length xs \<Longrightarrow> arr_get xs (int n) = Inr (xs ! n)"
  by (simp add: arr_get_def)

lemma arr_set_nat [simp]: "n < length xs \<Longrightarrow> arr_set xs (int n) v = Inr (xs[n := v])"
  by (simp add: arr_set_def)

lemma arr_get_Inr_iff:
  "arr_get xs i = Inr v \<longleftrightarrow> 0 \<le> i \<and> i < int (length xs) \<and> v = xs ! nat i"
  by (auto simp: arr_get_def)

lemma arr_set_Inr_iff:
  "arr_set xs i v = Inr ys \<longleftrightarrow> 0 \<le> i \<and> i < int (length xs) \<and> ys = xs[nat i := v]"
  by (auto simp: arr_set_def)

lemma arr_get_Inl_iff: "arr_get xs i = Inl e \<longleftrightarrow> e = OutOfBounds \<and> (i < 0 \<or> int (length xs) \<le> i)"
  by (auto simp: arr_get_def)

lemma sdiv_nonneg [simp]: "0 \<le> (a::int) \<Longrightarrow> 0 < b \<Longrightarrow> a sdiv b = a div b"
  by (simp add: signed_divide_int_def sgn_if)

lemma smod_nonneg [simp]: "0 \<le> (a::int) \<Longrightarrow> 0 < b \<Longrightarrow> a smod b = a mod b"
  by (cases "a = 0") (simp_all add: signed_modulo_int_def)

lemma smod_64_mod_32: "((a::int) smod 64) mod 32 = a mod 32"
proof -
  have "\<exists>q. a smod 64 - a = 64 * q"
  proof (cases "0 \<le> a")
    case True
    then have "a smod 64 - a = 64 * - (a div 64)" by (simp add: minus_div_mult_eq_mod [symmetric])
    then show ?thesis by blast
  next
    case False
    then have "a smod 64 - a = - a - (- a) mod 64" by (simp add: signed_modulo_int_def)
    also have "\<dots> = 64 * ((- a) div 64)" by (rule minus_mod_eq_mult_div)
    finally show ?thesis by blast
  qed
  then obtain q where "a smod 64 = a + 32 * (2 * q)" by (auto simp: algebra_simps)
  then show ?thesis by (simp only: mod_mult_self2)
qed

lemma int_of_u64_small:
  assumes "unat w < 2 ^ 31"
  shows "int_of_u64 w = int (unat w)"
proof -
  have w: "uint w = int (unat w)" by simp
  have "int (unat w) < 2 ^ 31" using assms by (simp only: of_nat_less_numeral_power_cancel_iff)
  with w have lt: "uint w < 2 ^ 31" by (simp only:)
  have "uint (ucast w :: u32) = take_bit 32 (uint w)" by (simp add: unsigned_ucast_eq)
  also have "\<dots> = uint w" by (rule take_bit_int_eq_self) (use lt in simp_all)
  finally have "sint (ucast w :: u32) = signed_take_bit 31 (uint w)" by (simp add: sint_uint)
  also have "\<dots> = uint w"
    by (rule signed_take_bit_int_eq_self) (use lt in \<open>simp_all add: order_trans [of _ 0]\<close>)
  finally show ?thesis using w by (simp only: int_of_u64_def)
qed

lemma u64_of_int_nat [simp]: "u64_of_int (int n) = of_nat n"
  by (simp add: u64_of_int_def)

lemma u64_of_int_m1 [simp]: "u64_of_int (-1) = -1"
  by (simp add: u64_of_int_def)

text \<open>The bits of \<open>1 << n\<close> after the conversion: one bit, but for the sign bit 31 and its copies.\<close>

lemma bit_shl1_u64:
  "bit (shl1_u64 n) k \<longleftrightarrow>
     k < 64 \<and> (k = nat (n mod 32) \<or> n mod 32 = 31 \<and> 31 \<le> k)"
proof -
  have lt: "nat (n mod 32) < 32" by (simp add: nat_less_iff)
  have "bit (int_shl1 n) j \<longleftrightarrow> j = nat (n mod 32)" for j
    using lt unfolding int_shl1_def by (simp add: bit_push_bit_iff bit_1_iff del: push_bit_of_1) arith
  then have "bit (shl1_u64 n) k \<longleftrightarrow> k < 64 \<and> (k = nat (n mod 32) \<or> 32 \<le> k \<and> 31 = nat (n mod 32))"
    by (simp add: shl1_u64_def bit_word_scast_iff)
  with lt show ?thesis by auto
qed

lemma scast_not_u64: "(scast (NOT (x :: u32)) :: u64) = NOT (scast x)"
  by (rule bit_word_eqI) (auto simp: bit_word_scast_iff bit_not_iff dest: bit_imp_le_length)

lemma word_and_eq_0_iff: "(a :: 'a::len word) AND b = 0 \<longleftrightarrow> (\<forall>k. bit a k \<longrightarrow> \<not> bit b k)"
  by (auto simp: bit_eq_iff bit_and_iff dest: bit_imp_le_length)

lemma word_diff_disjoint: "(a :: 'a::len word) AND b = 0 \<Longrightarrow> (a OR b) AND NOT b = a"
  by (rule bit_word_eqI) (auto simp: word_and_eq_0_iff bit_simps)

lemma word_not_and_disjoint: "(a :: 'a::len word) AND b = 0 \<Longrightarrow> NOT a AND b = b"
  by (rule bit_word_eqI) (auto simp: word_and_eq_0_iff bit_simps)

lemma shl1_u64_mod_32: "n mod 32 = m mod 32 \<Longrightarrow> shl1_u64 n = shl1_u64 m"
  by (simp add: shl1_u64_def int_shl1_def)

lemma shl1_u64_smod_64 [simp]: "shl1_u64 (n smod 64) = shl1_u64 n"
  by (rule shl1_u64_mod_32) (rule smod_64_mod_32)

section \<open>Filling an array\<close>

lemma memset_byte_total: "a < 8 * length m \<Longrightarrow> \<exists>m'. memset_byte c a m = Inr m' \<and> length m' = length m"
  using less_mult_imp_div_less [of a "length m" 8]
  by (simp add: memset_byte_def mult.commute del: of_nat_div)

lemma memset_byte_length: "memset_byte c a m = Inr m' \<Longrightarrow> length m' = length m"
  by (auto simp: memset_byte_def arr_set_Inr_iff)

lemma memset_u64_length: "memset_u64 m c n = Inr m' \<Longrightarrow> length m' = length m"
  unfolding memset_u64_def
  by (erule rfold_invariant [where P = "\<lambda>x. length x = length m"]) (auto dest: memset_byte_length)

lemma memset_u64_total:
  assumes "unat n \<le> 8 * length m"
  shows "\<exists>m'. memset_u64 m c n = Inr m'"
proof -
  have step: "\<exists>t. memset_byte c a s = Inr t \<and> length t = length m"
    if "a \<in> set [0..<unat n]" "length s = length m" for a s
    using memset_byte_total [of a s c] that assms by simp
  have "\<exists>t. rfold (memset_byte c) [0..<unat n] m = Inr t \<and> length t = length m"
    by (rule rfold_total [OF refl step])
  then show ?thesis by (auto simp: memset_u64_def)
qed

text \<open>The bits of the array after \<open>memset\<close>: the first \<open>n\<close> bytes hold \<open>c\<close>, the rest is unchanged.\<close>

lemma bit_set_byte:
  assumes "j < 64"
  shows "bit (set_byte w k c) j \<longleftrightarrow> (if j div 8 = k then bit c (j mod 8) else bit w j)"
proof -
  have "(0xFF :: u64) = mask 8" by (simp add: mask_eq_exp_minus_1)
  then have FF: "bit (0xFF :: u64) i \<longleftrightarrow> i < 8" for i
    by (simp only: bit_mask_iff possible_bit_word) auto
  have c: "bit c i \<Longrightarrow> i < 8" for i using bit_imp_le_length [of c i] by simp
  have jk: "j div 8 = k \<longleftrightarrow> 8 * k \<le> j \<and> j - 8 * k < 8" by auto
  have "j - 8 * k = j mod 8" if "j div 8 = k" using that by (auto simp: minus_mult_div_eq_mod)
  with assms jk c show ?thesis
    by (auto simp: set_byte_def bit_and_iff bit_or_iff bit_not_iff bit_push_bit_iff bit_unsigned_iff
        FF simp del: bit_numeral_word_iff)
qed

lemma memset_byte_nth:
  assumes "memset_byte c a m = Inr m'" and "j < 64" and "i < length m"
  shows "bit (m' ! i) j \<longleftrightarrow> (if 8 * i + j div 8 = a then bit c (j mod 8) else bit (m ! i) j)"
proof -
  from assms(1) have m': "m' = m[a div 8 := set_byte (m ! (a div 8)) (a mod 8) c]"
    by (auto simp: memset_byte_def arr_get_Inr_iff arr_set_Inr_iff nat_div_distrib)
  have "8 * i + j div 8 = a \<longleftrightarrow> a div 8 = i \<and> j div 8 = a mod 8" using assms(2) by auto
  with m' assms(2,3) show ?thesis
    by (cases "a div 8 = i") (auto simp: bit_set_byte)
qed

lemma memset_u64_nth:
  assumes "memset_u64 m c n = Inr m'" and "j < 64" and "i < length m"
  shows "bit (m' ! i) j \<longleftrightarrow> (if 8 * i + j div 8 < unat n then bit c (j mod 8) else bit (m ! i) j)"
proof -
  have "rfold (memset_byte c) [0..<k] m = Inr x \<Longrightarrow>
      length x = length m \<and>
      bit (x ! i) j = (if 8 * i + j div 8 < k then bit c (j mod 8) else bit (m ! i) j)" for k x
  proof (induction k arbitrary: x)
    case (Suc k)
    then obtain y where y: "rfold (memset_byte c) [0..<k] m = Inr y" "memset_byte c k y = Inr x"
      by (auto simp: rfold_append)
    with Suc.IH [OF y(1)] memset_byte_nth [OF y(2) assms(2)] memset_byte_length [OF y(2)] assms(3)
    show ?case by auto
  qed simp
  with assms(1) show ?thesis by (simp add: memset_u64_def)
qed

text \<open>Clearing the whole array.\<close>

lemma memset_u64_zero:
  assumes "unat n = 8 * length m"
  shows "memset_u64 m 0 n = Inr (replicate (length m) 0)"
proof -
  obtain m' where m': "memset_u64 m 0 n = Inr m'" using memset_u64_total assms by fastforce
  have "m' = replicate (length m) 0"
  proof (rule nth_equalityI)
    show "length m' = length (replicate (length m) 0)" using memset_u64_length [OF m'] by simp
    fix i assume "i < length m'"
    then have i: "i < length m" using memset_u64_length [OF m'] by simp
    have "m' ! i = 0"
    proof (rule bit_word_eqI)
      fix j assume "j < LENGTH(64)"
      then have j: "j < 64" by simp
      then have "8 * i + j div 8 < unat n" using i assms by simp
      then show "bit (m' ! i) j = bit 0 j" using memset_u64_nth [OF m' j i] by simp
    qed
    with i show "m' ! i = replicate (length m) 0 ! i" by simp
  qed
  with m' show ?thesis by simp
qed

end
