(* ===== verification/Bitmap.thy ===== *)
theory Bitmap
  imports Prelude
begin

text \<open>
  The block bitmap. \<open>sys/mm/mmgr.c\<close>, \<open>sys/mm/vmmgr_page_allocator.c\<close> and \<open>sys/fs_mmgr.c\<close> hold
  three copies of the same code over three arrays of \<open>uint64_t\<close>; the copies differ in the array's
  name only. This theory translates that code once, over any array, and the theories of the three
  allocators instantiate it on their own state.

  A block number \<open>b\<close> lives in word \<open>b / 64\<close>. The code reads and writes it through the mask
  \<open>1 << (b % 64)\<close>, an \<open>int\<close> expression: blocks \<open>b\<close> with \<open>b % 64 \<ge> 32\<close> share the mask of
  \<open>b - 32\<close>, so a word tracks 32 slots and not 64 (lemma \<open>same_slot_shl1\<close>), and the slot of
  \<open>b % 32 = 31\<close> owns the bits 31 to 63. The lemmas are about slots, and hold of the code as it is.
\<close>

section \<open>The code of the bitmap\<close>

definition bm_set_block :: "u64 list \<Rightarrow> int \<Rightarrow> u64 list res" where
  "bm_set_block m n =
     rbind (arr_get m (n sdiv 64)) (\<lambda>w.
     arr_set m (n sdiv 64) (w OR shl1_u64 (n smod 64)))"

text \<open>
  Despite its name the test returns the masked bits, non-zero when the block is in use. Its
  return type \<open>bool\<close> is the enum of \<open>include/defs.h\<close>, 32 bits wide, so the 64-bit value is cut.
\<close>

definition bm_is_block_free :: "u64 list \<Rightarrow> int \<Rightarrow> u32 res" where
  "bm_is_block_free m n =
     rbind (arr_get m (n sdiv 64)) (\<lambda>w. Inr (ucast (w AND shl1_u64 (n smod 64))))"

definition bm_unset_block :: "u64 list \<Rightarrow> int \<Rightarrow> u64 list res" where
  "bm_unset_block m n =
     rbind (arr_get m (n sdiv 64)) (\<lambda>w.
     arr_set m (n sdiv 64) (w AND scast (NOT (int_shl1 (n smod 64)))))"

text \<open>The inner loop of the search: the first \<open>j < 64\<close> whose mask misses the word.\<close>

definition first_clear :: "u64 \<Rightarrow> nat option" where
  "first_clear w = find (\<lambda>j. w AND shl1_u64 (int j) = 0) [0..<64]"

text \<open>The outer loop, at word \<open>i\<close> with \<open>n\<close> words to go; \<open>-1\<close> when no word has room.\<close>

primrec bm_scan :: "u64 list \<Rightarrow> nat \<Rightarrow> nat \<Rightarrow> int res" where
  "bm_scan m i 0 = Inr (-1)"
| "bm_scan m i (Suc n) =
     rbind (arr_get m (int i)) (\<lambda>w.
       if w \<noteq> 0xFFFFFFFFFFFFFFFF
       then (case first_clear w of
               Some j \<Rightarrow> Inr (int (i * 64 + j))
             | None \<Rightarrow> bm_scan m (Suc i) n)
       else bm_scan m (Suc i) n)"

definition bm_get_first_free :: "u64 list \<Rightarrow> u64 \<Rightarrow> int res" where
  "bm_get_first_free m tot = bm_scan m 0 (unat (tot div 64))"

text \<open>
  The search for \<open>size\<close> blocks in a row. The innermost loop walks \<open>count\<close> from the candidate
  \<open>temp_bit\<close> and either finds the run, breaks at a block in use, or ends (\<open>size = 0\<close>).
\<close>

datatype run = Found | Broke nat | Exhausted

primrec bm_run :: "u64 list \<Rightarrow> nat \<Rightarrow> nat \<Rightarrow> nat \<Rightarrow> nat \<Rightarrow> nat \<Rightarrow> run res" where
  "bm_run m temp_bit sz free count 0 = Inr Exhausted"
| "bm_run m temp_bit sz free count (Suc n) =
     rbind (bm_is_block_free m (int (temp_bit + count))) (\<lambda>b.
       if b = 0
       then (if Suc free = sz then Inr Found
             else bm_run m temp_bit sz (Suc free) (Suc count) n)
       else Inr (Broke count))"

text \<open>The loop over \<open>j\<close> in word \<open>i\<close>; a break adds \<open>count\<close> to \<open>j\<close> before the increment.\<close>

function bm_range_word :: "u64 list \<Rightarrow> u64 \<Rightarrow> nat \<Rightarrow> nat \<Rightarrow> nat \<Rightarrow> nat option res" where
  "bm_range_word m w i sz j =
     (if j < 64
      then if w AND shl1_u64 (int j) = 0
           then rbind (bm_run m (i * 64 + j) sz 0 0 sz) (\<lambda>r. case r of
                    Found \<Rightarrow> Inr (Some (i * 64 + j))
                  | Broke count \<Rightarrow> bm_range_word m w i sz (j + count + 1)
                  | Exhausted \<Rightarrow> bm_range_word m w i sz (j + 1))
           else bm_range_word m w i sz (j + 1)
      else Inr None)"
  by pat_completeness auto
termination
  by (relation "measure (\<lambda>(m, w, i, sz, j). 64 - j)") auto

primrec bm_range_scan :: "u64 list \<Rightarrow> nat \<Rightarrow> nat \<Rightarrow> nat \<Rightarrow> int res" where
  "bm_range_scan m sz i 0 = Inr (-1)"
| "bm_range_scan m sz i (Suc n) =
     rbind (arr_get m (int i)) (\<lambda>w.
       if w \<noteq> 0xFFFFFFFFFFFFFFFF
       then rbind (bm_range_word m w i sz 0) (\<lambda>r. case r of
                Some b \<Rightarrow> Inr (int b)
              | None \<Rightarrow> bm_range_scan m sz (Suc i) n)
       else bm_range_scan m sz (Suc i) n)"

text \<open>The comparison \<open>count<size\<close> is unsigned: \<open>count\<close> is a \<open>uint32_t\<close>, \<open>size\<close> an \<open>int\<close>.\<close>

definition bm_get_first_range_free :: "u64 list \<Rightarrow> u64 \<Rightarrow> int \<Rightarrow> int res" where
  "bm_get_first_range_free m tot sz =
     bm_range_scan m (unat (word_of_int sz :: u32)) 0 (unat (tot div 64))"

declare bm_range_word.simps [simp del]

section \<open>Slots\<close>

text \<open>Two blocks share a slot when the code cannot tell them apart.\<close>

definition same_slot :: "nat \<Rightarrow> nat \<Rightarrow> bool" where
  "same_slot b c \<longleftrightarrow> b div 64 = c div 64 \<and> b mod 32 = c mod 32"

definition bm_used :: "u64 list \<Rightarrow> nat \<Rightarrow> bool" where
  "bm_used m b \<longleftrightarrow> b div 64 < length m \<and> m ! (b div 64) AND shl1_u64 (int b) \<noteq> 0"

lemma same_slot_refl [simp]: "same_slot b b"
  by (simp add: same_slot_def)

lemma same_slot_sym: "same_slot b c \<Longrightarrow> same_slot c b"
  by (simp add: same_slot_def)

lemma same_slot_low: "same_slot b c \<Longrightarrow> b mod 64 < 32 \<Longrightarrow> c mod 64 < 32 \<Longrightarrow> b = c"
proof -
  assume s: "same_slot b c" and b: "b mod 64 < 32" and c: "c mod 64 < 32"
  have "b mod 64 mod 32 = b mod 32" and "c mod 64 mod 32 = c mod 32"
    by (simp_all add: mod_mod_cancel)
  with s b c have "b mod 64 = c mod 64" and "b div 64 = c div 64"
    by (simp_all add: same_slot_def)
  then show "b = c" by (metis div_mult_mod_eq)
qed

lemma shl1_int_mod_32: "(b::nat) mod 32 = c mod 32 \<Longrightarrow> shl1_u64 (int b) = shl1_u64 (int c)"
  by (rule shl1_u64_mod_32) (drule arg_cong [of _ _ int], simp only: zmod_int of_nat_numeral)

lemma word_offset_mod_32: "(i * 64 + k) mod 32 = (k :: nat) mod 32"
  using mod_mult_self3 [of "i * 2" 32 k] by (simp add: mult.commute mult.left_commute)

lemma shl1_word_offset: "shl1_u64 (int (i * 64 + k)) = shl1_u64 (int k)"
  by (rule shl1_int_mod_32) (rule word_offset_mod_32)

lemma same_slot_shl1: "same_slot b c \<Longrightarrow> shl1_u64 (int b) = shl1_u64 (int c)"
  by (rule shl1_int_mod_32) (simp add: same_slot_def)

lemma same_slot_add_32: "b mod 64 < 32 \<Longrightarrow> same_slot b (b + 32)"
proof -
  assume r: "b mod 64 < 32"
  have "b = 64 * (b div 64) + b mod 64" by simp
  then have "(b + 32) div 64 = (64 * (b div 64) + (b mod 64 + 32)) div 64" by simp
  also have "\<dots> = b div 64" using r by (subst div_mult_self4) simp_all
  finally show ?thesis by (simp add: same_slot_def)
qed

lemma bm_used_same_slot: "same_slot b c \<Longrightarrow> bm_used m b \<longleftrightarrow> bm_used m c"
  using same_slot_shl1 [of b c] by (simp add: bm_used_def same_slot_def)

lemma bit_shl1_nat:
  "bit (shl1_u64 (int b)) k \<longleftrightarrow> k < 64 \<and> (k = b mod 32 \<or> b mod 32 = 31 \<and> 31 \<le> k)"
proof -
  have "int b mod 32 = int (b mod 32)" by (simp add: zmod_int)
  then show ?thesis by (auto simp: bit_shl1_u64)
qed

lemma shl1_nonzero [simp]: "shl1_u64 (int b) \<noteq> 0"
proof
  assume "shl1_u64 (int b) = 0"
  then have "\<not> bit (shl1_u64 (int b)) (b mod 32)" by simp
  moreover have "b mod 32 < 64" by (rule less_trans [of _ 32]) simp_all
  ultimately show False by (simp add: bit_shl1_nat)
qed

lemma shl1_disjoint:
  assumes "b mod 32 \<noteq> c mod 32"
  shows "shl1_u64 (int b) AND shl1_u64 (int c) = 0"
proof (rule bit_word_eqI)
  fix k :: nat
  have "b mod 32 < 32" "c mod 32 < 32" by simp_all
  with assms show "bit (shl1_u64 (int b) AND shl1_u64 (int c)) k \<longleftrightarrow> bit (0 :: u64) k"
    by (auto simp: bit_and_iff bit_shl1_nat)
qed

section \<open>Setting, clearing and testing a block\<close>

lemma bm_mask_eq: "shl1_u64 (int b smod 64) = shl1_u64 (int b)"
  by (rule shl1_u64_smod_64)

lemma int_div_64 [simp]: "int b sdiv 64 = int (b div 64)"
  by (simp add: zdiv_int)

lemma bm_set_block_eq:
  "b div 64 < length m \<Longrightarrow>
     bm_set_block m (int b) = Inr (m[b div 64 := m ! (b div 64) OR shl1_u64 (int b)])"
  by (simp add: bm_set_block_def del: smod_nonneg of_nat_div)

lemma bm_unset_block_eq:
  "b div 64 < length m \<Longrightarrow>
     bm_unset_block m (int b) = Inr (m[b div 64 := m ! (b div 64) AND NOT (shl1_u64 (int b))])"
  by (simp add: bm_unset_block_def scast_not_u64 shl1_u64_def [symmetric]
      del: smod_nonneg of_nat_div)

lemma bm_set_block_Inr:
  "bm_set_block m (int b) = Inr m' \<longleftrightarrow>
     b div 64 < length m \<and> m' = m[b div 64 := m ! (b div 64) OR shl1_u64 (int b)]"
  by (cases "b div 64 < length m")
     (auto simp: bm_set_block_eq, auto simp: bm_set_block_def arr_get_def simp del: of_nat_div)

lemma bm_unset_block_Inr:
  "bm_unset_block m (int b) = Inr m' \<longleftrightarrow>
     b div 64 < length m \<and> m' = m[b div 64 := m ! (b div 64) AND NOT (shl1_u64 (int b))]"
  by (cases "b div 64 < length m")
     (auto simp: bm_unset_block_eq, auto simp: bm_unset_block_def arr_get_def simp del: of_nat_div)

lemma word_or_mask_and: "((w :: u64) OR p) AND q = 0 \<longleftrightarrow> w AND q = 0 \<and> p AND q = 0"
  by (auto simp: word_and_eq_0_iff bit_or_iff)

lemma bm_used_set:
  assumes "b div 64 < length m"
  shows "bm_used (m[b div 64 := m ! (b div 64) OR shl1_u64 (int b)]) c \<longleftrightarrow>
           bm_used m c \<or> same_slot b c"
proof (cases "b div 64 = c div 64")
  case True
  have "shl1_u64 (int b) AND shl1_u64 (int c) = 0 \<longleftrightarrow> b mod 32 \<noteq> c mod 32"
    using shl1_disjoint shl1_int_mod_32 [of b c] by force
  with True assms show ?thesis
    by (auto simp: bm_used_def same_slot_def word_or_mask_and)
next
  case False
  then show ?thesis by (simp add: bm_used_def same_slot_def)
qed

lemma bm_used_unset:
  assumes "b div 64 < length m"
  shows "bm_used (m[b div 64 := m ! (b div 64) AND NOT (shl1_u64 (int b))]) c \<longleftrightarrow>
           bm_used m c \<and> \<not> same_slot b c"
proof (cases "b div 64 = c div 64")
  case True
  have "NOT (shl1_u64 (int b)) AND shl1_u64 (int c) =
          (if b mod 32 = c mod 32 then 0 else shl1_u64 (int c))"
    using shl1_int_mod_32 [of b c] shl1_disjoint [of b c] by (simp add: word_not_and_disjoint)
  with True assms show ?thesis
    by (auto simp: bm_used_def same_slot_def and.assoc)
next
  case False
  then show ?thesis by (simp add: bm_used_def same_slot_def)
qed

text \<open>Clearing a block just set restores the array, bit for bit.\<close>

lemma bm_unset_set:
  assumes "b div 64 < length m" and "\<not> bm_used m b"
  shows "m[b div 64 := (m ! (b div 64) OR shl1_u64 (int b)) AND NOT (shl1_u64 (int b))] = m"
proof -
  have "m ! (b div 64) AND shl1_u64 (int b) = 0" using assms by (simp add: bm_used_def)
  from word_diff_disjoint [OF this] show ?thesis by simp
qed

section \<open>The search for a free block\<close>

lemma first_clear_Some:
  assumes "first_clear w = Some j"
  shows "j < 32" and "w AND shl1_u64 (int j) = 0" and "\<And>k. k < j \<Longrightarrow> w AND shl1_u64 (int k) \<noteq> 0"
proof -
  from assms obtain clear: "j < 64" "w AND shl1_u64 (int j) = 0"
    and least: "\<forall>k<j. w AND shl1_u64 (int k) \<noteq> 0"
    by (auto simp: first_clear_def find_Some_iff)
  have "j < 32"
  proof (rule ccontr)
    assume "\<not> j < 32"
    then have "(j - 32) mod 32 = j mod 32" by (simp add: le_mod_geq)
    from shl1_int_mod_32 [OF this] have "w AND shl1_u64 (int (j - 32)) = 0" using clear by simp
    moreover have "j - 32 < j" using \<open>\<not> j < 32\<close> by simp
    ultimately show False using least by blast
  qed
  with clear least show "j < 32" and "w AND shl1_u64 (int j) = 0"
    and "\<And>k. k < j \<Longrightarrow> w AND shl1_u64 (int k) \<noteq> 0" by auto
qed

lemma first_clear_None: "first_clear w = None \<Longrightarrow> w AND shl1_u64 (int c) \<noteq> 0"
proof -
  assume "first_clear w = None"
  then have "w AND shl1_u64 (int (c mod 64)) \<noteq> 0"
    by (auto simp: first_clear_def find_None_iff)
  moreover have "c mod 64 mod 32 = c mod 32" by (simp add: mod_mod_cancel)
  ultimately show ?thesis using shl1_int_mod_32 [of "c mod 64" c] by simp
qed

lemma all_ones_and: "(0xFFFFFFFFFFFFFFFF :: u64) AND p = p"
proof -
  have "(0xFFFFFFFFFFFFFFFF :: u64) = -1" by simp
  then show ?thesis by (simp only: and.left_neutral)
qed

text \<open>What a block the search skips looks like: its word is in range and its slot is in use.\<close>

lemma bm_used_word: "c div 64 = i \<Longrightarrow> i < length m \<Longrightarrow> m ! i AND shl1_u64 (int c) \<noteq> 0 \<Longrightarrow> bm_used m c"
  by (simp add: bm_used_def)

text \<open>
  The outcome of the search over \<open>n\<close> words from word \<open>i\<close>: the least block from there on whose
  slot is free, or \<open>-1\<close> and every slot is in use.
\<close>

definition scan_outcome :: "u64 list \<Rightarrow> nat \<Rightarrow> nat \<Rightarrow> int \<Rightarrow> bool" where
  "scan_outcome m i n r \<longleftrightarrow>
     r = -1 \<and> (\<forall>c. i \<le> c div 64 \<and> c div 64 < i + n \<longrightarrow> bm_used m c) \<or>
     (\<exists>b. r = int b \<and> i \<le> b div 64 \<and> b div 64 < i + n \<and> b div 64 < length m \<and> b mod 64 < 32 \<and>
          \<not> bm_used m b \<and> (\<forall>c. i \<le> c div 64 \<and> c < b \<longrightarrow> bm_used m c))"

lemma scan_outcome_skip:
  assumes "\<And>c. c div 64 = i \<Longrightarrow> bm_used m c" and "scan_outcome m (Suc i) n r"
  shows "scan_outcome m i (Suc n) r"
proof -
  have "bm_used m c" if "i \<le> c div 64" "Suc i \<le> c div 64 \<Longrightarrow> bm_used m c" for c
    using that assms(1) by (cases "c div 64 = i") auto
  with assms(2) show ?thesis
    unfolding scan_outcome_def
    by (elim disjE) (auto simp: le_Suc_eq, (metis Suc_leD Suc_leI)+)
qed

lemma bm_scan_outcome: "bm_scan m i n = Inr r \<Longrightarrow> scan_outcome m i n r"
proof (induction n arbitrary: i)
  case 0
  then show ?case by (auto simp: scan_outcome_def)
next
  case (Suc n)
  from Suc.prems have i: "i < length m" by (auto simp: arr_get_Inr_iff)
  let ?w = "m ! i"
  show ?case
  proof (cases "?w \<noteq> 0xFFFFFFFFFFFFFFFF \<and> first_clear ?w \<noteq> None")
    case True
    then obtain j where j: "first_clear ?w = Some j" by auto
    with True i Suc.prems have r: "r = int (i * 64 + j)" by simp
    note fc = first_clear_Some [OF j]
    have div: "(i * 64 + j) div 64 = i" and mod: "(i * 64 + j) mod 64 = j" using fc(1) by simp_all
    have "shl1_u64 (int (i * 64 + j)) = shl1_u64 (int j)" by (rule shl1_word_offset)
    with fc(2) div have free: "\<not> bm_used m (i * 64 + j)" by (simp add: bm_used_def)
    have "bm_used m c" if "i \<le> c div 64" "c < i * 64 + j" for c
    proof -
      have "c = c div 64 * 64 + c mod 64" by simp
      moreover have "c div 64 = i" using that fc(1) by linarith
      ultimately have c: "c div 64 = i" "c mod 64 < j" using that by linarith+
      have "shl1_u64 (int c) = shl1_u64 (int (c mod 64))"
        by (rule shl1_int_mod_32) (simp add: mod_mod_cancel)
      with fc(3) [OF c(2)] c(1) i show ?thesis by (auto intro!: bm_used_word)
    qed
    with free r div mod fc(1) i show ?thesis
      unfolding scan_outcome_def by (intro disjI2 exI [of _ "i * 64 + j"]) auto
  next
    case False
    then have "?w AND shl1_u64 (int c) \<noteq> 0" for c
      using first_clear_None all_ones_and by fastforce
    with i have "\<And>c. c div 64 = i \<Longrightarrow> bm_used m c" by (auto intro: bm_used_word)
    moreover from False i Suc.prems have "bm_scan m (Suc i) n = Inr r" by (auto split: if_splits)
    ultimately show ?thesis by (intro scan_outcome_skip Suc.IH)
  qed
qed

lemma bm_scan_total: "i + n \<le> length m \<Longrightarrow> \<exists>r. bm_scan m i n = Inr r"
  by (induction n arbitrary: i) (auto split: option.split)

text \<open>A free slot within the array is found; without one, a bound past the array's end is a fault.\<close>

lemma word_full_or_free:
  assumes "i < length m"
  shows "(\<exists>j. m ! i \<noteq> 0xFFFFFFFFFFFFFFFF \<and> first_clear (m ! i) = Some j) \<or>
         (\<forall>c. c div 64 = i \<longrightarrow> bm_used m c) \<and>
           (m ! i = 0xFFFFFFFFFFFFFFFF \<or> first_clear (m ! i) = None)"
proof (cases "m ! i \<noteq> 0xFFFFFFFFFFFFFFFF \<and> first_clear (m ! i) \<noteq> None")
  case False
  then have "m ! i AND shl1_u64 (int c) \<noteq> 0" for c
    using first_clear_None all_ones_and by fastforce
  with assms False show ?thesis by (auto intro: bm_used_word)
qed auto

lemma bm_scan_finds:
  "i \<le> c div 64 \<Longrightarrow> c div 64 < i + n \<Longrightarrow> c div 64 < length m \<Longrightarrow> \<not> bm_used m c \<Longrightarrow>
     \<exists>r. bm_scan m i n = Inr r \<and> r \<noteq> -1"
proof (induction n arbitrary: i)
  case (Suc n)
  then have i: "i < length m" by simp
  from word_full_or_free [OF i] show ?case
  proof
    assume full: "(\<forall>c. c div 64 = i \<longrightarrow> bm_used m c) \<and>
        (m ! i = 0xFFFFFFFFFFFFFFFF \<or> first_clear (m ! i) = None)"
    then have "c div 64 \<noteq> i" using Suc.prems(4) by blast
    then have "\<exists>r. bm_scan m (Suc i) n = Inr r \<and> r \<noteq> -1" using Suc.prems by (intro Suc.IH) auto
    with i full show ?case by auto
  qed (use i in auto)
qed simp

lemma bm_scan_overrun:
  "(\<And>c. i \<le> c div 64 \<Longrightarrow> c div 64 < length m \<Longrightarrow> bm_used m c) \<Longrightarrow> i \<le> length m \<Longrightarrow> length m < i + n \<Longrightarrow>
     bm_scan m i n = Inl OutOfBounds"
proof (induction n arbitrary: i)
  case (Suc n)
  show ?case
  proof (cases "i < length m")
    case True
    have "first_clear (m ! i) = None"
    proof (rule ccontr)
      assume "first_clear (m ! i) \<noteq> None"
      then obtain j where j: "first_clear (m ! i) = Some j" by auto
      have "(i * 64 + j) div 64 = i" using first_clear_Some(1) [OF j] by simp
      moreover have "shl1_u64 (int (i * 64 + j)) = shl1_u64 (int j)"
        by (rule shl1_word_offset)
      ultimately show False
        using Suc.prems(1) [of "i * 64 + j"] True first_clear_Some(2) [OF j] by (simp add: bm_used_def)
    qed
    moreover have "bm_scan m (Suc i) n = Inl OutOfBounds" using Suc.prems True by (intro Suc.IH) auto
    ultimately show ?thesis using True by simp
  next
    case False
    then have "arr_get m (int i) = Inl OutOfBounds" by (simp add: arr_get_def)
    then show ?thesis by simp
  qed
qed simp

lemma bm_get_first_free_total:
  "unat (tot div 64) \<le> length m \<Longrightarrow> \<exists>r. bm_get_first_free m tot = Inr r"
  by (simp add: bm_get_first_free_def bm_scan_total)

lemma bm_get_first_freeD:
  assumes "bm_get_first_free m tot = Inr r" and "r \<noteq> -1"
  obtains b where "r = int b" and "b div 64 < unat (tot div 64)" and "b div 64 < length m"
    and "b mod 64 < 32" and "\<not> bm_used m b" and "\<And>c. c < b \<Longrightarrow> bm_used m c"
  using bm_scan_outcome [of m 0 "unat (tot div 64)" r] assms
  by (auto simp: bm_get_first_free_def scan_outcome_def)

lemma bm_get_first_free_full:
  assumes "bm_get_first_free m tot = Inr (-1)" and "c div 64 < unat (tot div 64)"
  shows "bm_used m c"
  using bm_scan_outcome [of m 0 "unat (tot div 64)" "-1"] assms
  by (auto simp: bm_get_first_free_def scan_outcome_def)

section \<open>The search for a run of blocks\<close>

text \<open>
  The run search tests a block with \<open>bm_is_block_free\<close>, which sees the low 32 bits of the masked
  word only. It agrees with \<open>bm_used\<close> on arrays whose words have their bits 31 to 63 all equal,
  which setting and clearing blocks keeps.
\<close>

definition bm_wf :: "u64 list \<Rightarrow> bool" where
  "bm_wf m \<longleftrightarrow> (\<forall>w \<in> set m. \<forall>k. 31 \<le> k \<and> k < 64 \<longrightarrow> bit w k = bit w 31)"

lemma bm_wfD: "bm_wf m \<Longrightarrow> i < length m \<Longrightarrow> 31 \<le> k \<Longrightarrow> k < 64 \<Longrightarrow> bit (m ! i) k = bit (m ! i) 31"
  unfolding bm_wf_def using nth_mem by blast

lemma bm_wf_update:
  assumes "bm_wf m" and "\<And>k. 31 \<le> k \<Longrightarrow> k < 64 \<Longrightarrow> bit v k = bit v 31"
  shows "bm_wf (m[i := v])"
  using assms set_update_subset_insert [of m i v] unfolding bm_wf_def by blast

lemma shl1_high_bits: "31 \<le> k \<Longrightarrow> k < 64 \<Longrightarrow> bit (shl1_u64 (int b)) k = bit (shl1_u64 (int b)) 31"
proof -
  assume "31 \<le> k" "k < 64"
  moreover have "b mod 32 < 32" by simp
  ultimately show ?thesis by (auto simp: bit_shl1_nat)
qed

lemma bm_wf_set: "bm_wf m \<Longrightarrow> b div 64 < length m \<Longrightarrow>
    bm_wf (m[b div 64 := m ! (b div 64) OR shl1_u64 (int b)])"
  apply (rule bm_wf_update, assumption)
  subgoal for k using bm_wfD [of m "b div 64" k] shl1_high_bits [of k b] by (simp only: bit_or_iff)
  done

lemma bm_wf_unset: "bm_wf m \<Longrightarrow> b div 64 < length m \<Longrightarrow>
    bm_wf (m[b div 64 := m ! (b div 64) AND NOT (shl1_u64 (int b))])"
  apply (rule bm_wf_update, assumption)
  subgoal for k using bm_wfD [of m "b div 64" k] shl1_high_bits [of k b]
    by (simp only: bit_and_iff bit_not_iff possible_bit_word) simp
  done

lemma bm_is_block_free_0:
  assumes "bm_wf m" and "bm_is_block_free m (int b) = Inr 0"
  shows "b div 64 < length m" and "\<not> bm_used m b"
proof -
  from assms(2) have len: "b div 64 < length m"
    and z: "ucast (m ! (b div 64) AND shl1_u64 (int b)) = (0 :: u32)"
    by (auto simp: bm_is_block_free_def arr_get_Inr_iff nat_div_distrib simp del: of_nat_div smod_nonneg)
  have "bit (ucast (m ! (b div 64) AND shl1_u64 (int b)) :: u32) (b mod 32) = False" by (simp only: z bit_0_eq bot_apply bot_bool_def)
  then have nb: "\<not> bit (m ! (b div 64)) (b mod 32)"
    by (simp add: bit_word_ucast_iff bit_and_iff bit_shl1_nat less_trans [of _ 32])
  have "\<not> (bit (m ! (b div 64)) k \<and> bit (shl1_u64 (int b)) k)" for k
    using nb bm_wfD [OF assms(1) len, of k] unfolding bit_shl1_nat by metis
  then have "m ! (b div 64) AND shl1_u64 (int b) = 0" by (auto simp: word_and_eq_0_iff)
  with len show "b div 64 < length m" and "\<not> bm_used m b" by (simp_all add: bm_used_def)
qed

lemma bm_run_Found:
  "bm_run m t sz c c n = Inr Found \<Longrightarrow> c \<le> k \<Longrightarrow> k < sz \<Longrightarrow> bm_is_block_free m (int (t + k)) = Inr 0"
proof (induction n arbitrary: c)
  case 0
  then show ?case by simp
next
  case (Suc n)
  from Suc.prems(1) have "bm_is_block_free m (int (t + c)) = Inr 0"
    and "Suc c = sz \<or> bm_run m t sz (Suc c) (Suc c) n = Inr Found"
    by (auto split: if_splits)
  with Suc show ?case by (cases "k = c") auto
qed

lemma bm_range_word_Some:
  "bm_range_word m w i sz j = Inr (Some b) \<Longrightarrow> bm_run m b sz 0 0 sz = Inr Found"
proof (induction m w i sz j rule: bm_range_word.induct)
  case (1 m w i sz j)
  note IH = 1(1) [simplified] 1(2) [simplified] 1(3) [simplified]
  from 1(4) show ?case
    by (subst (asm) bm_range_word.simps) (auto split: if_splits run.splits intro: IH)
qed

lemma bm_range_scan_Inr:
  "bm_range_scan m sz i n = Inr r \<Longrightarrow> r \<noteq> -1 \<Longrightarrow> \<exists>b. r = int b \<and> bm_run m b sz 0 0 sz = Inr Found"
proof (induction n arbitrary: i)
  case (Suc n)
  from Suc.prems obtain w where "bm_range_scan m sz (Suc i) n = Inr r \<or>
      (\<exists>b. r = int b \<and> bm_range_word m w i sz 0 = Inr (Some b))"
    by (simp split: if_splits option.splits) (fastforce split: if_splits option.splits)
  with Suc show ?case by (blast dest: bm_range_word_Some)
qed simp

lemma bm_get_first_range_freeD:
  assumes "bm_get_first_range_free m tot sz = Inr r" and "r \<noteq> -1" and "bm_wf m"
  obtains b where "r = int b"
    and "\<And>k. k < unat (word_of_int sz :: u32) \<Longrightarrow> (b + k) div 64 < length m \<and> \<not> bm_used m (b + k)"
proof -
  from assms(1,2) obtain b where b: "r = int b"
    and "bm_run m b (unat (word_of_int sz :: u32)) 0 0 (unat (word_of_int sz :: u32)) = Inr Found"
    unfolding bm_get_first_range_free_def by (blast dest: bm_range_scan_Inr)
  then have "bm_is_block_free m (int (b + k)) = Inr 0" if "k < unat (word_of_int sz :: u32)" for k
    using that bm_run_Found by blast
  with b that assms(3) show ?thesis by (blast dest: bm_is_block_free_0)
qed

section \<open>A block through the C conversions\<close>

text \<open>
  The allocators pass the result of the search through a \<open>uint64_t\<close> and back to an \<open>int\<close>. For an
  array of at most \<open>2 ^ 20\<close> words nothing is lost on the way, and \<open>-1\<close> stays recognisable.
\<close>

lemma block_bound:
  assumes "b div 64 < length (m :: u64 list)" and "length m \<le> 2 ^ 20"
  shows "b < 2 ^ 26"
proof -
  have "b div 64 < 2 ^ 20" using assms by linarith
  then have "b < 2 ^ 20 * 64" by (simp only: div_less_iff_less_mult zero_less_numeral)
  then show ?thesis by simp
qed

lemma unat_block: "b < 2 ^ 26 \<Longrightarrow> unat (of_nat b :: u64) = b"
  by (simp add: unat_of_nat)

lemma block_not_m1: "b < 2 ^ 26 \<Longrightarrow> (of_nat b :: u64) \<noteq> -1"
proof
  assume b: "b < 2 ^ 26" and "(of_nat b :: u64) = -1"
  then have "unat (of_nat b :: u64) = unat (-1 :: u64)" by simp
  with b show False by (simp add: unat_block unsigned_minus_1_eq_mask mask_eq_exp_minus_1)
qed

lemma int_of_block: "b < 2 ^ 26 \<Longrightarrow> int_of_u64 (of_nat b) = int b"
  by (subst int_of_u64_small) (simp_all add: unat_block)

text \<open>The byte address of a block, and back.\<close>

lemma unat_block_addr: "b < 2 ^ 26 \<Longrightarrow> unat (of_nat b * 4096 :: u64) = b * 4096"
proof -
  assume b: "b < 2 ^ 26"
  have "(of_nat b * 4096 :: u64) = of_nat (b * 4096)" by simp
  then have "unat (of_nat b * 4096 :: u64) = (b * 4096) mod 2 ^ 64" by (simp only: unat_of_nat) simp
  with b show ?thesis by simp
qed

lemma block_addr_div: "b < 2 ^ 26 \<Longrightarrow> (of_nat b * 4096 :: u64) div 4096 = of_nat b"
proof -
  assume b: "b < 2 ^ 26"
  have "unat ((of_nat b * 4096 :: u64) div 4096) = unat (of_nat b :: u64)"
    using b by (simp add: unat_div unat_block_addr unat_block)
  then show ?thesis by (rule word_unat_eq_iff [THEN iffD2])
qed

lemma block_addr_eq_0: "b < 2 ^ 26 \<Longrightarrow> (of_nat b * 4096 :: u64) = 0 \<longleftrightarrow> b = 0"
  by (metis block_addr_div div_0 mult_zero_left of_nat_0 unat_0 unat_block)

text \<open>What an allocator sees of the search: nothing, or the least free block.\<close>

definition least_free :: "u64 list \<Rightarrow> u64 \<Rightarrow> nat \<Rightarrow> bool" where
  "least_free m tot b \<longleftrightarrow>
     b div 64 < length m \<and> b div 64 < unat (tot div 64) \<and> b mod 64 < 32 \<and> b < 2 ^ 26 \<and>
     \<not> bm_used m b \<and> (\<forall>c<b. bm_used m c)"

lemma first_free_blockE:
  assumes "bm_get_first_free m tot = Inr r" and "length m \<le> 2 ^ 20"
  obtains (full) "r = -1" and "u64_of_int r = -1"
    | (block) b where "r = int b" and "u64_of_int r \<noteq> -1" and "u64_of_int r = of_nat b"
        and "int_of_u64 (u64_of_int r) = int b" and "least_free m tot b"
proof (cases "r = -1")
  case True
  then show ?thesis by (intro full) simp_all
next
  case False
  obtain b where b: "r = int b" "b div 64 < unat (tot div 64)" "b div 64 < length m"
      "b mod 64 < 32" "\<not> bm_used m b" "\<And>c. c < b \<Longrightarrow> bm_used m c"
    using assms(1) False by (rule bm_get_first_freeD) blast
  have "b < 2 ^ 26" using b(3) assms(2) by (rule block_bound)
  with b show ?thesis
    by (intro block) (auto simp: block_not_m1 int_of_block least_free_def)
qed

lemma least_freeD:
  assumes "least_free m tot b"
  shows "b div 64 < length m" and "b < 2 ^ 26" and "\<not> bm_used m b"
  using assms by (auto simp: least_free_def)

section \<open>Setting and clearing many blocks\<close>

lemma bm_set_blocks:
  "rfold (\<lambda>i m. bm_set_block m (int (b + i))) xs m = Inr m' \<Longrightarrow>
     length m' = length m \<and> (bm_wf m \<longrightarrow> bm_wf m') \<and>
     (\<forall>c. bm_used m' c \<longleftrightarrow> bm_used m c \<or> (\<exists>i\<in>set xs. same_slot (b + i) c))"
proof (induction xs arbitrary: m)
  case (Cons x xs)
  from Cons.prems obtain m1 where a: "bm_set_block m (int (b + x)) = Inr m1"
    and r: "rfold (\<lambda>i m. bm_set_block m (int (b + i))) xs m1 = Inr m'" by auto
  from a have x: "(b + x) div 64 < length m"
    and m1: "m1 = m[(b + x) div 64 := m ! ((b + x) div 64) OR shl1_u64 (int (b + x))]"
    by (simp_all only: bm_set_block_Inr)
  have "bm_used m1 c \<longleftrightarrow> bm_used m c \<or> same_slot (b + x) c" for c
    unfolding m1 using x by (rule bm_used_set)
  moreover have "bm_wf m1" if "bm_wf m" unfolding m1 using that x by (rule bm_wf_set)
  moreover have "length m1 = length m" unfolding m1 by simp
  ultimately show ?case using Cons.IH [OF r] by auto
qed simp

lemma bm_unset_blocks:
  "rfold (\<lambda>i m. bm_unset_block m (int (b + i))) xs m = Inr m' \<Longrightarrow>
     length m' = length m \<and> (bm_wf m \<longrightarrow> bm_wf m') \<and>
     (\<forall>c. bm_used m' c \<longleftrightarrow> bm_used m c \<and> (\<forall>i\<in>set xs. \<not> same_slot (b + i) c))"
proof (induction xs arbitrary: m)
  case (Cons x xs)
  from Cons.prems obtain m1 where a: "bm_unset_block m (int (b + x)) = Inr m1"
    and r: "rfold (\<lambda>i m. bm_unset_block m (int (b + i))) xs m1 = Inr m'" by auto
  from a have x: "(b + x) div 64 < length m"
    and m1: "m1 = m[(b + x) div 64 := m ! ((b + x) div 64) AND NOT (shl1_u64 (int (b + x)))]"
    by (simp_all only: bm_unset_block_Inr)
  have "bm_used m1 c \<longleftrightarrow> bm_used m c \<and> \<not> same_slot (b + x) c" for c
    unfolding m1 using x by (rule bm_used_unset)
  moreover have "bm_wf m1" if "bm_wf m" unfolding m1 using that x by (rule bm_wf_unset)
  moreover have "length m1 = length m" unfolding m1 by simp
  ultimately show ?case using Cons.IH [OF r] by auto
qed simp

lemma bm_set_blocks_total:
  "\<forall>i\<in>set xs. (b + i) div 64 < length m \<Longrightarrow>
     \<exists>m'. rfold (\<lambda>i m. bm_set_block m (int (b + i))) xs m = Inr m'"
  using rfold_total [where P = "\<lambda>x. length x = length m" and xs = xs and s = m
      and f = "\<lambda>i m. bm_set_block m (int (b + i))"]
  by (auto simp: bm_set_block_eq simp del: of_nat_add)

lemma bm_unset_blocks_total:
  "\<forall>i\<in>set xs. (b + i) div 64 < length m \<Longrightarrow>
     \<exists>m'. rfold (\<lambda>i m. bm_unset_block m (int (b + i))) xs m = Inr m'"
  using rfold_total [where P = "\<lambda>x. length x = length m" and xs = xs and s = m
      and f = "\<lambda>i m. bm_unset_block m (int (b + i))"]
  by (auto simp: bm_unset_block_eq simp del: of_nat_add)

text \<open>A well-formed array is determined by the blocks in use.\<close>

lemma bm_used_low: "bm_wf m \<Longrightarrow> i < length m \<Longrightarrow> k < 32 \<Longrightarrow> bm_used m (i * 64 + k) \<longleftrightarrow> bit (m ! i) k"
proof -
  assume wf: "bm_wf m" and i: "i < length m" and k: "k < 32"
  have *: "(i * 64 + k) div 64 = i" "(i * 64 + k) mod 32 = k"
    using k by (simp_all add: word_offset_mod_32)
  have "m ! i AND shl1_u64 (int (i * 64 + k)) \<noteq> 0 \<longleftrightarrow> bit (m ! i) k"
    using bm_wfD [OF wf i] k unfolding word_and_eq_0_iff bit_shl1_nat * by (auto dest: bit_imp_le_length)
  with i * show ?thesis by (simp add: bm_used_def del: of_nat_add of_nat_mult)
qed

lemma bm_ext:
  assumes "length m = length m'" and "bm_wf m" and "bm_wf m'" and "\<And>c. bm_used m c \<longleftrightarrow> bm_used m' c"
  shows "m = m'"
proof (rule nth_equalityI [OF assms(1)])
  fix i assume i: "i < length m"
  then have i': "i < length m'" using assms(1) by simp
  have low: "bit (m ! i) k = bit (m' ! i) k" if "k < 32" for k
    using bm_used_low [OF assms(2) i that] bm_used_low [OF assms(3) i' that] assms(4) by simp
  show "m ! i = m' ! i"
  proof (rule bit_word_eqI)
    fix k assume "k < LENGTH(64)"
    then show "bit (m ! i) k = bit (m' ! i) k"
      using low [of k] low [of 31] bm_wfD [OF assms(2) i, of k] bm_wfD [OF assms(3) i', of k]
      by (cases "k < 32") auto
  qed
qed

section \<open>Slots in the order they are handed out\<close>

text \<open>Slots are numbered in the order in which they are handed out.\<close>

definition slot_no :: "nat \<Rightarrow> nat" where
  "slot_no c = c div 64 * 32 + c mod 32"

definition slot_block :: "nat \<Rightarrow> nat" where
  "slot_block k = k div 32 * 64 + k mod 32"

lemma slot_block_div: "slot_block k div 64 = k div 32"
proof -
  have "k mod 32 div 64 = 0" by (simp add: less_trans [of _ 32])
  then show ?thesis by (simp add: slot_block_def)
qed

lemma slot_no_block [simp]: "slot_no (slot_block k) = k"
proof -
  have "slot_block k mod 32 = k mod 32" by (simp add: slot_block_def word_offset_mod_32)
  then show ?thesis by (simp add: slot_no_def slot_block_div)
qed

lemma slot_no_eq_iff: "slot_no b = slot_no c \<longleftrightarrow> same_slot b c"
proof -
  have "b div 64 = slot_no b div 32" "b mod 32 = slot_no b mod 32" for b
    by (simp_all add: slot_no_def)
  then show ?thesis by (metis same_slot_def slot_no_def)
qed

lemma slot_no_low: "b mod 64 < 32 \<Longrightarrow> slot_no b = b div 64 * 32 + b mod 64"
proof -
  assume "b mod 64 < 32"
  then have "b mod 64 mod 32 = b mod 64" by simp
  moreover have "b mod 64 mod 32 = b mod 32" by (simp add: mod_mod_cancel)
  ultimately show ?thesis by (simp add: slot_no_def)
qed

lemma slot_no_mono: "b \<le> c \<Longrightarrow> b mod 64 < 32 \<Longrightarrow> c mod 64 < 32 \<Longrightarrow> slot_no b \<le> slot_no c"
proof -
  assume le: "b \<le> c" and b: "b mod 64 < 32" and c: "c mod 64 < 32"
  have "b = b div 64 * 64 + b mod 64" "c = c div 64 * 64 + c mod 64" by simp_all
  moreover have "b div 64 \<le> c div 64" using le by (rule div_le_mono)
  ultimately show ?thesis using le b c unfolding slot_no_low [OF b] slot_no_low [OF c]
    by (cases "b div 64 = c div 64") linarith+
qed

text \<open>The arrays in which exactly the first \<open>k\<close> slots are in use.\<close>

definition first_slots :: "nat \<Rightarrow> u64 list \<Rightarrow> bool" where
  "first_slots k m \<longleftrightarrow> (\<forall>c. c div 64 < length m \<longrightarrow> (bm_used m c \<longleftrightarrow> slot_no c < k))"

lemma slot_block_low: "slot_block k mod 64 < 32"
  by (simp add: slot_block_def less_trans [of _ 32])

lemma first_slots_least:
  assumes "first_slots k m" and "k < 32 * unat (tot div 64)" and "k < 32 * length m" and "length m \<le> 2 ^ 20"
  shows "least_free m tot (slot_block k)"
proof -
  have div: "slot_block k div 64 < length m" "slot_block k div 64 < unat (tot div 64)"
    using assms(2,3) by (simp_all add: slot_block_div less_mult_imp_div_less mult.commute)
  moreover have "slot_block k < 2 ^ 26" using div(1) assms(4) by (rule block_bound)
  moreover have "bm_used m c" if "c < slot_block k" for c
  proof -
    have c: "c div 64 < length m" using that div(1) by (meson div_le_mono leD leI le_trans less_imp_le)
    have "slot_no c < k"
    proof (rule ccontr)
      assume "\<not> slot_no c < k"
      then have "k \<le> c div 64 * 32 + c mod 32" by (simp add: slot_no_def)
      moreover have "k = k div 32 * 32 + k mod 32" "c mod 32 < 32" by simp_all
      ultimately have "k div 32 \<le> c div 64 \<and> (k div 32 = c div 64 \<longrightarrow> k mod 32 \<le> c mod 32)"
        by linarith
      moreover have "c mod 32 \<le> c mod 64"
        using mod_less_eq_dividend [of "c mod 64" 32] by (simp add: mod_mod_cancel)
      moreover have "c = c div 64 * 64 + c mod 64" "k mod 32 < 32" by simp_all
      ultimately have "slot_block k \<le> c"
        unfolding slot_block_def by (cases "k div 32 = c div 64") linarith+
      with that show False by simp
    qed
    with assms(1) c show ?thesis by (simp add: first_slots_def)
  qed
  ultimately show ?thesis
    using assms(1) slot_block_low by (simp add: least_free_def first_slots_def)
qed

lemma least_free_unique: "least_free m tot b \<Longrightarrow> least_free m tot c \<Longrightarrow> b = c"
  by (metis least_free_def linorder_neqE_nat)

lemma first_slots_grant:
  assumes "first_slots k m" and "\<And>c. bm_used m' c \<longleftrightarrow> bm_used m c \<or> same_slot (slot_block k) c"
    and "length m' = length m"
  shows "first_slots (Suc k) m'"
proof -
  have "slot_no c = k \<longleftrightarrow> same_slot (slot_block k) c" for c
    using slot_no_eq_iff [of "slot_block k" c] by auto
  with assms show ?thesis by (auto simp: first_slots_def less_Suc_eq)
qed

end
