(* ===== verification/Alloc_Contract.thy ===== *)
theory Alloc_Contract
  imports Prelude
begin

text \<open>
  What the kernel's three block allocators promise their clients, as locales over the operations a
  client calls. \<open>block_allocator\<close> is the promise all three keep: a block is handed out only when it
  is not in use, and is in use from then on. \<open>total_allocator\<close> adds that no call faults, and
  \<open>reclaiming_allocator\<close> that freeing a block undoes its allocation. The clients' lemmas are proved
  here once and read off at the interpretations in the theories of the allocators.

  An allocator says that it has nothing to give by a special pointer or number, which the code of
  one of them confuses with a block; the contract tells the two apart by the state, which a call
  that hands out a block always changes.
\<close>

section \<open>A client that allocates\<close>

text \<open>\<open>n\<close> calls in a row, collecting the blocks handed out.\<close>

primrec alloc_seq :: "('s \<Rightarrow> ('s \<times> 'p) res) \<Rightarrow> nat \<Rightarrow> 's \<Rightarrow> ('s \<times> 'p list) res" where
  "alloc_seq alloc 0 s = Inr (s, [])"
| "alloc_seq alloc (Suc n) s =
     rbind (alloc s) (\<lambda>(s', p).
     rbind (alloc_seq alloc n s') (\<lambda>(s'', ps).
     Inr (s'', if s' = s then ps else p # ps)))"

lemma alloc_seq_SucE:
  assumes "alloc_seq alloc (Suc n) s = Inr (t, qs)"
  obtains s' p ps where "alloc s = Inr (s', p)" and "alloc_seq alloc n s' = Inr (t, ps)"
    and "qs = (if s' = s then ps else p # ps)"
  using assms by (auto split: prod.splits)

lemma alloc_seq_stuck: "alloc s = Inr (s, p) \<Longrightarrow> alloc_seq alloc n s = Inr (s, [])"
  by (induction n) auto

text \<open>Fewer blocks than calls: in the end the allocator has nothing to give.\<close>

lemma alloc_seq_short:
  "alloc_seq alloc n s = Inr (t, ps) \<Longrightarrow> length ps = n \<or> (\<exists>p. alloc t = Inr (t, p))"
proof (induction n arbitrary: s ps)
  case (Suc n)
  from Suc.prems obtain s' q qs where a: "alloc s = Inr (s', q)" "alloc_seq alloc n s' = Inr (t, qs)"
    and ps: "ps = (if s' = s then qs else q # qs)" by (rule alloc_seq_SucE)
  show ?case
  proof (cases "s' = s")
    case True
    with a alloc_seq_stuck [of alloc s q n] show ?thesis by auto
  qed (use Suc.IH [OF a(2)] ps in auto)
qed simp

text \<open>\<open>n\<close> calls in a row, collecting whatever they return.\<close>

primrec alloc_calls :: "('s \<Rightarrow> ('s \<times> 'p) res) \<Rightarrow> nat \<Rightarrow> 's \<Rightarrow> ('s \<times> 'p list) res" where
  "alloc_calls alloc 0 s = Inr (s, [])"
| "alloc_calls alloc (Suc n) s =
     rbind (alloc s) (\<lambda>(s', p). rbind (alloc_calls alloc n s') (\<lambda>(s'', ps). Inr (s'', p # ps)))"

section \<open>The contracts\<close>

locale block_allocator =
  fixes alloc :: "'s \<Rightarrow> ('s \<times> 'p) res"
    and used :: "'s \<Rightarrow> 'p \<Rightarrow> bool"
    and inv :: "'s \<Rightarrow> bool"
  assumes alloc_inv: "inv s \<Longrightarrow> alloc s = Inr (s', p) \<Longrightarrow> inv s'"
    and alloc_fresh: "inv s \<Longrightarrow> alloc s = Inr (s', p) \<Longrightarrow> s' \<noteq> s \<Longrightarrow> \<not> used s p"
    and alloc_used: "inv s \<Longrightarrow> alloc s = Inr (s', p) \<Longrightarrow> s' \<noteq> s \<Longrightarrow> used s' p"
    and alloc_keeps: "inv s \<Longrightarrow> alloc s = Inr (s', p) \<Longrightarrow> used s q \<Longrightarrow> used s' q"
begin

lemma seq_inv: "inv s \<Longrightarrow> alloc_seq alloc n s = Inr (t, ps) \<Longrightarrow> inv t"
  by (induction n arbitrary: s ps) (auto elim!: alloc_seq_SucE simp del: alloc_seq.simps(2)
      intro: alloc_inv)

lemma seq_keeps: "inv s \<Longrightarrow> alloc_seq alloc n s = Inr (t, ps) \<Longrightarrow> used s q \<Longrightarrow> used t q"
  by (induction n arbitrary: s ps) (auto elim!: alloc_seq_SucE simp del: alloc_seq.simps(2)
      intro: alloc_inv alloc_keeps)

lemma seq_fresh: "inv s \<Longrightarrow> alloc_seq alloc n s = Inr (t, ps) \<Longrightarrow> p \<in> set ps \<Longrightarrow> \<not> used s p \<and> used t p"
proof (induction n arbitrary: s ps)
  case (Suc n)
  from Suc.prems(2) obtain s' q qs where a: "alloc s = Inr (s', q)"
    and b: "alloc_seq alloc n s' = Inr (t, qs)" and ps: "ps = (if s' = s then qs else q # qs)"
    by (rule alloc_seq_SucE)
  note inv' = alloc_inv [OF Suc.prems(1) a]
  show ?case
  proof (cases "p \<in> set qs")
    case True
    then show ?thesis using Suc.IH [OF inv' b] alloc_keeps [OF Suc.prems(1) a] by blast
  next
    case False
    with Suc.prems(3) ps have "s' \<noteq> s" "p = q" by (auto split: if_splits)
    then show ?thesis
      using alloc_fresh [OF Suc.prems(1) a] alloc_used [OF Suc.prems(1) a] seq_keeps [OF inv' b] by blast
  qed
qed simp

text \<open>No block is handed out twice.\<close>

lemma seq_distinct: "inv s \<Longrightarrow> alloc_seq alloc n s = Inr (t, ps) \<Longrightarrow> distinct ps"
proof (induction n arbitrary: s ps)
  case (Suc n)
  from Suc.prems(2) obtain s' q qs where a: "alloc s = Inr (s', q)"
    and b: "alloc_seq alloc n s' = Inr (t, qs)" and ps: "ps = (if s' = s then qs else q # qs)"
    by (rule alloc_seq_SucE)
  note inv' = alloc_inv [OF Suc.prems(1) a]
  have "q \<notin> set qs" if "s' \<noteq> s"
    using alloc_used [OF Suc.prems(1) a that] seq_fresh [OF inv' b] by blast
  with Suc.IH [OF inv' b] ps show ?case by simp
qed simp

text \<open>What every single grant guarantees holds of every block of the sequence.\<close>

lemma seq_all:
  assumes step: "\<And>s s' p. inv s \<Longrightarrow> J s \<Longrightarrow> alloc s = Inr (s', p) \<Longrightarrow> J s' \<and> (s' \<noteq> s \<longrightarrow> P p)"
  shows "inv s \<Longrightarrow> J s \<Longrightarrow> alloc_seq alloc n s = Inr (t, ps) \<Longrightarrow> p \<in> set ps \<Longrightarrow> P p"
proof (induction n arbitrary: s ps)
  case (Suc n)
  from Suc.prems(3) obtain s' q qs where a: "alloc s = Inr (s', q)"
    and b: "alloc_seq alloc n s' = Inr (t, qs)" and ps: "ps = (if s' = s then qs else q # qs)"
    by (rule alloc_seq_SucE)
  have "J s' \<and> (s' \<noteq> s \<longrightarrow> P q)" using Suc.prems(1,2) a by (rule step)
  with Suc.IH [OF alloc_inv [OF Suc.prems(1) a] _ b] Suc.prems(4) ps show ?case
    by (auto split: if_splits)
qed simp

end

locale total_allocator = block_allocator +
  assumes alloc_total: "inv s \<Longrightarrow> \<exists>s' p. alloc s = Inr (s', p)"
begin

lemma seq_total: "inv s \<Longrightarrow> \<exists>t ps. alloc_seq alloc n s = Inr (t, ps)"
proof (induction n arbitrary: s)
  case (Suc n)
  from alloc_total [OF Suc.prems] obtain s' p where a: "alloc s = Inr (s', p)" by blast
  from Suc.IH [OF alloc_inv [OF Suc.prems a]] obtain t ps where "alloc_seq alloc n s' = Inr (t, ps)"
    by blast
  with a show ?case by simp
qed simp

end

locale reclaiming_allocator = block_allocator alloc used inv
  for alloc :: "'s \<Rightarrow> ('s \<times> 'p) res" and used :: "'s \<Rightarrow> 'p \<Rightarrow> bool" and inv :: "'s \<Rightarrow> bool" +
  fixes free :: "'p \<Rightarrow> 's \<Rightarrow> 's res"
  assumes free_alloc: "inv s \<Longrightarrow> alloc s = Inr (s', p) \<Longrightarrow> s' \<noteq> s \<Longrightarrow> free p s' = Inr s"
begin

text \<open>Giving the blocks back, the last one first, restores the allocator's state.\<close>

lemma seq_free: "inv s \<Longrightarrow> alloc_seq alloc n s = Inr (t, ps) \<Longrightarrow> rfold free (rev ps) t = Inr s"
proof (induction n arbitrary: s ps)
  case (Suc n)
  from Suc.prems(2) obtain s' q qs where a: "alloc s = Inr (s', q)"
    and b: "alloc_seq alloc n s' = Inr (t, qs)" and ps: "ps = (if s' = s then qs else q # qs)"
    by (rule alloc_seq_SucE)
  from Suc.IH [OF alloc_inv [OF Suc.prems(1) a] b] free_alloc [OF Suc.prems(1) a] ps
  show ?case by (auto simp: rfold_append)
qed simp

end

end
