(* ===== verification/Virt_Alloc.thy ===== *)
theory Virt_Alloc
  imports Bitmap Alloc_Contract
begin

text \<open>
  The allocator of kernel virtual pages, \<open>sys/mm/vmmgr_page_allocator.c\<close>: a second copy of the
  bitmap code, over the pages between \<open>0xFFFFFFFF81400000\<close> and \<open>0xFFFFFFFF82C00000\<close>. Its array
  has 16 words while the address range needs 96, and its first page has the block number 0, whose
  block pointer is NULL; both show in the lemmas.
\<close>

section \<open>State and operations\<close>

record vmmgr_state =
  vmmgr_memory_map :: "u64 list"
  vmmgr_max_blocks :: u64
  vmmgr_used_blocks :: u64
  vmmgr_usable_memory_size :: u64

definition vmmgr_boot :: vmmgr_state where
  "vmmgr_boot =
     \<lparr>vmmgr_memory_map = replicate (40 * 1024 * 1024 div (4096 * 64 * 10)) 0,
      vmmgr_max_blocks = 0, vmmgr_used_blocks = 0, vmmgr_usable_memory_size = 0\<rparr>"

definition vmmgr_get_total_blocks :: "vmmgr_state \<Rightarrow> u64" where
  "vmmgr_get_total_blocks s = vmmgr_max_blocks s"

definition vmmgr_get_used_blocks :: "vmmgr_state \<Rightarrow> u64" where
  "vmmgr_get_used_blocks s = vmmgr_used_blocks s"

definition vmmgr_get_total_usable_memory :: "vmmgr_state \<Rightarrow> u64" where
  "vmmgr_get_total_usable_memory s = vmmgr_usable_memory_size s"

definition vmmgr_get_total_usable_blocks :: "vmmgr_state \<Rightarrow> u64" where
  "vmmgr_get_total_usable_blocks s = vmmgr_get_total_blocks s - vmmgr_get_used_blocks s"

definition vmmgr_set_block :: "int \<Rightarrow> vmmgr_state \<Rightarrow> vmmgr_state res" where
  "vmmgr_set_block n s =
     rbind (bm_set_block (vmmgr_memory_map s) n) (\<lambda>m. Inr (s\<lparr>vmmgr_memory_map := m\<rparr>))"

definition vmmgr_is_block_free :: "int \<Rightarrow> vmmgr_state \<Rightarrow> u32 res" where
  "vmmgr_is_block_free n s = bm_is_block_free (vmmgr_memory_map s) n"

definition vmmgr_unset_block :: "int \<Rightarrow> vmmgr_state \<Rightarrow> vmmgr_state res" where
  "vmmgr_unset_block n s =
     rbind (bm_unset_block (vmmgr_memory_map s) n) (\<lambda>m. Inr (s\<lparr>vmmgr_memory_map := m\<rparr>))"

definition vmmgr_get_first_free :: "vmmgr_state \<Rightarrow> int res" where
  "vmmgr_get_first_free s = bm_get_first_free (vmmgr_memory_map s) (vmmgr_get_total_blocks s)"

definition vmmgr_alloc_block :: "vmmgr_state \<Rightarrow> (vmmgr_state \<times> u64) res" where
  "vmmgr_alloc_block s =
     (if vmmgr_get_total_usable_blocks s \<le> 0 then Inr (s, 0)
      else rbind (vmmgr_get_first_free s) (\<lambda>r.
        let page_frame = u64_of_int r in
        if page_frame = -1 then Inr (s, 0)
        else rbind (vmmgr_set_block (int_of_u64 page_frame) s) (\<lambda>s.
          Inr (s\<lparr>vmmgr_used_blocks := vmmgr_used_blocks s + 1\<rparr>, page_frame * 4096))))"

definition vmmgr_free_block :: "u64 \<Rightarrow> vmmgr_state \<Rightarrow> vmmgr_state res" where
  "vmmgr_free_block p s =
     (let page_frame = int_of_u64 (p div 4096) in
      if p = 0 then Inr s
      else rbind (vmmgr_unset_block page_frame s) (\<lambda>s.
        Inr (s\<lparr>vmmgr_used_blocks := vmmgr_used_blocks s - 1\<rparr>)))"

definition VMMGR_BASE :: u64 where
  "VMMGR_BASE = 0xFFFFFFFF81400000"

definition VMMGR_END :: u64 where
  "VMMGR_END = 0xFFFFFFFF82C00000"

definition vmmgr_page_alloc :: "vmmgr_state \<Rightarrow> (vmmgr_state \<times> u64) res" where
  "vmmgr_page_alloc s = rbind (vmmgr_alloc_block s) (\<lambda>(s, blk). Inr (s, blk + VMMGR_BASE))"

text \<open>The counting loop of the initialisation, from address \<open>i\<close>.\<close>

function count_blocks :: "u64 \<Rightarrow> u64 \<Rightarrow> u64" where
  "count_blocks i n =
     (if i < VMMGR_END then count_blocks (i + 4096) (n + 1) else n)"
  by pat_completeness auto
termination
proof (relation "measure (\<lambda>(i, n). unat VMMGR_END - unat i)")
  fix i n :: u64
  assume i: "i < VMMGR_END"
  have "unat VMMGR_END + 4096 < 2 ^ 64" by (simp add: VMMGR_END_def)
  then have "unat (i + 4096) = unat i + 4096"
    using i by (subst unat_add_lem [THEN iffD1]) (simp_all add: word_less_nat_alt)
  then show "((i + 4096, n + 1), i, n) \<in> measure (\<lambda>(i, n). unat VMMGR_END - unat i)"
    using i by (simp add: word_less_nat_alt)
qed simp

declare count_blocks.simps [simp del]

definition vmmgr_page_allocator_init :: "vmmgr_state \<Rightarrow> vmmgr_state" where
  "vmmgr_page_allocator_init s =
     (let s = s\<lparr>vmmgr_max_blocks := count_blocks VMMGR_BASE (vmmgr_max_blocks s)\<rparr>
      in s\<lparr>vmmgr_usable_memory_size := vmmgr_max_blocks s * 4096 div (1024 * 1024)\<rparr>)"

section \<open>The initial state\<close>

lemma count_blocks_from:
  "d \<le> 6144 \<Longrightarrow> count_blocks (VMMGR_END - 4096 * of_nat d) n = n + of_nat d"
proof (induction d arbitrary: n)
  case 0
  then show ?case by (simp add: count_blocks.simps)
next
  case (Suc d)
  let ?x = "4096 * of_nat (Suc d) :: u64"
  have "?x = of_nat (4096 * Suc d)" by simp
  then have x: "unat ?x = 4096 * Suc d" using Suc.prems by (simp only: unat_of_nat) simp
  then have "?x \<le> VMMGR_END" using Suc.prems by (simp add: word_le_nat_alt VMMGR_END_def)
  then have "unat (VMMGR_END - ?x) = unat VMMGR_END - unat ?x" by (rule unat_sub)
  also have "\<dots> < unat VMMGR_END" using x by (simp add: VMMGR_END_def)
  finally have "VMMGR_END - ?x < VMMGR_END" by (simp only: word_less_nat_alt)
  moreover have "VMMGR_END - ?x + 4096 = VMMGR_END - 4096 * of_nat d" by (simp add: algebra_simps)
  ultimately show ?case using Suc by (subst count_blocks.simps) (simp add: algebra_simps)
qed

lemma count_blocks_init: "count_blocks VMMGR_BASE n = n + 6144"
proof -
  have "VMMGR_BASE = VMMGR_END - 4096 * of_nat 6144" by (simp add: VMMGR_BASE_def VMMGR_END_def)
  then show ?thesis using count_blocks_from [of 6144 n] by simp
qed

section \<open>Handing out a page\<close>

definition vmmgr_inv :: "vmmgr_state \<Rightarrow> bool" where
  "vmmgr_inv s \<longleftrightarrow> length (vmmgr_memory_map s) = 16"

definition vmmgr_used :: "vmmgr_state \<Rightarrow> u64 \<Rightarrow> bool" where
  "vmmgr_used s p \<longleftrightarrow> bm_used (vmmgr_memory_map s) (unat (p - VMMGR_BASE) div 4096)"

definition vmmgr_grant :: "nat \<Rightarrow> vmmgr_state \<Rightarrow> vmmgr_state" where
  "vmmgr_grant b s =
     s\<lparr>vmmgr_memory_map :=
         (vmmgr_memory_map s)[b div 64 := vmmgr_memory_map s ! (b div 64) OR shl1_u64 (int b)],
       vmmgr_used_blocks := vmmgr_used_blocks s + 1\<rparr>"

lemma vmmgr_grant_simps [simp]:
  "length (vmmgr_memory_map (vmmgr_grant b s)) = length (vmmgr_memory_map s)"
  "vmmgr_max_blocks (vmmgr_grant b s) = vmmgr_max_blocks s"
  "vmmgr_used_blocks (vmmgr_grant b s) = vmmgr_used_blocks s + 1"
  by (simp_all add: vmmgr_grant_def)

lemma vmmgr_grant_neq: "vmmgr_grant b s \<noteq> s"
proof
  assume "vmmgr_grant b s = s"
  then have "vmmgr_used_blocks (vmmgr_grant b s) = vmmgr_used_blocks s" by simp
  then show False by simp
qed

lemma vmmgr_grant_used:
  "b div 64 < length (vmmgr_memory_map s) \<Longrightarrow>
     bm_used (vmmgr_memory_map (vmmgr_grant b s)) c \<longleftrightarrow> bm_used (vmmgr_memory_map s) c \<or> same_slot b c"
  by (simp add: vmmgr_grant_def bm_used_set)

lemma vmmgr_set_block_Inr:
  "vmmgr_set_block (int b) s = Inr s' \<longleftrightarrow>
     b div 64 < length (vmmgr_memory_map s) \<and>
     s' = s\<lparr>vmmgr_memory_map :=
              (vmmgr_memory_map s)[b div 64 := vmmgr_memory_map s ! (b div 64) OR shl1_u64 (int b)]\<rparr>"
  by (auto simp: vmmgr_set_block_def rbind_eq_Inr_iff bm_set_block_Inr)

text \<open>The outcome of an allocation, read off the outcome of the search.\<close>

lemma vmmgr_alloc_full: "vmmgr_get_total_usable_blocks s = 0 \<Longrightarrow> vmmgr_alloc_block s = Inr (s, 0)"
  by (simp add: vmmgr_alloc_block_def)

lemma vmmgr_alloc_search:
  assumes "vmmgr_get_total_usable_blocks s \<noteq> 0" and len: "length (vmmgr_memory_map s) \<le> 2 ^ 20"
    and "bm_get_first_free (vmmgr_memory_map s) (vmmgr_max_blocks s) = Inr r"
  shows "r = -1 \<and> vmmgr_alloc_block s = Inr (s, 0) \<or>
         (\<exists>b. vmmgr_alloc_block s = Inr (vmmgr_grant b s, of_nat b * 4096) \<and>
              least_free (vmmgr_memory_map s) (vmmgr_max_blocks s) b)"
  using assms(3) len
proof (cases rule: first_free_blockE)
  case full
  with assms show ?thesis
    by (simp add: vmmgr_alloc_block_def vmmgr_get_first_free_def vmmgr_get_total_blocks_def)
next
  case (block b)
  then have "vmmgr_set_block (int b) s = Inr (s\<lparr>vmmgr_memory_map :=
        (vmmgr_memory_map s)[b div 64 := vmmgr_memory_map s ! (b div 64) OR shl1_u64 (int b)]\<rparr>)"
    by (simp only: vmmgr_set_block_Inr least_freeD simp_thms)
  with block assms show ?thesis
    by (auto simp: vmmgr_alloc_block_def vmmgr_get_first_free_def vmmgr_get_total_blocks_def
        vmmgr_grant_def)
qed

lemma vmmgr_page_allocE:
  assumes "vmmgr_page_alloc s = Inr (s', p)" and "vmmgr_inv s"
  obtains (none) "s' = s" and "p = VMMGR_BASE"
    | (some) b where "s' = vmmgr_grant b s" and "p = of_nat b * 4096 + VMMGR_BASE"
      and "least_free (vmmgr_memory_map s) (vmmgr_max_blocks s) b"
proof (cases "vmmgr_get_total_usable_blocks s = 0")
  case True
  with assms(1) show ?thesis by (intro none) (auto simp: vmmgr_page_alloc_def vmmgr_alloc_full)
next
  case False
  from assms(1) obtain q where q: "vmmgr_alloc_block s = Inr (s', q)" "p = q + VMMGR_BASE"
    by (auto simp: vmmgr_page_alloc_def)
  with False obtain r where "bm_get_first_free (vmmgr_memory_map s) (vmmgr_max_blocks s) = Inr r"
    by (auto simp: vmmgr_alloc_block_def vmmgr_get_first_free_def vmmgr_get_total_blocks_def)
  from vmmgr_alloc_search [OF False _ this] assms(2) q show ?thesis
    by (auto simp: vmmgr_inv_def intro: none some)
qed

lemma vmmgr_used_addr:
  "b < 2 ^ 26 \<Longrightarrow> vmmgr_used s (of_nat b * 4096 + VMMGR_BASE) \<longleftrightarrow> bm_used (vmmgr_memory_map s) b"
  by (simp add: vmmgr_used_def unat_block_addr)

interpretation vm: block_allocator vmmgr_page_alloc vmmgr_used vmmgr_inv
proof
  fix s s' p q
  assume inv: "vmmgr_inv s" and a: "vmmgr_page_alloc s = Inr (s', p)"
  note alloc_cases = vmmgr_page_allocE [OF a inv]
  show "vmmgr_inv s'" by (rule alloc_cases) (use inv in \<open>auto simp: vmmgr_inv_def\<close>)
  show "vmmgr_used s' q" if "vmmgr_used s q"
    by (rule alloc_cases) (use that in \<open>auto simp: vmmgr_used_def vmmgr_grant_used least_free_def\<close>)
  show "\<not> vmmgr_used s p" if "s' \<noteq> s"
    by (rule alloc_cases) (use that in \<open>auto simp: vmmgr_used_addr least_free_def\<close>)
  show "vmmgr_used s' p" if "s' \<noteq> s"
    by (rule alloc_cases)
       (use that in \<open>auto simp: vmmgr_used_addr vmmgr_grant_used least_free_def\<close>)
qed

section \<open>How many pages there are\<close>

text \<open>The state in which the first \<open>k\<close> slots are in use.\<close>

definition first_slots_used :: "nat \<Rightarrow> vmmgr_state \<Rightarrow> bool" where
  "first_slots_used k s \<longleftrightarrow>
     length (vmmgr_memory_map s) = 16 \<and> vmmgr_max_blocks s = 6144 \<and>
     vmmgr_used_blocks s = of_nat k \<and> first_slots k (vmmgr_memory_map s)"

lemma vmmgr_init_slots: "first_slots_used 0 (vmmgr_page_allocator_init vmmgr_boot)"
  by (simp add: first_slots_used_def vmmgr_page_allocator_init_def vmmgr_boot_def count_blocks_init
      first_slots_def bm_used_def)

lemma usable_left: "k \<le> 512 \<Longrightarrow> first_slots_used k s \<Longrightarrow> vmmgr_get_total_usable_blocks s \<noteq> 0"
proof
  assume k: "k \<le> 512" and s: "first_slots_used k s" and "vmmgr_get_total_usable_blocks s = 0"
  then have "(of_nat k :: u64) = 6144"
    by (simp add: first_slots_used_def vmmgr_get_total_usable_blocks_def vmmgr_get_total_blocks_def
        vmmgr_get_used_blocks_def)
  then have "unat (of_nat k :: u64) = 6144" by simp
  moreover have "unat (of_nat k :: u64) = k" using k by (intro unat_block) simp
  ultimately show False using k by simp
qed

lemma page_alloc_next:
  assumes "first_slots_used k s" and "k < 512"
  shows "\<exists>s'. vmmgr_page_alloc s = Inr (s', of_nat (slot_block k) * 4096 + VMMGR_BASE) \<and> s' \<noteq> s \<and>
           first_slots_used (Suc k) s'"
proof -
  let ?m = "vmmgr_memory_map s"
  have s: "length ?m = 16" "vmmgr_max_blocks s = 6144" and used: "first_slots k ?m"
    using assms(1) by (auto simp: first_slots_used_def)
  have least: "least_free ?m (vmmgr_max_blocks s) (slot_block k)"
    using first_slots_least [OF used] s assms(2) by simp
  then obtain r where r: "bm_get_first_free ?m (vmmgr_max_blocks s) = Inr r" "r \<noteq> -1"
    using bm_scan_finds [of 0 "slot_block k" "unat (vmmgr_max_blocks s div 64)" ?m]
    by (auto simp: bm_get_first_free_def least_free_def)
  then obtain b where a: "vmmgr_alloc_block s = Inr (vmmgr_grant b s, of_nat b * 4096)"
    and b: "least_free ?m (vmmgr_max_blocks s) b"
    using vmmgr_alloc_search [OF usable_left [OF _ assms(1)] _ r(1)] assms(2) s by auto
  have eq: "b = slot_block k" using least_free_unique [OF b least] .
  have "first_slots (Suc k) (vmmgr_memory_map (vmmgr_grant b s))"
    using first_slots_grant [OF used] vmmgr_grant_used [OF least_freeD(1) [OF b]] eq by simp
  then have "first_slots_used (Suc k) (vmmgr_grant b s)"
    using assms(1) by (simp add: first_slots_used_def add.commute)
  with a eq vmmgr_grant_neq show ?thesis by (auto simp: vmmgr_page_alloc_def)
qed

lemma page_alloc_seq:
  "first_slots_used k s \<Longrightarrow> k + n \<le> 512 \<Longrightarrow>
     \<exists>t ps. ps = map (\<lambda>k. of_nat (slot_block k) * 4096 + VMMGR_BASE) [k..<k + n] \<and>
         alloc_calls vmmgr_page_alloc n s = Inr (t, ps) \<and> alloc_seq vmmgr_page_alloc n s = Inr (t, ps) \<and>
         first_slots_used (k + n) t"
proof (induction n arbitrary: k s)
  case (Suc n)
  from page_alloc_next [OF Suc.prems(1)] Suc.prems(2) obtain s' where
    a: "vmmgr_page_alloc s = Inr (s', of_nat (slot_block k) * 4096 + VMMGR_BASE)" "s' \<noteq> s"
    "first_slots_used (Suc k) s'" by auto
  have "[k..<k + Suc n] = k # [Suc k..<Suc k + n]" by (simp add: upt_conv_Cons)
  with Suc.IH [OF a(3)] a Suc.prems(2) show ?case by (auto simp del: upt_Suc)
qed simp

lemma page_alloc_overrun:
  assumes "first_slots_used 512 t"
  shows "vmmgr_page_alloc t = Inl OutOfBounds"
proof -
  have "slot_no c < 512" if "c div 64 < 16" for c
  proof -
    have "c mod 32 < 32" by simp
    with that show ?thesis unfolding slot_no_def by linarith
  qed
  then have "bm_scan (vmmgr_memory_map t) 0 96 = Inl OutOfBounds"
    using assms by (intro bm_scan_overrun) (auto simp: first_slots_used_def first_slots_def)
  then show ?thesis
    using assms usable_left [OF _ assms]
    by (simp add: vmmgr_page_alloc_def vmmgr_alloc_block_def vmmgr_get_first_free_def
        bm_get_first_free_def vmmgr_get_total_blocks_def first_slots_used_def)
qed

section \<open>Properties\<close>

text \<open>
  C18. From the initial state each of the first 512 calls of \<open>vmmgr_page_alloc\<close> returns the address of a page of its own, the page
  of slot \<open>k\<close> in call \<open>k\<close>: the addresses returned are pairwise distinct, and each page was free before and is in use
  afterwards. The call after that, with 5632 of the 6144 pages of the range still to give, reads past the end of
  \<open>vmmgr_memory_map\<close>: the array has 16 words where the range needs 96.
\<close>

theorem vmmgr_page_alloc_pages:
  assumes "n \<le> 512"
  shows "\<exists>t ps. alloc_calls vmmgr_page_alloc n (vmmgr_page_allocator_init vmmgr_boot) = Inr (t, ps) \<and>
    ps = map (\<lambda>k. of_nat (slot_block k) * 4096 + VMMGR_BASE) [0..<n] \<and> distinct ps \<and>
    (\<forall>p\<in>set ps. \<not> vmmgr_used (vmmgr_page_allocator_init vmmgr_boot) p \<and> vmmgr_used t p) \<and>
    vmmgr_max_blocks t = 6144 \<and> (n = 512 \<longrightarrow> vmmgr_page_alloc t = Inl OutOfBounds)"
proof -
  let ?s = "vmmgr_page_allocator_init vmmgr_boot" and ?ps = "map (\<lambda>k. of_nat (slot_block k) * 4096 + VMMGR_BASE) [0..<n]"
  have inv: "vmmgr_inv ?s" using vmmgr_init_slots by (simp add: vmmgr_inv_def first_slots_used_def)
  obtain t where t: "alloc_calls vmmgr_page_alloc n ?s = Inr (t, ?ps)" "alloc_seq vmmgr_page_alloc n ?s = Inr (t, ?ps)"
    and slots: "first_slots_used n t"
    using page_alloc_seq [OF vmmgr_init_slots, of n] assms by auto
  have "vmmgr_max_blocks t = 6144" using slots by (simp add: first_slots_used_def)
  then show ?thesis
    using t(1) vm.seq_distinct [OF inv t(2)] vm.seq_fresh [OF inv t(2)] page_alloc_overrun slots by blast
qed

theorem vmmgr_page_alloc_pages_witness:
  "\<exists>t. alloc_calls vmmgr_page_alloc 3 (vmmgr_page_allocator_init vmmgr_boot) =
         Inr (t, [VMMGR_BASE, VMMGR_BASE + 0x1000, VMMGR_BASE + 0x2000]) \<and>
       distinct [VMMGR_BASE, VMMGR_BASE + 0x1000, VMMGR_BASE + 0x2000] \<and> vmmgr_used t VMMGR_BASE"
proof -
  have "map (\<lambda>k. of_nat (slot_block k) * 4096 + VMMGR_BASE) [0..<3] =
      [VMMGR_BASE, VMMGR_BASE + 0x1000, VMMGR_BASE + 0x2000]"
    by (simp add: slot_block_def upt_rec VMMGR_BASE_def)
  then show ?thesis using vmmgr_page_alloc_pages [of 3] by auto
qed

text \<open>
  When the counters say that no page is left, \<open>vmmgr_page_alloc\<close> does not report it: it returns
  the address of page 0, the very address its first call hands out, because the offset is added to
  the NULL that \<open>vmmgr_alloc_block\<close> returns.
\<close>

theorem vmmgr_page_alloc_failure_hidden:
  assumes "vmmgr_get_total_usable_blocks s = 0"
  shows "vmmgr_page_alloc s = Inr (s, VMMGR_BASE) \<and>
    (\<exists>t. vmmgr_page_alloc (vmmgr_page_allocator_init vmmgr_boot) = Inr (t, VMMGR_BASE) \<and>
         vmmgr_used t VMMGR_BASE)"
proof -
  obtain t where "vmmgr_page_alloc (vmmgr_page_allocator_init vmmgr_boot) = Inr (t, VMMGR_BASE)"
    and "first_slots_used 1 t"
    using page_alloc_next [OF vmmgr_init_slots] by (auto simp: slot_block_def)
  then show ?thesis using assms
    by (auto simp: vmmgr_page_alloc_def vmmgr_alloc_full vmmgr_used_def first_slots_used_def first_slots_def
        slot_no_def)
qed

theorem vmmgr_page_alloc_failure_hidden_witness:
  "vmmgr_page_alloc vmmgr_boot = Inr (vmmgr_boot, VMMGR_BASE)"
  using vmmgr_page_alloc_failure_hidden [of vmmgr_boot]
  by (simp add: vmmgr_get_total_usable_blocks_def vmmgr_get_total_blocks_def vmmgr_get_used_blocks_def
      vmmgr_boot_def)

end
