(* ===== verification/List_Head.thy ===== *)
theory List_Head
  imports Prelude
begin

text \<open>
  The circular doubly linked lists of \<open>include/sys/list.h\<close>. Memory is a function from addresses to
  list heads; an operation faults when it dereferences NULL. A list is its head and the sequence
  of its entries, and each operation is shown to do on the links what it promises on the sequence.
\<close>

section \<open>Operations\<close>

record list_head =
  lnext :: u64
  lprev :: u64

type_synonym list_mem = "u64 \<Rightarrow> list_head"

definition LIST_POISON1 :: u64 where
  "LIST_POISON1 = 0x00100100"

definition LIST_POISON2 :: u64 where
  "LIST_POISON2 = 0x00200200"

text \<open>The accesses \<open>p->next\<close>, \<open>p->prev\<close>, \<open>p->next = v\<close> and \<open>p->prev = v\<close>.\<close>

definition get_next :: "u64 \<Rightarrow> list_mem \<Rightarrow> u64 res" where
  "get_next p h = (if p = 0 then Inl NullPointer else Inr (lnext (h p)))"

definition get_prev :: "u64 \<Rightarrow> list_mem \<Rightarrow> u64 res" where
  "get_prev p h = (if p = 0 then Inl NullPointer else Inr (lprev (h p)))"

definition set_next :: "u64 \<Rightarrow> u64 \<Rightarrow> list_mem \<Rightarrow> list_mem res" where
  "set_next p v h = (if p = 0 then Inl NullPointer else Inr (h(p := h p\<lparr>lnext := v\<rparr>)))"

definition set_prev :: "u64 \<Rightarrow> u64 \<Rightarrow> list_mem \<Rightarrow> list_mem res" where
  "set_prev p v h = (if p = 0 then Inl NullPointer else Inr (h(p := h p\<lparr>lprev := v\<rparr>)))"

definition INIT_LIST_HEAD :: "u64 \<Rightarrow> list_mem \<Rightarrow> list_mem res" where
  "INIT_LIST_HEAD p h = rbind (set_next p p h) (set_prev p p)"

definition list_empty :: "u64 \<Rightarrow> list_mem \<Rightarrow> bool res" where
  "list_empty head h = rbind (get_next head h) (\<lambda>n. Inr (n = head))"

text \<open>The source's \<open>__list_add\<close>, \<open>__list_del\<close> and \<open>__list_splice\<close>, which take both neighbours.\<close>

definition list_add_between :: "u64 \<Rightarrow> u64 \<Rightarrow> u64 \<Rightarrow> list_mem \<Rightarrow> list_mem res" where
  "list_add_between new prev next h =
     rbind (set_prev next new h) (\<lambda>h.
     rbind (set_next new next h) (\<lambda>h.
     rbind (set_prev new prev h) (\<lambda>h.
     set_next prev new h)))"

definition list_add :: "u64 \<Rightarrow> u64 \<Rightarrow> list_mem \<Rightarrow> list_mem res" where
  "list_add new head h = rbind (get_next head h) (\<lambda>n. list_add_between new head n h)"

definition list_add_tail :: "u64 \<Rightarrow> u64 \<Rightarrow> list_mem \<Rightarrow> list_mem res" where
  "list_add_tail new head h = rbind (get_prev head h) (\<lambda>p. list_add_between new p head h)"

definition list_del_between :: "u64 \<Rightarrow> u64 \<Rightarrow> list_mem \<Rightarrow> list_mem res" where
  "list_del_between prev next h = rbind (set_prev next prev h) (set_next prev next)"

definition list_unlink :: "u64 \<Rightarrow> list_mem \<Rightarrow> list_mem res" where
  "list_unlink entry h =
     rbind (get_prev entry h) (\<lambda>p. rbind (get_next entry h) (\<lambda>n. list_del_between p n h))"

definition list_del :: "u64 \<Rightarrow> list_mem \<Rightarrow> list_mem res" where
  "list_del entry h =
     rbind (list_unlink entry h) (\<lambda>h.
     rbind (set_next entry LIST_POISON1 h) (set_prev entry LIST_POISON2))"

definition list_del_init :: "u64 \<Rightarrow> list_mem \<Rightarrow> list_mem res" where
  "list_del_init entry h = rbind (list_unlink entry h) (INIT_LIST_HEAD entry)"

definition list_move :: "u64 \<Rightarrow> u64 \<Rightarrow> list_mem \<Rightarrow> list_mem res" where
  "list_move entry head h = rbind (list_unlink entry h) (list_add entry head)"

definition list_move_tail :: "u64 \<Rightarrow> u64 \<Rightarrow> list_mem \<Rightarrow> list_mem res" where
  "list_move_tail entry head h = rbind (list_unlink entry h) (list_add_tail entry head)"

definition list_empty_careful :: "u64 \<Rightarrow> list_mem \<Rightarrow> bool res" where
  "list_empty_careful head h =
     rbind (get_next head h) (\<lambda>n. if n = head then rbind (get_prev head h) (\<lambda>p. Inr (n = p)) else Inr False)"

definition list_splice_at :: "u64 \<Rightarrow> u64 \<Rightarrow> list_mem \<Rightarrow> list_mem res" where
  "list_splice_at xs head h =
     rbind (get_next xs h) (\<lambda>first.
     rbind (get_prev xs h) (\<lambda>last.
     rbind (get_next head h) (\<lambda>at.
     rbind (set_prev first head h) (\<lambda>h.
     rbind (set_next head first h) (\<lambda>h.
     rbind (set_next last at h) (\<lambda>h.
     set_prev at last h))))))"

definition list_splice :: "u64 \<Rightarrow> u64 \<Rightarrow> list_mem \<Rightarrow> list_mem res" where
  "list_splice xs head h =
     rbind (list_empty xs h) (\<lambda>e. if \<not> e then list_splice_at xs head h else Inr h)"

definition list_splice_init :: "u64 \<Rightarrow> u64 \<Rightarrow> list_mem \<Rightarrow> list_mem res" where
  "list_splice_init xs head h =
     rbind (list_empty xs h) (\<lambda>e.
       if \<not> e then rbind (list_splice_at xs head h) (INIT_LIST_HEAD xs) else Inr h)"

text \<open>
  The addresses the iteration \<open>__list_for_each\<close> visits; \<open>fuel\<close> bounds the steps, \<open>None\<close> means that
  it did not reach the head again within them.
\<close>

primrec list_for_each :: "nat \<Rightarrow> u64 \<Rightarrow> u64 \<Rightarrow> list_mem \<Rightarrow> u64 list option" where
  "list_for_each 0 pos head h = None"
| "list_for_each (Suc fuel) pos head h =
     (if pos = head then Some []
      else map_option ((#) pos) (list_for_each fuel (lnext (h pos)) head h))"

section \<open>Lists in memory\<close>

text \<open>
  Every two neighbours of \<open>cs\<close> point at each other. A list with head \<open>head\<close> and entries \<open>xs\<close> is the
  chain \<open>head # xs @ [head]\<close>.
\<close>

fun chain :: "list_mem \<Rightarrow> u64 list \<Rightarrow> bool" where
  "chain h (a # b # cs) \<longleftrightarrow> lnext (h a) = b \<and> lprev (h b) = a \<and> chain h (b # cs)"
| "chain h _ \<longleftrightarrow> True"

definition is_list :: "list_mem \<Rightarrow> u64 \<Rightarrow> u64 list \<Rightarrow> bool" where
  "is_list h head xs \<longleftrightarrow> 0 \<notin> set (head # xs) \<and> distinct (head # xs) \<and> chain h (head # xs @ [head])"

lemma chain_append: "chain h (us @ a # vs) \<longleftrightarrow> chain h (us @ [a]) \<and> chain h (a # vs)"
  by (induction us rule: induct_list012) (auto simp: Cons_eq_append_conv)

lemma chain_mid: "chain h (us @ p # q # vs) \<longleftrightarrow>
    chain h (us @ [p]) \<and> lnext (h p) = q \<and> lprev (h q) = p \<and> chain h (q # vs)"
  using chain_append [of h us p "q # vs"] by simp

text \<open>A chain depends on the forward links of all but its last and the backward links of all but its first node.\<close>

lemma chain_cong:
  assumes "\<And>x. x \<in> set (butlast cs) \<Longrightarrow> lnext (h' x) = lnext (h x)"
    and "\<And>x. x \<in> set (tl cs) \<Longrightarrow> lprev (h' x) = lprev (h x)"
  shows "chain h' cs = chain h cs"
  using assms by (induction cs rule: induct_list012) auto

lemma chain_ends:
  assumes "distinct (butlast (us @ p # q # vs))" and "distinct (tl (us @ p # q # vs))"
  shows "p \<notin> set us" "p \<notin> set (butlast (q # vs))" "q \<notin> set (tl (us @ [p]))" "q \<notin> set vs"
proof -
  have "butlast (us @ p # q # vs) = us @ p # butlast (q # vs)" by (simp add: butlast_append)
  with assms(1) show "p \<notin> set us" "p \<notin> set (butlast (q # vs))" by auto
  have "tl (us @ p # q # vs) = tl (us @ [p]) @ q # vs" by (cases us) auto
  with assms(2) show "q \<notin> set (tl (us @ [p]))" "q \<notin> set vs" by auto
qed

text \<open>Putting a new chain from \<open>p\<close> to \<open>q\<close> between two old ones.\<close>

lemma chain_replace:
  assumes old: "chain h (us @ [p])" "chain h (q # vs)" and "chain h' (p # ns @ [q])"
    and "distinct (butlast (us @ p # q # vs))" and "distinct (tl (us @ p # q # vs))"
    and "\<And>x. x \<in> set (us @ vs @ [p, q]) \<Longrightarrow> x \<noteq> p \<Longrightarrow> lnext (h' x) = lnext (h x)"
    and "\<And>x. x \<in> set (us @ vs @ [p, q]) \<Longrightarrow> x \<noteq> q \<Longrightarrow> lprev (h' x) = lprev (h x)"
  shows "chain h' (us @ p # ns @ q # vs)"
proof -
  note ends = chain_ends [OF assms(4,5)]
  have "chain h' (us @ [p]) = chain h (us @ [p])"
  proof (rule chain_cong)
    show "lnext (h' x) = lnext (h x)" if "x \<in> set (butlast (us @ [p]))" for x
      using that ends(1) by (intro assms(6)) auto
    show "lprev (h' x) = lprev (h x)" if "x \<in> set (tl (us @ [p]))" for x
      using that ends(3) by (intro assms(7)) (cases us; auto)+
  qed
  moreover have "chain h' (q # vs) = chain h (q # vs)"
  proof (rule chain_cong)
    show "lnext (h' x) = lnext (h x)" if "x \<in> set (butlast (q # vs))" for x
      using that ends(2) by (intro assms(6)) (auto split: if_splits dest: in_set_butlastD)
    show "lprev (h' x) = lprev (h x)" if "x \<in> set (tl (q # vs))" for x
      using that ends(4) by (intro assms(7)) auto
  qed
  moreover have "chain h' (us @ p # ns @ q # vs) \<longleftrightarrow> chain h' (us @ [p]) \<and> chain h' (p # ns @ q # vs)"
    by (rule chain_append)
  moreover have "chain h' ((p # ns) @ q # vs) \<longleftrightarrow> chain h' ((p # ns) @ [q]) \<and> chain h' (q # vs)"
    by (rule chain_append)
  ultimately show ?thesis using old assms(3) by (simp only: append_Cons)
qed

section \<open>What the operations do\<close>

lemmas list_access = get_next_def get_prev_def set_next_def set_prev_def

lemma INIT_LIST_HEAD_empty:
  "p \<noteq> 0 \<Longrightarrow> \<exists>h'. INIT_LIST_HEAD p h = Inr h' \<and> is_list h' p [] \<and> (\<forall>q. q \<noteq> p \<longrightarrow> h' q = h q)"
  by (simp add: INIT_LIST_HEAD_def list_access is_list_def)

lemma list_empty_correct: "is_list h head xs \<Longrightarrow> list_empty head h = Inr (xs = [])"
  by (cases xs) (auto simp: list_empty_def list_access is_list_def)

text \<open>A list lives in its own nodes.\<close>

lemma is_list_frame:
  assumes "\<And>x. x \<in> set (head # xs) \<Longrightarrow> h' x = h x"
  shows "is_list h' head xs = is_list h head xs"
proof -
  have "chain h' (head # xs @ [head]) = chain h (head # xs @ [head])"
    using assms by (intro chain_cong) (auto dest: in_set_butlastD)
  then show ?thesis by (simp add: is_list_def)
qed

definition only_changes :: "u64 set \<Rightarrow> list_mem \<Rightarrow> list_mem \<Rightarrow> bool" where
  "only_changes A h h' \<longleftrightarrow> (\<forall>x. x \<notin> A \<longrightarrow> h' x = h x)"

lemma list_add_between_chain:
  assumes ch: "chain h (us @ p # q # vs)" and d: "distinct (butlast (us @ p # q # vs))" "distinct (tl (us @ p # q # vs))"
    and nz: "0 \<notin> set (us @ p # q # vs)" "new \<notin> set (0 # us @ p # q # vs)"
  shows "\<exists>h'. list_add_between new p q h = Inr h' \<and> chain h' (us @ p # new # q # vs) \<and>
    only_changes {p, new, q} h h'"
proof -
  define h1 where "h1 = h(q := h q\<lparr>lprev := new\<rparr>)"
  define h2 where "h2 = h1(new := h1 new\<lparr>lnext := q, lprev := p\<rparr>)"
  define h' where "h' = h2(p := h2 p\<lparr>lnext := new\<rparr>)"
  have ne: "p \<noteq> 0" "q \<noteq> 0" "new \<noteq> p" "new \<noteq> q" "new \<noteq> 0" using nz by auto
  have run: "list_add_between new p q h = Inr h'"
    using ne by (simp add: list_add_between_def list_access h'_def h2_def h1_def)
  have nx: "lnext (h' x) = lnext (h x)" if "x \<noteq> new" "x \<noteq> p" for x
    using that by (simp add: h'_def h2_def h1_def)
  have pv: "lprev (h' x) = lprev (h x)" if "x \<noteq> new" "x \<noteq> q" for x
    using that ne by (simp add: h'_def h2_def h1_def)
  have c: "chain h' (p # [new] @ [q])" using ne by (auto simp: h'_def h2_def h1_def)
  have parts: "chain h (us @ [p])" "chain h (q # vs)" using ch by (simp_all add: chain_mid)
  have "chain h' (us @ p # [new] @ q # vs)"
    using nz(2) by (intro chain_replace [OF parts c d] nx pv) auto
  moreover have "only_changes {p, new, q} h h'" by (simp add: only_changes_def h'_def h2_def h1_def)
  ultimately show ?thesis using run by auto
qed

lemma list_unlink_chain:
  assumes ch: "chain h (us @ p # e # q # vs)"
    and d: "distinct (butlast (us @ p # e # q # vs))" "distinct (tl (us @ p # e # q # vs))"
    and nz: "0 \<notin> set (us @ p # e # q # vs)"
  shows "\<exists>h'. list_unlink e h = Inr h' \<and> chain h' (us @ p # q # vs) \<and> only_changes {p, q} h h'"
proof -
  define h1 where "h1 = h(q := h q\<lparr>lprev := p\<rparr>)"
  define h' where "h' = h1(p := h1 p\<lparr>lnext := q\<rparr>)"
  have ne: "p \<noteq> 0" "q \<noteq> 0" "e \<noteq> 0" using nz by auto
  have parts: "chain h (us @ [p])" "lprev (h e) = p" "lnext (h e) = q" "chain h (q # vs)"
    using ch chain_mid [of h us p e "q # vs"] by auto
  have run: "list_unlink e h = Inr h'"
    using ne parts by (simp add: list_unlink_def list_del_between_def list_access h'_def h1_def)
  have c: "chain h' (p # [] @ [q])" by (auto simp: h'_def h1_def)
  have "butlast (us @ p # e # q # vs) = us @ p # e # butlast (q # vs)"
    "butlast (us @ p # q # vs) = us @ p # butlast (q # vs)" by (simp_all add: butlast_append)
  then have d1: "distinct (butlast (us @ p # q # vs))" using d(1) by simp
  have "tl (us @ p # e # q # vs) = tl (us @ [p]) @ e # q # vs" "tl (us @ p # q # vs) = tl (us @ [p]) @ q # vs"
    by (cases us; simp)+
  then have d2: "distinct (tl (us @ p # q # vs))" using d(2) by simp
  have "chain h' (us @ p # [] @ q # vs)"
    by (rule chain_replace [OF parts(1,4) c d1 d2]) (simp_all add: h'_def h1_def)
  moreover have "only_changes {p, q} h h'" by (simp add: only_changes_def h'_def h1_def)
  ultimately show ?thesis using run by auto
qed

text \<open>Each operation on a list, by what it does to the sequence of entries.\<close>

lemma list_insert_at:
  assumes l: "is_list h head (xs @ ys)" and p: "head # xs = us @ [p]" and q: "ys @ [head] = q # vs"
    and new: "new \<notin> set (0 # head # xs @ ys)"
  shows "\<exists>h'. list_add_between new p q h = Inr h' \<and> is_list h' head (xs @ new # ys) \<and>
    only_changes (set (new # head # xs @ ys)) h h'"
proof -
  have cs: "us @ p # q # vs = head # xs @ ys @ [head]" using p q by (metis append.assoc append_Cons append_Nil)
  have cs': "us @ p # new # q # vs = head # (xs @ new # ys) @ [head]"
    using p q by (metis append.assoc append_Cons append_Nil)
  have d: "0 \<notin> set (head # xs @ ys)" "distinct (head # xs @ ys)" and ch: "chain h (us @ p # q # vs)"
    using l by (auto simp: is_list_def cs)
  have "\<exists>h'. list_add_between new p q h = Inr h' \<and> chain h' (us @ p # new # q # vs) \<and> only_changes {p, new, q} h h'"
    by (rule list_add_between_chain [OF ch]) (use d new in \<open>auto simp: cs butlast_append\<close>)
  moreover have "{p, new, q} \<subseteq> set (new # head # xs @ ys)"
  proof -
    have "p \<in> set (us @ [p])" "q \<in> set (q # vs)" by simp_all
    then show ?thesis by (auto simp flip: p q)
  qed
  ultimately show ?thesis using d new unfolding cs' only_changes_def is_list_def by fastforce
qed

lemma list_add_refines:
  assumes l: "is_list h head xs" and new: "new \<notin> set (0 # head # xs)"
  shows "\<exists>h'. list_add new head h = Inr h' \<and> is_list h' head (new # xs) \<and>
    only_changes (set (new # head # xs)) h h'"
proof -
  obtain q vs where q: "xs @ [head] = q # vs" by (cases xs) auto
  then have "list_add new head h = list_add_between new head q h"
    using l by (cases xs) (auto simp: list_add_def list_access is_list_def)
  then show ?thesis using list_insert_at [of h head "[]" xs "[]" head q vs new] l q new by simp
qed

lemma list_add_tail_refines:
  assumes l: "is_list h head xs" and new: "new \<notin> set (0 # head # xs)"
  shows "\<exists>h'. list_add_tail new head h = Inr h' \<and> is_list h' head (xs @ [new]) \<and>
    only_changes (set (new # head # xs)) h h'"
proof -
  obtain us p where p: "head # xs = us @ [p]" by (metis append_butlast_last_id list.discI)
  then have "head # xs @ [head] = us @ p # [head]" by (metis append.assoc append_Cons append_Nil)
  then have "chain h (us @ p # [head])" using l by (metis is_list_def)
  then have "lprev (h head) = p" by (simp add: chain_mid)
  then have "list_add_tail new head h = list_add_between new p head h"
    using l by (simp add: list_add_tail_def list_access is_list_def)
  then show ?thesis using list_insert_at [of h head xs "[]" us p head "[]" new] l p new by simp
qed

lemma list_unlink_refines:
  assumes l: "is_list h head (xs @ e # ys)"
  shows "\<exists>h'. list_unlink e h = Inr h' \<and> is_list h' head (xs @ ys) \<and> only_changes (set (head # xs @ ys)) h h'"
proof -
  obtain us p where p: "head # xs = us @ [p]" by (metis append_butlast_last_id list.discI)
  obtain q vs where q: "ys @ [head] = q # vs" by (cases ys) auto
  have cs: "us @ p # e # q # vs = head # xs @ e # ys @ [head]" "us @ p # q # vs = head # (xs @ ys) @ [head]"
    using p q by (metis append.assoc append_Cons append_Nil)+
  have d: "0 \<notin> set (head # xs @ e # ys)" "distinct (head # xs @ e # ys)" and ch: "chain h (us @ p # e # q # vs)"
    using l by (auto simp: is_list_def cs)
  have "\<exists>h'. list_unlink e h = Inr h' \<and> chain h' (us @ p # q # vs) \<and> only_changes {p, q} h h'"
    by (rule list_unlink_chain [OF ch]) (use d in \<open>auto simp: cs butlast_append\<close>)
  moreover have "{p, q} \<subseteq> set (head # xs @ ys)"
  proof -
    have "p \<in> set (us @ [p])" "q \<in> set (q # vs)" by simp_all
    then show ?thesis by (auto simp flip: p q)
  qed
  ultimately show ?thesis using d unfolding cs only_changes_def is_list_def by fastforce
qed

lemma only_changes_trans:
  "only_changes A h h' \<Longrightarrow> only_changes B h' h'' \<Longrightarrow> only_changes (A \<union> B) h h''"
  by (simp add: only_changes_def)

lemma only_changes_mono: "only_changes A h h' \<Longrightarrow> A \<subseteq> B \<Longrightarrow> only_changes B h h'"
  by (auto simp: only_changes_def)

lemma is_list_unchanged: "only_changes A h h' \<Longrightarrow> A \<inter> set (head # xs) = {} \<Longrightarrow> is_list h' head xs = is_list h head xs"
  by (rule is_list_frame) (auto simp: only_changes_def)

lemma list_del_refines:
  assumes l: "is_list h head (xs @ e # ys)"
  shows "\<exists>h'. list_del e h = Inr h' \<and> is_list h' head (xs @ ys) \<and>
    h' e = \<lparr>lnext = LIST_POISON1, lprev = LIST_POISON2\<rparr> \<and> only_changes (set (head # xs @ e # ys)) h h'"
proof -
  obtain g where g: "list_unlink e h = Inr g" "is_list g head (xs @ ys)" "only_changes (set (head # xs @ ys)) h g"
    using list_unlink_refines [OF l] by blast
  have e: "e \<noteq> 0" "e \<notin> set (head # xs @ ys)" using l by (auto simp: is_list_def)
  let ?h = "g(e := \<lparr>lnext = LIST_POISON1, lprev = LIST_POISON2\<rparr>)"
  have "list_del e h = Inr ?h" using g(1) e(1) by (cases "g e") (simp add: list_del_def list_access)
  moreover have "is_list ?h head (xs @ ys)" using g(2) e(2) by (subst is_list_frame [of _ _ _ g]) auto
  moreover have "only_changes (set (head # xs @ e # ys)) h ?h" using g(3) by (auto simp: only_changes_def)
  ultimately show ?thesis by simp
qed

lemma list_del_init_refines:
  assumes l: "is_list h head (xs @ e # ys)"
  shows "\<exists>h'. list_del_init e h = Inr h' \<and> is_list h' head (xs @ ys) \<and> is_list h' e [] \<and>
    only_changes (set (head # xs @ e # ys)) h h'"
proof -
  obtain g where g: "list_unlink e h = Inr g" "is_list g head (xs @ ys)" "only_changes (set (head # xs @ ys)) h g"
    using list_unlink_refines [OF l] by blast
  have e: "e \<noteq> 0" "e \<notin> set (head # xs @ ys)" using l by (auto simp: is_list_def)
  obtain h' where h': "INIT_LIST_HEAD e g = Inr h'" "is_list h' e []" "only_changes {e} g h'"
    using INIT_LIST_HEAD_empty [OF e(1)] by (fastforce simp: only_changes_def)
  have "is_list h' head (xs @ ys)" using g(2) e(2) is_list_unchanged [OF h'(3), of head "xs @ ys"] by simp
  moreover have "only_changes (set (head # xs @ e # ys)) h h'"
    by (rule only_changes_mono [OF only_changes_trans [OF g(3) h'(3)]]) auto
  ultimately show ?thesis using g(1) h' by (auto simp: list_del_init_def)
qed

text \<open>Moving an entry from one list to another, or within one list.\<close>

lemma list_move_refines:
  assumes l: "is_list h head (xs @ e # ys)"
  shows "\<exists>h'. list_move e head h = Inr h' \<and> is_list h' head (e # xs @ ys) \<and> only_changes (set (head # xs @ e # ys)) h h'"
    and "\<exists>h'. list_move_tail e head h = Inr h' \<and> is_list h' head (xs @ ys @ [e]) \<and> only_changes (set (head # xs @ e # ys)) h h'"
proof -
  obtain g where g: "list_unlink e h = Inr g" "is_list g head (xs @ ys)" "only_changes (set (head # xs @ ys)) h g"
    using list_unlink_refines [OF l] by blast
  have e: "e \<notin> set (0 # head # xs @ ys)" using l by (auto simp: is_list_def)
  have sub: "set (head # xs @ ys) \<union> set (e # head # xs @ ys) \<subseteq> set (head # xs @ e # ys)" by auto
  obtain h' where "list_add e head g = Inr h'" "is_list h' head (e # xs @ ys)" "only_changes (set (e # head # xs @ ys)) g h'"
    using list_add_refines [OF g(2) e] by blast
  then show "\<exists>h'. list_move e head h = Inr h' \<and> is_list h' head (e # xs @ ys) \<and> only_changes (set (head # xs @ e # ys)) h h'"
    using g only_changes_mono [OF only_changes_trans [OF g(3)] sub] by (auto simp: list_move_def)
  obtain h'' where "list_add_tail e head g = Inr h''" "is_list h'' head (xs @ ys @ [e])"
      "only_changes (set (e # head # xs @ ys)) g h''"
    using list_add_tail_refines [OF g(2) e] by auto
  then show "\<exists>h'. list_move_tail e head h = Inr h' \<and> is_list h' head (xs @ ys @ [e]) \<and> only_changes (set (head # xs @ e # ys)) h h'"
    using g only_changes_mono [OF only_changes_trans [OF g(3)] sub] by (auto simp: list_move_tail_def)
qed

lemma list_for_each_chain:
  "chain h (p # xs @ [head]) \<Longrightarrow> head \<notin> set xs \<Longrightarrow> length xs < fuel \<Longrightarrow>
     list_for_each fuel (lnext (h p)) head h = Some xs"
proof (induction xs arbitrary: p fuel)
  case Nil
  then show ?case by (cases fuel) auto
next
  case (Cons x xs)
  then show ?case by (cases fuel) auto
qed

lemma chain_wrap:
  "ys \<noteq> [] \<Longrightarrow> chain h (a # ys @ [b]) \<longleftrightarrow>
     chain h ys \<and> lnext (h a) = hd ys \<and> lprev (h (hd ys)) = a \<and> lnext (h (last ys)) = b \<and> lprev (h b) = last ys"
proof (induction ys arbitrary: a)
  case (Cons y ys)
  then show ?case by (cases ys) auto
qed simp

lemma list_splice_at_refines:
  assumes l: "is_list h l ys" "ys \<noteq> []" and head: "is_list h head xs"
    and disj: "set (l # ys) \<inter> set (head # xs) = {}"
  shows "\<exists>h'. list_splice_at l head h = Inr h' \<and> is_list h' head (ys @ xs) \<and>
    only_changes (set (ys @ head # xs)) h h'"
proof -
  obtain q vs where q: "xs @ [head] = q # vs" by (cases xs) auto
  define a where "a = hd ys" define b where "b = last ys"
  have ab: "a \<in> set ys" "b \<in> set ys" using l(2) by (simp_all add: a_def b_def)
  have dl: "0 \<notin> set (l # ys)" "distinct (l # ys)" "chain h (l # ys @ [l])" using l(1) by (auto simp: is_list_def)
  have dh: "0 \<notin> set (head # xs)" "distinct (head # xs)" "chain h (head # q # vs)"
    using head q by (auto simp: is_list_def)
  have qs: "set (q # vs) = set (head # xs)" by (auto simp flip: q)
  then have qh: "q \<in> set (head # xs)" by auto
  have dq: "distinct (q # vs)" using dh(2) by (auto simp flip: q)
  have links: "chain h ys" "lnext (h l) = a" "lprev (h l) = b"
    using chain_wrap [OF l(2), of h l l] dl(3) by (simp_all add: a_def b_def)
  have nq: "lnext (h head) = q" using dh(3) by simp
  have ne: "head \<noteq> 0" "q \<noteq> 0" "a \<noteq> 0" "b \<noteq> 0" "l \<noteq> 0" "a \<noteq> head" "a \<noteq> q" "b \<noteq> head" "b \<noteq> q"
    using dl(1,2) dh(1) ab disj qh by auto
  define h1 where "h1 = h(a := h a\<lparr>lprev := head\<rparr>)"
  define h2 where "h2 = h1(head := h1 head\<lparr>lnext := a\<rparr>)"
  define h3 where "h3 = h2(b := h2 b\<lparr>lnext := q\<rparr>)"
  define h' where "h' = h3(q := h3 q\<lparr>lprev := b\<rparr>)"
  note defs = h'_def h3_def h2_def h1_def
  have run: "list_splice_at l head h = Inr h'"
    using ne links nq by (simp add: list_splice_at_def list_access defs)
  have nx: "lnext (h' x) = lnext (h x)" if "x \<noteq> head" "x \<noteq> b" for x using that by (auto simp: defs)
  have pv: "lprev (h' x) = lprev (h x)" if "x \<noteq> a" "x \<noteq> q" for x using that by (auto simp: defs)
  have "distinct (a # tl ys)" "distinct (butlast ys @ [b])" using l(2) dl(2) by (simp_all add: a_def b_def)
  then have "a \<notin> set (tl ys)" "b \<notin> set (butlast ys)" by auto
  moreover have "head \<notin> set ys" "q \<notin> set ys" using disj qh by auto
  ultimately have "chain h' ys = chain h ys"
    by (intro chain_cong nx pv) (auto dest: in_set_butlastD list.set_sel(2) [OF l(2)])
  then have mid: "chain h' (head # ys @ [q])"
    using chain_wrap [OF l(2), of h' head q] links ne by (simp add: a_def [symmetric] b_def [symmetric]) (simp add: defs)
  have parts: "chain h ([] @ [head])" "chain h (q # vs)" using dh(3) by simp_all
  have bl: "butlast (head # q # vs) = head # xs" by (simp flip: q)
  have "b \<notin> set ([] @ vs @ [head, q])" "a \<notin> set ([] @ vs @ [head, q])" using ab disj qs by auto
  then have "chain h' ([] @ head # ys @ q # vs)"
    using dh(2) dq by (intro chain_replace [OF parts mid] nx pv) (auto simp: bl simp del: butlast.simps)
  then have "is_list h' head (ys @ xs)" using q dl dh disj by (auto simp: is_list_def)
  moreover have "only_changes (set (ys @ head # xs)) h h'" using ab qs by (auto simp: only_changes_def defs)
  ultimately show ?thesis using run by blast
qed

section \<open>Programs over a list\<close>

text \<open>A call of one of the operations on a list, its effect in memory and its effect on the sequence.\<close>

datatype list_call = Add u64 | AddTail u64 | Del u64 | DelInit u64 | Move u64 | MoveTail u64

primrec run_call :: "u64 \<Rightarrow> list_call \<Rightarrow> list_mem \<Rightarrow> list_mem res" where
  "run_call head (Add e) = list_add e head"
| "run_call head (AddTail e) = list_add_tail e head"
| "run_call head (Del e) = list_del e"
| "run_call head (DelInit e) = list_del_init e"
| "run_call head (Move e) = list_move e head"
| "run_call head (MoveTail e) = list_move_tail e head"

primrec spec_call :: "list_call \<Rightarrow> u64 list \<Rightarrow> u64 list" where
  "spec_call (Add e) xs = e # xs"
| "spec_call (AddTail e) xs = xs @ [e]"
| "spec_call (Del e) xs = remove1 e xs"
| "spec_call (DelInit e) xs = remove1 e xs"
| "spec_call (Move e) xs = e # remove1 e xs"
| "spec_call (MoveTail e) xs = remove1 e xs @ [e]"

text \<open>Adding wants a new entry, the other calls an entry of the list.\<close>

primrec call_ok :: "u64 \<Rightarrow> list_call \<Rightarrow> u64 list \<Rightarrow> bool" where
  "call_ok head (Add e) xs \<longleftrightarrow> e \<notin> set (0 # head # xs)"
| "call_ok head (AddTail e) xs \<longleftrightarrow> e \<notin> set (0 # head # xs)"
| "call_ok head (Del e) xs \<longleftrightarrow> e \<in> set xs"
| "call_ok head (DelInit e) xs \<longleftrightarrow> e \<in> set xs"
| "call_ok head (Move e) xs \<longleftrightarrow> e \<in> set xs"
| "call_ok head (MoveTail e) xs \<longleftrightarrow> e \<in> set xs"

fun calls_ok :: "u64 \<Rightarrow> list_call list \<Rightarrow> u64 list \<Rightarrow> bool" where
  "calls_ok head [] xs \<longleftrightarrow> True"
| "calls_ok head (c # cs) xs \<longleftrightarrow> call_ok head c xs \<and> calls_ok head cs (spec_call c xs)"

lemma run_call_refines:
  assumes l: "is_list h head xs" and ok: "call_ok head c xs"
  shows "\<exists>h'. run_call head c h = Inr h' \<and> is_list h' head (spec_call c xs)"
proof -
  have split: "\<exists>ys zs. xs = ys @ e # zs \<and> remove1 e xs = ys @ zs" if e: "e \<in> set xs" for e
  proof -
    obtain ys zs where "xs = ys @ e # zs" "e \<notin> set ys" using split_list_first [OF e] by blast
    then show ?thesis by (intro exI [of _ ys] exI [of _ zs]) (simp add: remove1_append)
  qed
  show ?thesis
  proof (cases c)
    case (Add e)
    then show ?thesis using list_add_refines [OF l, of e] ok by auto
  next
    case (AddTail e)
    then show ?thesis using list_add_tail_refines [OF l, of e] ok by auto
  next
    case (Del e)
    then show ?thesis using split [of e] ok l list_del_refines by fastforce
  next
    case (DelInit e)
    then show ?thesis using split [of e] ok l list_del_init_refines by fastforce
  next
    case (Move e)
    then show ?thesis using split [of e] ok l list_move_refines(1) by fastforce
  next
    case (MoveTail e)
    then show ?thesis using split [of e] ok l list_move_refines(2) by fastforce
  qed
qed

lemma run_calls_refine:
  "is_list h head xs \<Longrightarrow> calls_ok head cs xs \<Longrightarrow>
     \<exists>h'. rfold (run_call head) cs h = Inr h' \<and> is_list h' head (fold spec_call cs xs)"
proof (induction cs arbitrary: h xs)
  case (Cons c cs)
  then obtain h1 where "run_call head c h = Inr h1" "is_list h1 head (spec_call c xs)"
    using run_call_refines by (metis calls_ok.simps(2))
  then show ?case using Cons.IH [of h1 "spec_call c xs"] Cons.prems(2) by auto
qed simp

section \<open>Properties\<close>

text \<open>
  C27. Any sequence of the calls \<open>list_add\<close>, \<open>list_add_tail\<close>, \<open>list_del\<close>, \<open>list_del_init\<close>,
  \<open>list_move\<close> and \<open>list_move_tail\<close> on a freshly initialised list runs without a fault, provided that
  each adds a new entry or removes one of the list. Afterwards the links represent the sequence that
  the calls give, the iteration visits exactly its entries in order and stops, and \<open>list_empty\<close>
  answers for it.
\<close>

theorem list_program_refines:
  assumes "head \<noteq> 0" and "calls_ok head cs []"
  shows "\<exists>h0 h'. INIT_LIST_HEAD head h = Inr h0 \<and> rfold (run_call head) cs h0 = Inr h' \<and>
    is_list h' head (fold spec_call cs []) \<and>
    list_for_each (Suc (length (fold spec_call cs []))) (lnext (h' head)) head h' = Some (fold spec_call cs []) \<and>
    list_empty head h' = Inr (fold spec_call cs [] = [])"
proof -
  obtain h0 where h0: "INIT_LIST_HEAD head h = Inr h0" "is_list h0 head []"
    using INIT_LIST_HEAD_empty [OF assms(1)] by blast
  then obtain h' where h': "rfold (run_call head) cs h0 = Inr h'" "is_list h' head (fold spec_call cs [])"
    using run_calls_refine assms(2) by blast
  have "list_for_each (Suc (length (fold spec_call cs []))) (lnext (h' head)) head h' = Some (fold spec_call cs [])"
    by (rule list_for_each_chain) (use h'(2) in \<open>auto simp: is_list_def\<close>)
  then show ?thesis using h0 h' list_empty_correct by blast
qed

theorem list_program_refines_witness:
  "\<exists>h0 h'. INIT_LIST_HEAD 8 (\<lambda>_. \<lparr>lnext = 0, lprev = 0\<rparr>) = Inr h0 \<and>
     rfold (run_call 8) [Add 16, AddTail 24, Add 32, Del 16, Move 24] h0 = Inr h' \<and>
     is_list h' 8 [24, 32] \<and> list_for_each 3 (lnext (h' 8)) 8 h' = Some [24, 32]"
  using list_program_refines [of 8 "[Add 16, AddTail 24, Add 32, Del 16, Move 24]" "\<lambda>_. \<lparr>lnext = 0, lprev = 0\<rparr>"]
  by (simp add: numeral_3_eq_3 del: list_for_each.simps rfold.simps) blast

text \<open>
  \<open>list_splice_init\<close> puts the entries of one list, in order, in front of those of another and
  leaves the first list empty; no node outside the two lists changes.
\<close>

theorem list_splice_init_refines:
  assumes "is_list h l ys" and "is_list h head xs" and "set (l # ys) \<inter> set (head # xs) = {}"
  shows "\<exists>h'. list_splice_init l head h = Inr h' \<and> is_list h' head (ys @ xs) \<and> is_list h' l [] \<and>
    (\<forall>x. x \<notin> set (l # ys @ head # xs) \<longrightarrow> h' x = h x)"
proof (cases "ys = []")
  case True
  then show ?thesis using assms list_empty_correct [OF assms(1)] by (simp add: list_splice_init_def)
next
  case False
  obtain g where g: "list_splice_at l head h = Inr g" "is_list g head (ys @ xs)" "only_changes (set (ys @ head # xs)) h g"
    using list_splice_at_refines [OF assms(1) False assms(2,3)] by blast
  have l: "l \<noteq> 0" using assms(1) by (simp add: is_list_def)
  obtain h' where h': "INIT_LIST_HEAD l g = Inr h'" "is_list h' l []" "\<forall>q. q \<noteq> l \<longrightarrow> h' q = g q"
    using INIT_LIST_HEAD_empty [OF l] by blast
  have "l \<notin> set (head # ys @ xs)" using assms by (auto simp: is_list_def)
  then have "is_list h' head (ys @ xs)" using g(2) h'(3) by (subst is_list_frame [of _ _ _ g]) auto
  then show ?thesis using g h' False list_empty_correct [OF assms(1)]
    by (auto simp: list_splice_init_def only_changes_def)
qed

theorem list_splice_init_refines_witness:
  "\<exists>h h'. is_list h 8 [16] \<and> is_list h 24 [32] \<and> list_splice_init 8 24 h = Inr h' \<and> is_list h' 24 [16, 32]"
proof -
  let ?h = "\<lambda>p. if p = 8 then \<lparr>lnext = 16, lprev = 16\<rparr> else if p = 16 then \<lparr>lnext = 8, lprev = 8\<rparr>
    else if p = 24 then \<lparr>lnext = 32, lprev = 32\<rparr> else \<lparr>lnext = 24, lprev = 24\<rparr>"
  have "is_list ?h 8 [16]" "is_list ?h 24 [32]" by (simp_all add: is_list_def)
  then show ?thesis using list_splice_init_refines [of ?h 8 "[16]" 24 "[32]"] by auto
qed

end
