(* ===== verification/Phys_Alloc.thy ===== *)
theory Phys_Alloc
  imports Bitmap Alloc_Contract
begin

text \<open>
  The physical memory manager, \<open>sys/mm/mmgr.c\<close>: 4 KB frames tracked by the bitmap
  \<open>mmgr_memory_map\<close>. Pointers are 64-bit words. The operations in the order of the file, then the
  invariant under which frames are handed out, the contracts of \<open>Alloc_Contract\<close> and what the boot
  code establishes. Messages printed on failure are left out.
\<close>

section \<open>State\<close>

record smap_t =
  smap_base :: u64
  smap_length :: u64
  smap_type :: u32

record mmgr_state =
  sys_total_memory :: "smap_t list"
  total_mem_counter :: u64
  sys_usable_memory :: "smap_t list"
  usable_mem_counter :: u64
  mmgr_usable_memory_size :: u64
  mmgr_used_blocks :: u64
  mmgr_max_blocks :: u64
  mmgr_memory_map :: "u64 list"

text \<open>The static initial values; \<open>.bss\<close> is zero.\<close>

definition smap_zero :: smap_t where
  "smap_zero = \<lparr>smap_base = 0, smap_length = 0, smap_type = 0\<rparr>"

definition mmgr_boot :: mmgr_state where
  "mmgr_boot =
     \<lparr>sys_total_memory = replicate 10 smap_zero, total_mem_counter = 0,
      sys_usable_memory = replicate 10 smap_zero, usable_mem_counter = 0,
      mmgr_usable_memory_size = 0, mmgr_used_blocks = 0, mmgr_max_blocks = 0,
      mmgr_memory_map = replicate 1200 0\<rparr>"

definition BLOCK_SIZE :: u64 where
  "BLOCK_SIZE = 4096"

definition MEGA_BYTE :: u64 where
  "MEGA_BYTE = 1024 * 1024"

definition MM_PHY_USABLE :: u32 where
  "MM_PHY_USABLE = 1"

section \<open>Operations\<close>

definition get_total_blocks :: "mmgr_state \<Rightarrow> u64" where
  "get_total_blocks s = mmgr_max_blocks s"

definition get_used_blocks :: "mmgr_state \<Rightarrow> u64" where
  "get_used_blocks s = mmgr_used_blocks s"

definition get_total_usable_memory :: "mmgr_state \<Rightarrow> u64" where
  "get_total_usable_memory s = mmgr_usable_memory_size s"

definition get_total_usable_blocks :: "mmgr_state \<Rightarrow> u64" where
  "get_total_usable_blocks s = get_total_blocks s - get_used_blocks s"

definition mmgr_set_block :: "int \<Rightarrow> mmgr_state \<Rightarrow> mmgr_state res" where
  "mmgr_set_block n s =
     rbind (bm_set_block (mmgr_memory_map s) n) (\<lambda>m. Inr (s\<lparr>mmgr_memory_map := m\<rparr>))"

definition mmgr_is_block_free :: "int \<Rightarrow> mmgr_state \<Rightarrow> u32 res" where
  "mmgr_is_block_free n s = bm_is_block_free (mmgr_memory_map s) n"

definition mmgr_unset_block :: "int \<Rightarrow> mmgr_state \<Rightarrow> mmgr_state res" where
  "mmgr_unset_block n s =
     rbind (bm_unset_block (mmgr_memory_map s) n) (\<lambda>m. Inr (s\<lparr>mmgr_memory_map := m\<rparr>))"

definition mmgr_get_first_free :: "mmgr_state \<Rightarrow> int res" where
  "mmgr_get_first_free s = bm_get_first_free (mmgr_memory_map s) (get_total_blocks s)"

definition mmgr_get_first_range_free :: "int \<Rightarrow> mmgr_state \<Rightarrow> int res" where
  "mmgr_get_first_range_free sz s =
     bm_get_first_range_free (mmgr_memory_map s) (get_total_blocks s) sz"

definition mmgr_alloc_block :: "mmgr_state \<Rightarrow> (mmgr_state \<times> u64) res" where
  "mmgr_alloc_block s =
     (if get_total_usable_blocks s \<le> 0 then Inr (s, 0)
      else rbind (mmgr_get_first_free s) (\<lambda>r.
        let page_frame = u64_of_int r in
        if page_frame = -1 then Inr (s, 0)
        else rbind (mmgr_set_block (int_of_u64 page_frame) s) (\<lambda>s.
          Inr (s\<lparr>mmgr_used_blocks := mmgr_used_blocks s + 1\<rparr>, page_frame * BLOCK_SIZE))))"

definition mmgr_alloc_size_blocks :: "int \<Rightarrow> mmgr_state \<Rightarrow> (mmgr_state \<times> u64) res" where
  "mmgr_alloc_size_blocks sz s =
     (if get_total_usable_blocks s \<le> u64_of_int sz then Inr (s, 0)
      else rbind (mmgr_get_first_range_free sz s) (\<lambda>r.
        let page_frame = u64_of_int r in
        if page_frame = -1 then Inr (s, 0)
        else rbind (rfold (\<lambda>i. mmgr_set_block (int_of_u64 (page_frame + of_nat i))) [0..<nat sz] s)
          (\<lambda>s. Inr (s\<lparr>mmgr_used_blocks := mmgr_used_blocks s + u64_of_int sz\<rparr>,
                     page_frame * BLOCK_SIZE))))"

definition mmgr_free_block :: "u64 \<Rightarrow> mmgr_state \<Rightarrow> mmgr_state res" where
  "mmgr_free_block p s =
     (let page_frame = int_of_u64 (p div BLOCK_SIZE) in
      if p = 0 then Inr s
      else rbind (mmgr_unset_block page_frame s) (\<lambda>s.
        Inr (s\<lparr>mmgr_used_blocks := mmgr_used_blocks s - 1\<rparr>)))"

definition mmgr_free_size_blocks :: "u64 \<Rightarrow> int \<Rightarrow> mmgr_state \<Rightarrow> mmgr_state res" where
  "mmgr_free_size_blocks p sz s =
     (let page_frame = int_of_u64 (p div BLOCK_SIZE) in
      if p = 0 then Inr s
      else rbind (rfold (\<lambda>i. mmgr_unset_block (page_frame + int i)) [0..<nat sz] s) (\<lambda>s.
        Inr (s\<lparr>mmgr_used_blocks := mmgr_used_blocks s - u64_of_int sz\<rparr>)))"

text \<open>The two loops over a region, with \<open>n\<close> blocks to go.\<close>

primrec init_loop :: "nat \<Rightarrow> u64 \<Rightarrow> mmgr_state \<Rightarrow> mmgr_state res" where
  "init_loop 0 block_no s = Inr s"
| "init_loop (Suc n) block_no s =
     rbind (mmgr_unset_block (int_of_u64 block_no) s) (\<lambda>s.
     init_loop n (block_no + 1) (s\<lparr>mmgr_used_blocks := mmgr_used_blocks s - 1\<rparr>))"

definition mmgr_phy_init_regions :: "u64 \<Rightarrow> u64 \<Rightarrow> mmgr_state \<Rightarrow> mmgr_state res" where
  "mmgr_phy_init_regions base len s = init_loop (unat (len div BLOCK_SIZE)) (base div BLOCK_SIZE) s"

primrec deinit_loop :: "nat \<Rightarrow> u64 \<Rightarrow> mmgr_state \<Rightarrow> mmgr_state res" where
  "deinit_loop 0 block_no s = Inr s"
| "deinit_loop (Suc n) block_no s =
     rbind (mmgr_set_block (int_of_u64 block_no) s) (\<lambda>s.
     deinit_loop n (block_no + 1) (s\<lparr>mmgr_used_blocks := mmgr_used_blocks s + 1\<rparr>))"

definition mmgr_phy_deinit_regions :: "u64 \<Rightarrow> u64 \<Rightarrow> mmgr_state \<Rightarrow> mmgr_state res" where
  "mmgr_phy_deinit_regions base len s =
     rbind (deinit_loop (unat (len div BLOCK_SIZE)) (base div BLOCK_SIZE) s) (mmgr_set_block 0)"

text \<open>The body of the loops that reserve frames for the kernel.\<close>

definition mmgr_reserve :: "nat \<Rightarrow> mmgr_state \<Rightarrow> mmgr_state res" where
  "mmgr_reserve i s =
     rbind (mmgr_set_block (int i) s) (\<lambda>s. Inr (s\<lparr>mmgr_used_blocks := mmgr_used_blocks s + 1\<rparr>))"

definition mmgr_syncwith_kernel :: "mmgr_state \<Rightarrow> mmgr_state res" where
  "mmgr_syncwith_kernel s = rfold mmgr_reserve [512..<40 * 256] s"

text \<open>
  The boot loader's records are a \<open>uint32_t\<close> array \<open>mem\<close> starting at \<open>modulep\<close>. The walk stops at
  the tag \<open>0x9001\<close>; a stride that wraps to zero never ends.
\<close>

function find_module :: "u32 list \<Rightarrow> nat \<Rightarrow> nat res" where
  "find_module mem i =
     (if i < length mem
      then if mem ! i = 0x9001 then Inr i
           else if i + 1 < length mem
           then if mem ! (i + 1) + 2 = 0 then Inl Halt
                else find_module mem (i + unat (mem ! (i + 1) + 2))
           else Inl OutOfBounds
      else Inl OutOfBounds)"
  by pat_completeness auto
termination
  by (relation "measure (\<lambda>(mem, i). length mem - i)") (auto intro!: diff_less_mono2 simp: unat_gt_0)

definition u64_of_u32s :: "u32 \<Rightarrow> u32 \<Rightarrow> u64" where
  "u64_of_u32s lo hi = ucast lo OR push_bit 32 (ucast hi)"

text \<open>A packed \<open>struct smap_t\<close>, five 32-bit words.\<close>

definition read_smap :: "u32 list \<Rightarrow> nat \<Rightarrow> smap_t res" where
  "read_smap mem j =
     rbind (arr_get mem (int j)) (\<lambda>b0. rbind (arr_get mem (int (j + 1))) (\<lambda>b1.
     rbind (arr_get mem (int (j + 2))) (\<lambda>l0. rbind (arr_get mem (int (j + 3))) (\<lambda>l1.
     rbind (arr_get mem (int (j + 4))) (\<lambda>t.
       Inr \<lparr>smap_base = u64_of_u32s b0 b1, smap_length = u64_of_u32s l0 l1, smap_type = t\<rparr>)))))"

definition mm_phy_entry :: "smap_t \<Rightarrow> mmgr_state \<Rightarrow> mmgr_state res" where
  "mm_phy_entry e s =
     (if smap_length e \<noteq> 0 then
        rbind (arr_set (sys_total_memory s) (uint (total_mem_counter s)) e) (\<lambda>tm.
        let s = s\<lparr>sys_total_memory := tm\<rparr> in
        rbind (if smap_type e = MM_PHY_USABLE then
                 rbind (arr_set (sys_usable_memory s) (uint (usable_mem_counter s)) e) (\<lambda>um.
                 Inr (s\<lparr>mmgr_usable_memory_size := mmgr_usable_memory_size s + smap_length e,
                        sys_usable_memory := um,
                        usable_mem_counter := usable_mem_counter s + 1\<rparr>))
               else Inr s) (\<lambda>s.
        Inr (s\<lparr>total_mem_counter := total_mem_counter s + 1\<rparr>)))
      else Inr s)"

definition mm_phy_scan :: "u32 list \<Rightarrow> nat \<Rightarrow> nat \<Rightarrow> mmgr_state \<Rightarrow> mmgr_state res" where
  "mm_phy_scan mem i k s = rbind (read_smap mem (i + 2 + 5 * k)) (\<lambda>e. mm_phy_entry e s)"

text \<open>The counters, computed once the map has been read.\<close>

definition mm_phy_count :: "mmgr_state \<Rightarrow> mmgr_state" where
  "mm_phy_count s =
     (let s = s\<lparr>mmgr_max_blocks := mmgr_usable_memory_size s div BLOCK_SIZE\<rparr>;
          s = s\<lparr>mmgr_used_blocks := mmgr_max_blocks s\<rparr>
      in s\<lparr>mmgr_usable_memory_size := mmgr_usable_memory_size s div MEGA_BYTE\<rparr>)"

definition init_usable :: "nat \<Rightarrow> mmgr_state \<Rightarrow> mmgr_state res" where
  "init_usable i s =
     rbind (arr_get (sys_usable_memory s) (int i)) (\<lambda>e.
     mmgr_phy_init_regions (smap_base e) (smap_length e) s)"

definition mm_phy_init :: "u32 list \<Rightarrow> mmgr_state \<Rightarrow> mmgr_state res" where
  "mm_phy_init mem s =
     rbind (find_module mem 0) (\<lambda>i.
     rbind (arr_get mem (int (i + 1))) (\<lambda>len.
     rbind (rfold (mm_phy_scan mem i) [0..<(unat len + 19) div 20] s) (\<lambda>s.
     let s = mm_phy_count s in
     rbind (memset_u64 (mmgr_memory_map s) 0xF (ucast (mmgr_max_blocks s div 64))) (\<lambda>m.
     let s = s\<lparr>mmgr_memory_map := m\<rparr> in
     rbind (rfold init_usable [0..<unat (usable_mem_counter s)] s) (\<lambda>s.
     rfold mmgr_reserve [0..<1024] s)))))"

declare find_module.simps [simp del]

section \<open>Handing out a frame\<close>

definition mmgr_used :: "mmgr_state \<Rightarrow> u64 \<Rightarrow> bool" where
  "mmgr_used s p \<longleftrightarrow> bm_used (mmgr_memory_map s) (unat p div 4096)"

definition mmgr_inv :: "mmgr_state \<Rightarrow> bool" where
  "mmgr_inv s \<longleftrightarrow>
     length (mmgr_memory_map s) = 1200 \<and> unat (mmgr_max_blocks s div 64) \<le> 1200 \<and>
     bm_used (mmgr_memory_map s) 0"

lemma mmgr_set_block_Inr:
  "mmgr_set_block (int b) s = Inr s' \<longleftrightarrow>
     b div 64 < length (mmgr_memory_map s) \<and>
     s' = s\<lparr>mmgr_memory_map :=
              (mmgr_memory_map s)[b div 64 := mmgr_memory_map s ! (b div 64) OR shl1_u64 (int b)]\<rparr>"
  by (auto simp: mmgr_set_block_def rbind_eq_Inr_iff bm_set_block_Inr)

lemma mmgr_unset_block_Inr:
  "mmgr_unset_block (int b) s = Inr s' \<longleftrightarrow>
     b div 64 < length (mmgr_memory_map s) \<and>
     s' = s\<lparr>mmgr_memory_map :=
              (mmgr_memory_map s)[b div 64 := mmgr_memory_map s ! (b div 64) AND NOT (shl1_u64 (int b))]\<rparr>"
  by (auto simp: mmgr_unset_block_def rbind_eq_Inr_iff bm_unset_block_Inr)

text \<open>The state after frame \<open>b\<close> is handed out.\<close>

definition mmgr_grant :: "nat \<Rightarrow> mmgr_state \<Rightarrow> mmgr_state" where
  "mmgr_grant b s =
     s\<lparr>mmgr_memory_map :=
         (mmgr_memory_map s)[b div 64 := mmgr_memory_map s ! (b div 64) OR shl1_u64 (int b)],
       mmgr_used_blocks := mmgr_used_blocks s + 1\<rparr>"

lemma mmgr_grant_neq: "mmgr_grant b s \<noteq> s"
proof
  assume "mmgr_grant b s = s"
  then have "mmgr_used_blocks (mmgr_grant b s) = mmgr_used_blocks s" by simp
  then show False by (simp add: mmgr_grant_def)
qed

lemma mmgr_grant_used:
  "b div 64 < length (mmgr_memory_map s) \<Longrightarrow>
     bm_used (mmgr_memory_map (mmgr_grant b s)) c \<longleftrightarrow> bm_used (mmgr_memory_map s) c \<or> same_slot b c"
  by (simp add: mmgr_grant_def bm_used_set)

lemma mmgr_alloc_blockE:
  assumes "mmgr_alloc_block s = Inr (s', p)" and len: "length (mmgr_memory_map s) \<le> 2 ^ 20"
  obtains (none) "s' = s" and "p = 0"
      and "get_total_usable_blocks s = 0 \<or> mmgr_get_first_free s = Inr (-1)"
    | (some) b where "s' = mmgr_grant b s" and "p = of_nat b * 4096"
      and "least_free (mmgr_memory_map s) (mmgr_max_blocks s) b"
proof (cases "get_total_usable_blocks s = 0")
  case True
  with assms(1) have "s' = s" and "p = 0" by (auto simp: mmgr_alloc_block_def)
  with True show ?thesis by (intro none) auto
next
  case False
  with assms(1) obtain r where r: "mmgr_get_first_free s = Inr r" by (auto simp: mmgr_alloc_block_def)
  then have "bm_get_first_free (mmgr_memory_map s) (mmgr_max_blocks s) = Inr r"
    by (simp add: mmgr_get_first_free_def get_total_blocks_def)
  then show ?thesis using len
  proof (cases rule: first_free_blockE)
    case full
    with assms(1) False r show ?thesis by (intro none) (auto simp: mmgr_alloc_block_def)
  next
    case (block b)
    with assms(1) False r show ?thesis
      by (intro some) (auto simp: mmgr_alloc_block_def Let_def mmgr_set_block_Inr mmgr_grant_def BLOCK_SIZE_def)
  qed
qed

lemma mmgr_inv_len: "mmgr_inv s \<Longrightarrow> length (mmgr_memory_map s) \<le> 2 ^ 20"
  by (simp add: mmgr_inv_def)

lemma mmgr_grant_inv: "mmgr_inv s \<Longrightarrow> b div 64 < length (mmgr_memory_map s) \<Longrightarrow> mmgr_inv (mmgr_grant b s)"
  by (simp add: mmgr_inv_def mmgr_grant_used) (simp add: mmgr_grant_def)

lemma mmgr_alloc_total: "mmgr_inv s \<Longrightarrow> \<exists>s' p. mmgr_alloc_block s = Inr (s', p)"
proof -
  assume inv: "mmgr_inv s"
  then obtain r where r: "bm_get_first_free (mmgr_memory_map s) (mmgr_max_blocks s) = Inr r"
    using bm_get_first_free_total [of "mmgr_max_blocks s" "mmgr_memory_map s"]
    by (auto simp: mmgr_inv_def)
  then have r': "mmgr_get_first_free s = Inr r"
    by (simp add: mmgr_get_first_free_def get_total_blocks_def)
  from r mmgr_inv_len [OF inv] show ?thesis
  proof (cases rule: first_free_blockE)
    case full
    with r' show ?thesis by (simp add: mmgr_alloc_block_def)
  next
    case (block b)
    then have "mmgr_set_block (int b) s = Inr (s\<lparr>mmgr_memory_map :=
        (mmgr_memory_map s)[b div 64 := mmgr_memory_map s ! (b div 64) OR shl1_u64 (int b)]\<rparr>)"
      by (simp only: mmgr_set_block_Inr least_freeD simp_thms)
    with r' block show ?thesis by (simp add: mmgr_alloc_block_def Let_def)
  qed
qed

lemma mmgr_used_addr: "b < 2 ^ 26 \<Longrightarrow> mmgr_used s (of_nat b * 4096) \<longleftrightarrow> bm_used (mmgr_memory_map s) b"
  by (simp add: mmgr_used_def unat_block_addr)

text \<open>Freeing the frame just handed out restores the state.\<close>

lemma mmgr_free_grant:
  assumes "mmgr_inv s" and "least_free (mmgr_memory_map s) (mmgr_max_blocks s) b"
  shows "mmgr_free_block (of_nat b * 4096) (mmgr_grant b s) = Inr s"
proof -
  note b = least_freeD [OF assms(2)]
  have "b \<noteq> 0" using assms(1) b(3) by (metis mmgr_inv_def)
  then have "(of_nat b * 4096 :: u64) \<noteq> 0" using b(2) by (simp add: block_addr_eq_0)
  moreover have "mmgr_unset_block (int b) (mmgr_grant b s) =
      Inr (s\<lparr>mmgr_used_blocks := mmgr_used_blocks s + 1\<rparr>)"
    using b bm_unset_set [OF b(1,3)] by (simp add: mmgr_unset_block_Inr mmgr_grant_def)
  ultimately show ?thesis
    using b(2) by (simp add: mmgr_free_block_def BLOCK_SIZE_def block_addr_div int_of_block)
qed

section \<open>The contracts\<close>

interpretation mm: reclaiming_allocator mmgr_alloc_block mmgr_used mmgr_inv mmgr_free_block
proof
  fix s s' p q
  assume inv: "mmgr_inv s" and a: "mmgr_alloc_block s = Inr (s', p)"
  note alloc_cases = mmgr_alloc_blockE [OF a mmgr_inv_len [OF inv]]
  show "mmgr_inv s'"
    by (rule alloc_cases) (use inv in \<open>auto intro: mmgr_grant_inv dest: least_freeD\<close>)
  show "mmgr_used s' q" if "mmgr_used s q"
    by (rule alloc_cases) (use that in \<open>auto simp: mmgr_used_def mmgr_grant_used least_free_def\<close>)
  show "\<not> mmgr_used s p" if "s' \<noteq> s"
    by (rule alloc_cases) (use that in \<open>auto simp: mmgr_used_addr least_free_def\<close>)
  show "mmgr_used s' p" if "s' \<noteq> s"
    by (rule alloc_cases) (use that in \<open>auto simp: mmgr_used_addr mmgr_grant_used least_free_def\<close>)
  show "mmgr_free_block p s' = Inr s" if "s' \<noteq> s"
    by (rule alloc_cases) (use that inv in \<open>auto simp: mmgr_free_grant\<close>)
qed

interpretation mm: total_allocator mmgr_alloc_block mmgr_used mmgr_inv
  by unfold_locales (rule mmgr_alloc_total)

section \<open>Runs of frames\<close>

lemma int_of_block_add:
  "b + i < 2 ^ 26 \<Longrightarrow> int_of_u64 (of_nat b + of_nat i) = int (b + i)"
  using int_of_block [of "b + i"] by simp

text \<open>The two loops over a run are the loops on the bitmap.\<close>

lemma mmgr_set_run:
  assumes "\<And>i. i < n \<Longrightarrow> b + i < 2 ^ 26"
  shows "rfold (\<lambda>i. mmgr_set_block (int_of_u64 (of_nat b + of_nat i))) [0..<n] s =
     rbind (rfold (\<lambda>i m. bm_set_block m (int (b + i))) [0..<n] (mmgr_memory_map s))
       (\<lambda>m. Inr (s\<lparr>mmgr_memory_map := m\<rparr>))"
proof -
  have "rfold (\<lambda>i. mmgr_set_block (int_of_u64 (of_nat b + of_nat i))) [0..<n] s =
      rfold (\<lambda>i s. rbind (bm_set_block (mmgr_memory_map s) (int (b + i)))
        (\<lambda>m. Inr (s\<lparr>mmgr_memory_map := m\<rparr>))) [0..<n] s"
    apply (rule rfold_cong)
    subgoal for i s using int_of_block_add [of b i] assms [of i] by (simp add: mmgr_set_block_def)
    done
  also have "\<dots> = rbind (rfold (\<lambda>i m. bm_set_block m (int (b + i))) [0..<n] (mmgr_memory_map s))
       (\<lambda>m. Inr (s\<lparr>mmgr_memory_map := m\<rparr>))"
    by (rule rfold_field) simp_all
  finally show ?thesis .
qed

lemma mmgr_unset_run:
  "rfold (\<lambda>i. mmgr_unset_block (int b + int i)) [0..<n] s =
     rbind (rfold (\<lambda>i m. bm_unset_block m (int (b + i))) [0..<n] (mmgr_memory_map s))
       (\<lambda>m. Inr (s\<lparr>mmgr_memory_map := m\<rparr>))"
  unfolding mmgr_unset_block_def of_nat_add by (rule rfold_field) simp_all

text \<open>What a successful request for \<open>sz\<close> frames does.\<close>

definition mmgr_run_granted :: "nat \<Rightarrow> int \<Rightarrow> mmgr_state \<Rightarrow> mmgr_state \<Rightarrow> bool" where
  "mmgr_run_granted b sz s s' \<longleftrightarrow>
     (\<forall>k<nat sz. (b + k) div 64 < length (mmgr_memory_map s) \<and>
                 \<not> bm_used (mmgr_memory_map s) (b + k)) \<and>
     (\<forall>c. bm_used (mmgr_memory_map s') c \<longleftrightarrow>
          bm_used (mmgr_memory_map s) c \<or> (\<exists>k<nat sz. same_slot (b + k) c)) \<and>
     bm_wf (mmgr_memory_map s') \<and>
     s' = s\<lparr>mmgr_memory_map := mmgr_memory_map s',
            mmgr_used_blocks := mmgr_used_blocks s + u64_of_int sz\<rparr> \<and>
     length (mmgr_memory_map s') = length (mmgr_memory_map s)"

lemma mmgr_alloc_sizeE:
  assumes "mmgr_alloc_size_blocks sz s = Inr (s', p)" and "p \<noteq> 0"
    and "length (mmgr_memory_map s) \<le> 2 ^ 20" and "bm_wf (mmgr_memory_map s)"
    and "0 < sz" and "sz < 2 ^ 31"
  obtains b where "p = of_nat b * 4096" and "b < 2 ^ 26" and "mmgr_run_granted b sz s s'"
proof -
  from assms(1,2) obtain r where r: "mmgr_get_first_range_free sz s = Inr r"
    and ok: "u64_of_int r \<noteq> -1" by (auto simp: mmgr_alloc_size_blocks_def Let_def split: if_splits)
  from ok have "r \<noteq> -1" by auto
  have sz: "unat (word_of_int sz :: u32) = nat sz"
    using assms(5,6) by (simp add: unat_eq_nat_uint uint_word_of_int_eq take_bit_int_eq_self)
  from r \<open>r \<noteq> -1\<close> assms(4) obtain b where b: "r = int b"
    "\<And>k. k < nat sz \<Longrightarrow> (b + k) div 64 < length (mmgr_memory_map s) \<and> \<not> bm_used (mmgr_memory_map s) (b + k)"
    unfolding mmgr_get_first_range_free_def by (rule bm_get_first_range_freeD) (use sz in auto)
  then have lt: "b + k < 2 ^ 26" if "k < nat sz" for k
    using block_bound [of "b + k"] that assms(3) by blast
  have lt0: "b < 2 ^ 26" using lt [of 0] assms(5) by simp
  from assms(1,2) r ok b(1) obtain m where
    m: "rfold (\<lambda>i m. bm_set_block m (int (b + i))) [0..<nat sz] (mmgr_memory_map s) = Inr m"
    and s': "s' = s\<lparr>mmgr_memory_map := m, mmgr_used_blocks := mmgr_used_blocks s + u64_of_int sz\<rparr>"
    and p: "p = of_nat b * 4096"
    by (auto simp: mmgr_alloc_size_blocks_def Let_def mmgr_set_run [OF lt] BLOCK_SIZE_def
        split: if_splits simp del: of_nat_add)
  from bm_set_blocks [OF m] assms(4) b(2) s' have "mmgr_run_granted b sz s s'"
    by (auto simp: mmgr_run_granted_def)
  with p lt0 show ?thesis by (rule that)
qed

text \<open>Giving the run back restores the bitmap and the counter.\<close>

lemma mmgr_free_run:
  assumes "mmgr_run_granted b sz s s'" and "bm_wf (mmgr_memory_map s)" and "b < 2 ^ 26" and "b \<noteq> 0"
  shows "mmgr_free_size_blocks (of_nat b * 4096) sz s' = Inr s"
proof -
  have len: "length (mmgr_memory_map s') = length (mmgr_memory_map s)"
    using assms(1) by (simp add: mmgr_run_granted_def)
  have "\<forall>i\<in>set [0..<nat sz]. (b + i) div 64 < length (mmgr_memory_map s')"
    using assms(1) by (simp add: mmgr_run_granted_def)
  then obtain m where m: "rfold (\<lambda>i m. bm_unset_block m (int (b + i))) [0..<nat sz] (mmgr_memory_map s') = Inr m"
    using bm_unset_blocks_total by blast
  have "m = mmgr_memory_map s"
  proof (rule bm_ext)
    show "length m = length (mmgr_memory_map s)" "bm_wf m"
      using bm_unset_blocks [OF m] assms(1) by (auto simp: mmgr_run_granted_def)
    fix c
    have "\<not> same_slot (b + k) c" if "bm_used (mmgr_memory_map s) c" "k < nat sz" for k
      using that assms(1) unfolding mmgr_run_granted_def by (metis bm_used_same_slot)
    then show "bm_used m c \<longleftrightarrow> bm_used (mmgr_memory_map s) c"
      using bm_unset_blocks [OF m] assms(1) by (auto simp: mmgr_run_granted_def)
  qed fact
  moreover obtain m1 where
    "s' = s\<lparr>mmgr_memory_map := m1, mmgr_used_blocks := mmgr_used_blocks s + u64_of_int sz\<rparr>"
    using assms(1) unfolding mmgr_run_granted_def by blast
  ultimately have "s'\<lparr>mmgr_memory_map := m, mmgr_used_blocks := mmgr_used_blocks s' - u64_of_int sz\<rparr> = s"
    by simp
  with m assms(3,4) show ?thesis
    by (simp add: mmgr_free_size_blocks_def BLOCK_SIZE_def block_addr_eq_0 block_addr_div int_of_block
        mmgr_unset_run del: of_nat_add)
qed

section \<open>Boot\<close>

text \<open>What the loops of the boot code do to the bitmap and the counters.\<close>

lemma mmgr_reserve_Inr:
  "mmgr_reserve i s = Inr t \<longleftrightarrow> i div 64 < length (mmgr_memory_map s) \<and> t = mmgr_grant i s"
  by (auto simp: mmgr_reserve_def mmgr_set_block_Inr mmgr_grant_def rbind_eq_Inr_iff)

lemma mmgr_grant_simps [simp]:
  "length (mmgr_memory_map (mmgr_grant b s)) = length (mmgr_memory_map s)"
  "mmgr_max_blocks (mmgr_grant b s) = mmgr_max_blocks s"
  "mmgr_used_blocks (mmgr_grant b s) = mmgr_used_blocks s + 1"
  "sys_usable_memory (mmgr_grant b s) = sys_usable_memory s"
  "usable_mem_counter (mmgr_grant b s) = usable_mem_counter s"
  by (simp_all add: mmgr_grant_def)

definition same_layout :: "mmgr_state \<Rightarrow> mmgr_state \<Rightarrow> bool" where
  "same_layout s t \<longleftrightarrow>
     length (mmgr_memory_map t) = length (mmgr_memory_map s) \<and>
     mmgr_max_blocks t = mmgr_max_blocks s \<and>
     sys_usable_memory t = sys_usable_memory s \<and> usable_mem_counter t = usable_mem_counter s"

lemma same_layout_trans: "same_layout r s \<Longrightarrow> same_layout s t \<Longrightarrow> same_layout r t"
  by (simp add: same_layout_def)

lemma mmgr_reserve_loop:
  "rfold mmgr_reserve xs s = Inr t \<Longrightarrow>
     same_layout s t \<and> mmgr_used_blocks t = mmgr_used_blocks s + of_nat (length xs) \<and>
     (\<forall>c. bm_used (mmgr_memory_map t) c \<longleftrightarrow>
          bm_used (mmgr_memory_map s) c \<or> (\<exists>i\<in>set xs. same_slot i c))"
proof (induction xs arbitrary: s)
  case (Cons x xs)
  from Cons.prems have x: "x div 64 < length (mmgr_memory_map s)"
    and r: "rfold mmgr_reserve xs (mmgr_grant x s) = Inr t"
    by (auto simp: mmgr_reserve_Inr rbind_eq_Inr_iff)
  from Cons.IH [OF r] show ?case using x by (auto simp: mmgr_grant_used same_layout_def)
qed (simp add: same_layout_def)

lemma mmgr_reserve_loop_total:
  "\<forall>i\<in>set xs. i div 64 < length (mmgr_memory_map s) \<Longrightarrow> \<exists>t. rfold mmgr_reserve xs s = Inr t"
  using rfold_total [where P = "\<lambda>t. length (mmgr_memory_map t) = length (mmgr_memory_map s)"
      and xs = xs and s = s and f = mmgr_reserve]
  by (auto simp: mmgr_reserve_Inr)

lemma init_loop_layout:
  "init_loop n b s = Inr t \<Longrightarrow> same_layout s t \<and> mmgr_used_blocks t = mmgr_used_blocks s - of_nat n"
proof (induction n arbitrary: b s)
  case (Suc n)
  from Suc.prems obtain s1 where a: "mmgr_unset_block (int_of_u64 b) s = Inr s1"
    and r: "init_loop n (b + 1) (s1\<lparr>mmgr_used_blocks := mmgr_used_blocks s1 - 1\<rparr>) = Inr t" by auto
  from a have "same_layout s s1 \<and> mmgr_used_blocks s1 = mmgr_used_blocks s"
    by (auto simp: mmgr_unset_block_def bm_unset_block_def same_layout_def arr_set_Inr_iff)
  with Suc.IH [OF r] show ?case by (auto simp: same_layout_def)
qed (simp add: same_layout_def)

lemma init_loop_total:
  "unat b + n \<le> 64 * length (mmgr_memory_map s) \<Longrightarrow> length (mmgr_memory_map s) \<le> 2 ^ 20 \<Longrightarrow>
     \<exists>t. init_loop n b s = Inr t"
proof (induction n arbitrary: b s)
  case (Suc n)
  have lt: "unat b < 2 ^ 26" using Suc.prems by simp
  then have b: "int_of_u64 b = int (unat b)" by (intro int_of_u64_small) simp
  have b1: "unat (b + 1) = unat b + 1"
    using lt by (subst unat_add_lem [THEN iffD1]) simp_all
  have "unat b div 64 < length (mmgr_memory_map s)"
    using Suc.prems(1) by (intro less_mult_imp_div_less) simp
  then obtain s1 where a: "mmgr_unset_block (int (unat b)) s = Inr s1"
    and len: "length (mmgr_memory_map s1) = length (mmgr_memory_map s)"
    unfolding mmgr_unset_block_Inr by simp
  have "\<exists>t. init_loop n (b + 1) (s1\<lparr>mmgr_used_blocks := mmgr_used_blocks s1 - 1\<rparr>) = Inr t"
    using Suc.prems b1 len by (intro Suc.IH) simp_all
  with a b show ?case by simp
qed simp

lemma mm_phy_entry_map:
  "mm_phy_entry e s = Inr t \<Longrightarrow>
     mmgr_memory_map t = mmgr_memory_map s \<and>
     length (sys_usable_memory t) = length (sys_usable_memory s)"
  by (auto simp: mm_phy_entry_def Let_def arr_set_Inr_iff split: if_splits)

lemma mm_phy_scan_loop:
  assumes "rfold (mm_phy_scan mem i) xs s = Inr t"
  shows "mmgr_memory_map t = mmgr_memory_map s"
  by (rule rfold_invariant [OF assms, where P = "\<lambda>t. mmgr_memory_map t = mmgr_memory_map s"])
     (auto simp: mm_phy_scan_def dest: mm_phy_entry_map)

definition usable_region_blocks :: "mmgr_state \<Rightarrow> nat list \<Rightarrow> u64" where
  "usable_region_blocks s ks =
     of_nat (\<Sum>k\<leftarrow>ks. unat (smap_length (sys_usable_memory s ! k) div BLOCK_SIZE))"

lemma init_usable_Inr:
  "init_usable k s = Inr t \<Longrightarrow>
     init_loop (unat (smap_length (sys_usable_memory s ! k) div BLOCK_SIZE))
       (smap_base (sys_usable_memory s ! k) div BLOCK_SIZE) s = Inr t"
  by (auto simp: init_usable_def mmgr_phy_init_regions_def arr_get_Inr_iff)

lemma mm_phy_count_simps [simp]:
  "mmgr_memory_map (mm_phy_count s) = mmgr_memory_map s"
  "sys_usable_memory (mm_phy_count s) = sys_usable_memory s"
  "usable_mem_counter (mm_phy_count s) = usable_mem_counter s"
  "mmgr_used_blocks (mm_phy_count s) = mmgr_max_blocks (mm_phy_count s)"
  "mmgr_max_blocks (mm_phy_count s) = mmgr_usable_memory_size s div 4096"
  by (simp_all add: mm_phy_count_def BLOCK_SIZE_def)

lemma init_regions_loop:
  "rfold init_usable ks s = Inr t \<Longrightarrow>
     same_layout s t \<and> mmgr_used_blocks t = mmgr_used_blocks s - usable_region_blocks s ks"
proof (induction ks arbitrary: s)
  case (Cons k ks)
  let ?e = "sys_usable_memory s ! k"
  let ?n = "unat (smap_length ?e div BLOCK_SIZE)"
  from Cons.prems obtain s1 where a: "init_loop ?n (smap_base ?e div BLOCK_SIZE) s = Inr s1"
    and r: "rfold init_usable ks s1 = Inr t"
    by (auto dest: init_usable_Inr)
  from init_loop_layout [OF a] have s1: "same_layout s s1"
    "mmgr_used_blocks s1 = mmgr_used_blocks s - of_nat ?n" by auto
  moreover have "usable_region_blocks s1 ks = usable_region_blocks s ks"
    using s1(1) by (simp add: usable_region_blocks_def same_layout_def)
  ultimately show ?case using Cons.IH [OF r]
    by (auto simp: usable_region_blocks_def intro: same_layout_trans)
qed (simp add: same_layout_def usable_region_blocks_def)

text \<open>The state the boot code leaves behind.\<close>

lemma mm_phy_initD:
  assumes "mm_phy_init mem s = Inr t"
  shows "length (mmgr_memory_map t) = length (mmgr_memory_map s)"
    and "c < 1024 \<Longrightarrow> bm_used (mmgr_memory_map t) c"
    and "get_total_usable_blocks t =
           usable_region_blocks t [0..<unat (usable_mem_counter t)] - 1024"
proof -
  from assms obtain i and len :: u32 and s1 m s3 where
    1: "rfold (mm_phy_scan mem i) [0..<(unat len + 19) div 20] s = Inr s1"
    and m: "memset_u64 (mmgr_memory_map s1) 0xF (ucast (mmgr_max_blocks (mm_phy_count s1) div 64)) = Inr m"
    and 3: "rfold init_usable [0..<unat (usable_mem_counter s1)] ((mm_phy_count s1)\<lparr>mmgr_memory_map := m\<rparr>) = Inr s3"
    and 4: "rfold mmgr_reserve [0..<1024] s3 = Inr t"
    by (auto simp: mm_phy_init_def Let_def)
  define s2 where "s2 = (mm_phy_count s1)\<lparr>mmgr_memory_map := m\<rparr>"
  have s2: "mmgr_max_blocks s2 = mmgr_used_blocks s2"
      "length (mmgr_memory_map s2) = length (mmgr_memory_map s1)"
      "usable_mem_counter s2 = usable_mem_counter s1"
    using memset_u64_length [OF m] by (simp_all add: s2_def)
  note 3 = 3 [folded s2_def s2(3)]
  note l = mm_phy_scan_loop [OF 1] init_regions_loop [OF 3] mmgr_reserve_loop [OF 4]
  show "length (mmgr_memory_map t) = length (mmgr_memory_map s)"
    using l s2 by (simp add: same_layout_def)
  show "bm_used (mmgr_memory_map t) c" if "c < 1024"
    using l(3) that same_slot_refl by (metis atLeastLessThan_iff set_upt zero_le)
  have "same_layout s2 t" using l by (auto intro: same_layout_trans)
  then have "usable_region_blocks t [0..<unat (usable_mem_counter t)] =
      usable_region_blocks s2 [0..<unat (usable_mem_counter s2)]" "mmgr_max_blocks t = mmgr_max_blocks s2"
    by (simp_all add: usable_region_blocks_def same_layout_def)
  moreover have "mmgr_used_blocks t =
      mmgr_used_blocks s2 - usable_region_blocks s2 [0..<unat (usable_mem_counter s2)] + 1024"
    using l by simp
  ultimately show "get_total_usable_blocks t =
           usable_region_blocks t [0..<unat (usable_mem_counter t)] - 1024"
    using s2(1) by (simp add: get_total_usable_blocks_def get_total_blocks_def get_used_blocks_def)
qed

text \<open>Boot succeeds when the memory map is readable and its regions lie below the bitmap's end.\<close>

lemma mm_phy_init_total:
  assumes "find_module mem 0 = Inr i" and "i + 1 < length mem"
    and scan: "rfold (mm_phy_scan mem i) [0..<(unat (mem ! (i + 1)) + 19) div 20] s = Inr s1"
    and len: "length (mmgr_memory_map s) = 1200"
    and cnt: "unat (usable_mem_counter s1) \<le> length (sys_usable_memory s1)"
    and max: "unat (mmgr_usable_memory_size s1 div 4096) \<le> 76800"
    and fits: "\<And>k. k < unat (usable_mem_counter s1) \<Longrightarrow>
       unat (smap_base (sys_usable_memory s1 ! k) div 4096) +
       unat (smap_length (sys_usable_memory s1 ! k) div 4096) \<le> 76800"
  shows "\<exists>t. mm_phy_init mem s = Inr t \<and> mmgr_max_blocks t = mmgr_usable_memory_size s1 div 4096"
proof -
  let ?M = "mmgr_usable_memory_size s1 div 4096"
  have n: "unat (ucast (?M div 64) :: u32) \<le> 8 * length (mmgr_memory_map s1)"
  proof -
    have "unat (ucast (?M div 64) :: u32) \<le> unat (?M div 64)"
      by (simp add: unsigned_ucast_eq)
    also have "\<dots> \<le> 1200" using max by (simp add: unat_div)
    finally show ?thesis using len mm_phy_scan_loop [OF scan] by simp
  qed
  then obtain m where m: "memset_u64 (mmgr_memory_map s1) 0xF (ucast (?M div 64)) = Inr m"
    using memset_u64_total by blast
  define s2 where "s2 = (mm_phy_count s1)\<lparr>mmgr_memory_map := m\<rparr>"
  have lm: "length m = 1200" using memset_u64_length [OF m] len mm_phy_scan_loop [OF scan] by simp
  have s2: "sys_usable_memory s2 = sys_usable_memory s1" "mmgr_max_blocks s2 = ?M"
      "usable_mem_counter s2 = usable_mem_counter s1" "mmgr_memory_map s2 = m"
    by (simp_all add: s2_def)
  have step: "\<exists>t. init_usable k s = Inr t \<and> same_layout s2 t"
    if k: "k \<in> set [0..<unat (usable_mem_counter s1)]" and s: "same_layout s2 s" for k s
  proof -
    have "\<exists>t. init_usable k s = Inr t"
      using fits [of k] cnt lm k s init_loop_total
      by (simp add: same_layout_def s2 init_usable_def mmgr_phy_init_regions_def BLOCK_SIZE_def)
    then obtain t where t: "init_usable k s = Inr t" ..
    then have "same_layout s t"
      by (auto dest: init_usable_Inr init_loop_layout)
    with t s show ?thesis by (blast intro: same_layout_trans)
  qed
  have "\<exists>t. rfold init_usable [0..<unat (usable_mem_counter s1)] s2 = Inr t \<and> same_layout s2 t"
    by (rule rfold_total [OF _ step]) (simp_all add: same_layout_def)
  then obtain s3 where s3: "rfold init_usable [0..<unat (usable_mem_counter s1)] s2 = Inr s3" "same_layout s2 s3"
    by blast
  have "\<forall>i\<in>set [0..<1024]. i div 64 < length (mmgr_memory_map s3)"
    using s3(2) lm by (auto simp: same_layout_def s2 intro: le_less_trans [OF div_le_dividend])
  then obtain t where t: "rfold mmgr_reserve [0..<1024] s3 = Inr t"
    using mmgr_reserve_loop_total by blast
  have "mmgr_max_blocks t = ?M"
    using mmgr_reserve_loop [OF t] s3(2) by (simp add: same_layout_def s2)
  moreover have "mm_phy_init mem s = Inr t"
    using assms(1,2) scan m s3(1) t
    by (simp add: mm_phy_init_def Let_def s2_def del: of_nat_Suc of_nat_add)
  ultimately show ?thesis by blast
qed

lemma mm_phy_init_inv:
  assumes "mm_phy_init mem mmgr_boot = Inr s" and "unat (mmgr_max_blocks s) \<le> 76800"
  shows "mmgr_inv s"
  using mm_phy_initD(1,2) [OF assms(1)] assms(2) by (simp add: mmgr_inv_def mmgr_boot_def unat_div)

text \<open>A frame is below the end of memory.\<close>

lemma least_free_lt: "least_free m tot b \<Longrightarrow> b < unat tot"
proof -
  assume "least_free m tot b"
  then have "b div 64 < unat tot div 64" by (simp add: least_free_def unat_div)
  then show ?thesis by (meson div_le_mono leD leI)
qed

lemma least_free_addr: "least_free m tot b \<Longrightarrow> unat (of_nat b * 4096 :: u64) = b * 4096"
  by (rule unat_block_addr) (rule least_freeD)

lemma mmgr_seq_bounds:
  assumes inv: "mmgr_inv s" and "alloc_seq mmgr_alloc_block n s = Inr (t, ps)" and "p \<in> set ps"
  shows "4096 dvd unat p \<and> unat p < 4096 * unat (mmgr_max_blocks s)"
proof (rule mm.seq_all [where J = "\<lambda>t. mmgr_max_blocks t = mmgr_max_blocks s", OF _ inv refl assms(2,3)])
  fix u u' q
  assume u: "mmgr_inv u" "mmgr_max_blocks u = mmgr_max_blocks s" and a: "mmgr_alloc_block u = Inr (u', q)"
  show "mmgr_max_blocks u' = mmgr_max_blocks s \<and>
      (u' \<noteq> u \<longrightarrow> 4096 dvd unat q \<and> unat q < 4096 * unat (mmgr_max_blocks s))"
    by (rule mmgr_alloc_blockE [OF a mmgr_inv_len [OF u(1)]])
       (use u(2) in \<open>auto simp: least_free_addr dest: least_free_lt\<close>)
qed

text \<open>The manager can hand out \<open>n\<close> more frames.\<close>

primrec mmgr_supply :: "nat \<Rightarrow> mmgr_state \<Rightarrow> bool" where
  "mmgr_supply 0 s \<longleftrightarrow> True"
| "mmgr_supply (Suc n) s \<longleftrightarrow>
     (case mmgr_alloc_block s of Inl _ \<Rightarrow> False | Inr (s', p) \<Rightarrow> p \<noteq> 0 \<and> mmgr_supply n s')"

lemma mmgr_supply_mono: "mmgr_supply n s \<Longrightarrow> k \<le> n \<Longrightarrow> mmgr_supply k s"
proof (induction n arbitrary: k s)
  case (Suc n)
  then show ?case by (cases k) (auto split: sum.splits)
qed simp

text \<open>The slots not yet in use are all supplied, in order.\<close>

lemma mmgr_supply_slots:
  "mmgr_inv s \<Longrightarrow> first_slots k (mmgr_memory_map s) \<Longrightarrow> mmgr_used_blocks s = of_nat k \<Longrightarrow>
     0 < k \<Longrightarrow> k + n \<le> 32 * unat (mmgr_max_blocks s div 64) \<Longrightarrow> mmgr_supply n s"
proof (induction n arbitrary: k s)
  case (Suc n)
  let ?m = "mmgr_memory_map s" and ?max = "mmgr_max_blocks s"
  have m: "length ?m = 1200" "unat (?max div 64) \<le> 1200" using Suc.prems(1) by (auto simp: mmgr_inv_def)
  have least: "least_free ?m ?max (slot_block k)"
    using first_slots_least [OF Suc.prems(2), of ?max] Suc.prems(5) m by simp
  have "k < unat ?max"
    using Suc.prems(5) div_times_less_eq_dividend [of "unat ?max" 64] by (simp add: unat_div)
  moreover have "unat (of_nat k :: u64) = k" using Suc.prems(5) m by (intro unat_block) simp
  ultimately have "(of_nat k :: u64) \<noteq> ?max" by auto
  then have usable: "get_total_usable_blocks s \<noteq> 0"
    using Suc.prems(3)
    by (simp add: get_total_usable_blocks_def get_total_blocks_def get_used_blocks_def)
  obtain s' p where a: "mmgr_alloc_block s = Inr (s', p)" using mmgr_alloc_total [OF Suc.prems(1)] by blast
  have "mmgr_get_first_free s \<noteq> Inr (-1)"
    using bm_scan_finds [of 0 "slot_block k" "unat (?max div 64)" ?m] least
    by (auto simp: mmgr_get_first_free_def get_total_blocks_def bm_get_first_free_def least_free_def)
  with a usable obtain b where b: "s' = mmgr_grant b s" "p = of_nat b * 4096" "least_free ?m ?max b"
    using mmgr_alloc_blockE [OF a mmgr_inv_len [OF Suc.prems(1)]] by metis
  have eq: "b = slot_block k" using least_free_unique [OF b(3) least] .
  have "b \<noteq> 0" using Suc.prems(1) least_freeD(3) [OF b(3)] by (metis mmgr_inv_def)
  then have "p \<noteq> 0" using b(2) block_addr_eq_0 [OF least_freeD(2) [OF b(3)]] by simp
  moreover have "mmgr_supply n s'"
  proof (rule Suc.IH)
    show "mmgr_inv s'" using mmgr_grant_inv [OF Suc.prems(1) least_freeD(1) [OF b(3)]] b(1) by simp
    show "first_slots (Suc k) (mmgr_memory_map s')"
      using first_slots_grant [OF Suc.prems(2)] mmgr_grant_used [OF least_freeD(1) [OF b(3)]] eq b(1) by simp
  qed (use Suc.prems b(1) in simp_all)
  ultimately show ?case using a by simp
qed simp

text \<open>A manager with frame 0 reserved and nothing else in use.\<close>

definition example_mgr :: "u64 \<Rightarrow> mmgr_state" where
  "example_mgr max_blocks = mmgr_grant 0 (mmgr_boot\<lparr>mmgr_max_blocks := max_blocks\<rparr>)"

lemma example_mgr_simps [simp]:
  "mmgr_max_blocks (example_mgr n) = n" "mmgr_used_blocks (example_mgr n) = 1"
  by (simp_all add: example_mgr_def) (simp_all add: mmgr_boot_def)

lemma example_mgr_map: "mmgr_memory_map (example_mgr n) = (replicate 1200 0)[0 := shl1_u64 0]"
  by (simp add: example_mgr_def mmgr_grant_def mmgr_boot_def)

lemma example_mgr_inv: "unat (n div 64) \<le> 1200 \<Longrightarrow> mmgr_inv (example_mgr n)"
  by (simp add: mmgr_inv_def mmgr_grant_used example_mgr_def mmgr_boot_def)

lemma example_mgr_used: "mmgr_used (example_mgr n) p \<longleftrightarrow> same_slot 0 (unat p div 4096)"
proof -
  have "\<not> bm_used (replicate 1200 0) c" for c by (simp add: bm_used_def)
  then show ?thesis by (simp add: mmgr_used_def example_mgr_def mmgr_grant_used mmgr_boot_def)
qed

lemma example_mgr_supply:
  assumes "unat (n div 64) \<le> 1200" and "k + 1 \<le> 32 * unat (n div 64)"
  shows "mmgr_supply k (example_mgr n)"
proof (rule mmgr_supply_slots [of _ 1])
  have "slot_block 0 = 0" by (simp add: slot_block_def)
  then show "first_slots 1 (mmgr_memory_map (example_mgr n))"
    using first_slots_grant [of 0 "mmgr_memory_map (mmgr_boot\<lparr>mmgr_max_blocks := n\<rparr>)"
        "mmgr_memory_map (example_mgr n)"] mmgr_grant_used [of 0 "mmgr_boot\<lparr>mmgr_max_blocks := n\<rparr>"]
    by (simp add: example_mgr_def first_slots_def bm_used_def mmgr_boot_def)
qed (use assms example_mgr_inv in \<open>simp_all add: example_mgr_def mmgr_boot_def\<close>)

text \<open>A boot record with one usable region of 8 MB, used in the examples below.\<close>

definition example_modules :: "u32 list" where
  "example_modules = [0x9001, 20, 0, 0, 0x800000, 0, 1]"

lemma mmgr_boot_simps [simp]:
  "sys_total_memory mmgr_boot = replicate 10 smap_zero" "total_mem_counter mmgr_boot = 0"
  "sys_usable_memory mmgr_boot = replicate 10 smap_zero" "usable_mem_counter mmgr_boot = 0"
  "mmgr_usable_memory_size mmgr_boot = 0" "length (mmgr_memory_map mmgr_boot) = 1200"
  by (simp_all add: mmgr_boot_def)

lemma example_modules_boot:
  "\<exists>s. mm_phy_init example_modules mmgr_boot = Inr s \<and> mmgr_max_blocks s = 2048"
proof -
  define e where "e = \<lparr>smap_base = 0, smap_length = 0x800000, smap_type = 1\<rparr>"
  define s1 where "s1 = mmgr_boot
    \<lparr>sys_total_memory := (replicate 10 smap_zero)[0 := e], mmgr_usable_memory_size := 0x800000,
     sys_usable_memory := (replicate 10 smap_zero)[0 := e], usable_mem_counter := 1,
     total_mem_counter := 1\<rparr>"
  have find: "find_module example_modules 0 = Inr 0"
    by (simp add: find_module.simps example_modules_def)
  have "read_smap example_modules (0 + 2 + 5 * 0) = Inr e"
    by (simp add: example_modules_def read_smap_def arr_get_def u64_of_u32s_def e_def)
  then have "mm_phy_scan example_modules 0 0 mmgr_boot = Inr s1"
    by (simp add: mm_phy_scan_def mm_phy_entry_def arr_set_def s1_def MM_PHY_USABLE_def)
       (simp add: e_def arr_set_def)
  then have scan: "rfold (mm_phy_scan example_modules 0)
      [0..<(unat (example_modules ! (0 + 1)) + 19) div 20] mmgr_boot = Inr s1"
    by (simp add: example_modules_def)
  have "\<exists>t. mm_phy_init example_modules mmgr_boot = Inr t \<and>
      mmgr_max_blocks t = mmgr_usable_memory_size s1 div 4096"
    by (rule mm_phy_init_total [OF find _ scan]) (auto simp: example_modules_def s1_def e_def)
  then show ?thesis by (simp add: s1_def)
qed

section \<open>Properties\<close>

text \<open>
  C1. After \<open>mm_phy_init\<close> on any memory map of at most 300 MB of usable memory, any number of calls of
  \<open>mmgr_alloc_block\<close> returns without a fault, never hands out the same frame twice, and hands out
  page-aligned frames between 4 MB (the part reserved for the kernel) and the end of memory.
\<close>

theorem mmgr_boot_frames:
  assumes "mm_phy_init mem mmgr_boot = Inr s" and "unat (mmgr_max_blocks s) \<le> 76800"
  shows "\<exists>t ps. alloc_seq mmgr_alloc_block n s = Inr (t, ps) \<and> distinct ps \<and>
    (\<forall>p\<in>set ps. 4096 dvd unat p \<and> 0x400000 \<le> unat p \<and> unat p < 4096 * unat (mmgr_max_blocks s))"
proof -
  note inv = mm_phy_init_inv [OF assms]
  obtain t ps where a: "alloc_seq mmgr_alloc_block n s = Inr (t, ps)" using mm.seq_total [OF inv] by blast
  have "0x400000 \<le> unat p" if "p \<in> set ps" for p
  proof -
    have "\<not> unat p div 4096 < 1024"
      using mm.seq_fresh [OF inv a that] mm_phy_initD(2) [OF assms(1)] by (auto simp: mmgr_used_def)
    then show ?thesis by simp
  qed
  with a mm.seq_distinct [OF inv a] mmgr_seq_bounds [OF inv a] show ?thesis by blast
qed

theorem mmgr_boot_frames_witness:
  "\<exists>s t ps. mm_phy_init example_modules mmgr_boot = Inr s \<and>
     alloc_seq mmgr_alloc_block 3 s = Inr (t, ps) \<and> distinct ps \<and> (\<forall>p\<in>set ps. 0x400000 \<le> unat p)"
proof -
  obtain s where s: "mm_phy_init example_modules mmgr_boot = Inr s" "mmgr_max_blocks s = 2048"
    using example_modules_boot by blast
  with mmgr_boot_frames [OF s(1), of 3] show ?thesis by auto
qed

text \<open>
  C2. Whatever the number of frames allocated, freeing them in the opposite order with
  \<open>mmgr_free_block\<close> brings the manager back to exactly the state before, bitmap and counters.
\<close>

theorem mmgr_alloc_free_roundtrip:
  assumes "mmgr_inv s"
  shows "\<exists>t ps. alloc_seq mmgr_alloc_block n s = Inr (t, ps) \<and> rfold mmgr_free_block (rev ps) t = Inr s"
  using mm.seq_total [OF assms] mm.seq_free [OF assms] by blast

lemma mmgr_inv_example: "mmgr_inv (example_mgr 128)"
  by (rule example_mgr_inv) simp

theorem mmgr_alloc_free_roundtrip_witness:
  "\<exists>t ps. alloc_seq mmgr_alloc_block 5 (example_mgr 128) = Inr (t, ps) \<and>
     rfold mmgr_free_block (rev ps) t = Inr (example_mgr 128)"
  by (rule mmgr_alloc_free_roundtrip) (rule mmgr_inv_example)

text \<open>
  \<open>mmgr_alloc_block\<close> returns NULL, changing nothing, only when the counters say that no block is
  left or every frame below the end of memory is in use; otherwise it returns the lowest frame not
  in use and marks its slot, and no other, as in use.
\<close>

theorem mmgr_alloc_block_spec:
  assumes "mmgr_inv s"
  shows "(\<exists>b. mmgr_alloc_block s = Inr (mmgr_grant b s, of_nat b * 4096) \<and> b \<noteq> 0 \<and>
           least_free (mmgr_memory_map s) (mmgr_max_blocks s) b \<and>
           (\<forall>c. bm_used (mmgr_memory_map (mmgr_grant b s)) c \<longleftrightarrow>
                bm_used (mmgr_memory_map s) c \<or> same_slot b c)) \<or>
         mmgr_alloc_block s = Inr (s, 0) \<and>
           (get_total_usable_blocks s = 0 \<or>
            (\<forall>c. c div 64 < unat (mmgr_max_blocks s div 64) \<longrightarrow> bm_used (mmgr_memory_map s) c))"
proof -
  obtain s' p where a: "mmgr_alloc_block s = Inr (s', p)" using mmgr_alloc_total [OF assms] by blast
  from a mmgr_inv_len [OF assms] show ?thesis
  proof (cases rule: mmgr_alloc_blockE)
    case none
    have "bm_used (mmgr_memory_map s) c" if "mmgr_get_first_free s = Inr (-1)"
        "c div 64 < unat (mmgr_max_blocks s div 64)" for c
      using bm_get_first_free_full that by (simp add: mmgr_get_first_free_def get_total_blocks_def)
    with a none show ?thesis by auto
  next
    case (some b)
    moreover have "b \<noteq> 0" using assms least_freeD(3) [OF some(3)] by (metis mmgr_inv_def)
    ultimately show ?thesis using a mmgr_grant_used least_freeD(1) [OF some(3)] by blast
  qed
qed

theorem mmgr_alloc_block_spec_witness:
  "\<exists>b. mmgr_alloc_block (example_mgr 128) =
         Inr (mmgr_grant b (example_mgr 128), of_nat b * 4096) \<and> b \<noteq> 0"
proof -
  let ?s = "example_mgr 128"
  have "get_total_usable_blocks ?s \<noteq> 0"
    by (simp add: get_total_usable_blocks_def get_total_blocks_def get_used_blocks_def)
  moreover have "\<not> bm_used (mmgr_memory_map ?s) 1"
    using example_mgr_used [of 128 4096] by (simp add: mmgr_used_def same_slot_def)
  moreover have "1 div 64 < unat (mmgr_max_blocks ?s div 64)" by simp
  ultimately show ?thesis using mmgr_alloc_block_spec [OF mmgr_inv_example] by blast
qed

text \<open>
  C17. A successful request for \<open>sz\<close> consecutive frames (\<open>mmgr_alloc_size_blocks\<close>) returns the address
  of \<open>sz\<close> frames none of which was in use, marks exactly their slots, and
  \<open>mmgr_free_size_blocks\<close> on the result restores the state.
\<close>

theorem mmgr_run_roundtrip:
  assumes "mmgr_inv s" and "bm_wf (mmgr_memory_map s)" and "0 < sz" and "sz < 2 ^ 31"
    and "mmgr_alloc_size_blocks sz s = Inr (s', p)" and "p \<noteq> 0"
  shows "(\<exists>b. p = of_nat b * 4096 \<and> mmgr_run_granted b sz s s') \<and> mmgr_free_size_blocks p sz s' = Inr s"
proof -
  obtain b where b: "p = of_nat b * 4096" "b < 2 ^ 26" "mmgr_run_granted b sz s s'"
    using assms(5,6) mmgr_inv_len [OF assms(1)] assms(2-4) by (rule mmgr_alloc_sizeE)
  from b(1) assms(6) have "b \<noteq> 0" by (metis mult_zero_left of_nat_0)
  with b mmgr_free_run [OF b(3) assms(2) b(2)] show ?thesis by blast
qed

lemma mmgr_run_example:
  "\<exists>s'. mmgr_alloc_size_blocks 2 (example_mgr 128) = Inr (s', 4096)"
proof -
  let ?s = "example_mgr 128"
  define m where "m = (replicate 1200 0)[0 := (1 :: u64)]"
  have shl: "shl1_u64 0 = 1" "shl1_u64 1 = 2" "shl1_u64 2 = 4"
    by (simp_all add: shl1_u64_def int_shl1_def)
  have s: "mmgr_memory_map ?s = m" "mmgr_max_blocks ?s = 128" "mmgr_used_blocks ?s = 1"
    by (simp_all add: example_mgr_map m_def shl)
  have m: "arr_get m 0 = Inr 1" "length m = 1200" by (simp_all add: arr_get_def m_def)
  have run: "bm_run m 1 2 0 0 (Suc (Suc 0)) = Inr Found"
    by (simp add: bm_is_block_free_def m shl)
  have "bm_range_word m 1 0 2 0 = Inr (Some 1)"
    by (subst bm_range_word.simps, subst bm_range_word.simps)
       (use run in \<open>simp add: shl numeral_2_eq_2\<close>)
  then have "bm_range_scan m 2 0 (Suc 1) = Inr 1" by (simp add: m)
  moreover have "unat (128 div 64 :: u64) = Suc 1" "unat (word_of_int 2 :: u32) = 2" by simp_all
  ultimately have r: "mmgr_get_first_range_free 2 ?s = Inr 1"
    by (simp only: mmgr_get_first_range_free_def bm_get_first_range_free_def get_total_blocks_def s)
  have "\<exists>s'. rfold (\<lambda>i. mmgr_set_block (int_of_u64 (1 + of_nat i))) [0..<nat 2] ?s = Inr s'"
    using mmgr_set_run [of 2 1 ?s] bm_set_blocks_total [of "[0..<2]" 1 m] m(2) s(1)
    by (auto simp: upt_rec)
  then show ?thesis
    unfolding mmgr_alloc_size_blocks_def r
    by (auto simp: get_total_usable_blocks_def get_total_blocks_def get_used_blocks_def s(2,3)
        u64_of_int_def BLOCK_SIZE_def simp del: mmgr_grant_simps)
qed

theorem mmgr_run_roundtrip_witness:
  "\<exists>s'. mmgr_alloc_size_blocks 2 (example_mgr 128) = Inr (s', 4096) \<and>
     mmgr_free_size_blocks 4096 2 s' = Inr (example_mgr 128)"
proof -
  let ?s = "example_mgr 128"
  have "bm_wf (replicate 1200 0)" by (simp add: bm_wf_def)
  from bm_wf_set [OF this, of 0] have "bm_wf (mmgr_memory_map ?s)"
    by (simp add: example_mgr_map)
  moreover obtain s' where "mmgr_alloc_size_blocks 2 ?s = Inr (s', 4096)" using mmgr_run_example by blast
  ultimately show ?thesis using mmgr_run_roundtrip [of ?s 2 s' 4096] mmgr_inv_example by auto
qed

text \<open>
  After \<open>mm_phy_init\<close> the manager reports as usable exactly the blocks of the usable regions of
  the memory map, less the 1024 reserved for the kernel (counters are 64-bit and wrap).
\<close>

theorem mm_phy_init_accounting:
  assumes "mm_phy_init mem mmgr_boot = Inr s"
  shows "get_total_usable_blocks s =
    of_nat (\<Sum>k\<leftarrow>[0..<unat (usable_mem_counter s)].
              unat (smap_length (sys_usable_memory s ! k) div BLOCK_SIZE)) - 1024"
  using mm_phy_initD(3) [OF assms] by (simp add: usable_region_blocks_def)

theorem mm_phy_init_accounting_witness:
  "\<exists>s. mm_phy_init example_modules mmgr_boot = Inr s \<and>
     get_total_usable_blocks s =
     of_nat (\<Sum>k\<leftarrow>[0..<unat (usable_mem_counter s)].
              unat (smap_length (sys_usable_memory s ! k) div BLOCK_SIZE)) - 1024"
  using mm_phy_init_accounting [of example_modules] example_modules_boot by blast

text \<open>
  C37. A word of the bitmap tells 32 frames apart, not 64: marking frame \<open>b\<close> with \<open>b % 64 < 32\<close> marks
  frame \<open>b + 32\<close> too, and no frame of the upper half of a word is ever handed out by
  \<open>mmgr_alloc_block\<close>.
\<close>

theorem mmgr_half_of_memory:
  assumes "mmgr_inv s" and "mmgr_alloc_block s = Inr (s', p)" and "p \<noteq> 0"
  shows "(unat p div 4096) mod 64 < 32 \<and> mmgr_used s' p \<and> mmgr_used s' (p + 32 * 4096)"
proof -
  from assms(2) mmgr_inv_len [OF assms(1)] show ?thesis
  proof (cases rule: mmgr_alloc_blockE)
    case none
    with assms(3) show ?thesis by simp
  next
    case (some b)
    then have lt: "b < 2 ^ 26" "b mod 64 < 32" "b div 64 < 1200"
      using assms(1) by (auto simp: least_free_def mmgr_inv_def)
    from lt(3) have b32: "b + 32 < 2 ^ 26" by (simp add: div_less_iff_less_mult)
    have "p + 32 * 4096 = of_nat (b + 32) * 4096" using some(2) by simp
    moreover have "same_slot b (b + 32)"
      using lt(2) by (rule same_slot_add_32)
    ultimately show ?thesis
      using some lt b32 mmgr_grant_used [OF least_freeD(1) [OF some(3)]]
      by (simp add: mmgr_used_addr unat_block_addr del: of_nat_add)
  qed
qed

theorem mmgr_half_of_memory_witness:
  "\<exists>s'. mmgr_alloc_block (example_mgr 128) = Inr (s', 0x1000) \<and> mmgr_used s' 0x1000 \<and> mmgr_used s' 0x21000"
proof -
  have "case mmgr_alloc_block (example_mgr 128) of Inr (s', p) \<Rightarrow> p = 0x1000 | Inl _ \<Rightarrow> False" by code_simp
  then obtain s' where "mmgr_alloc_block (example_mgr 128) = Inr (s', 0x1000)" by (auto split: sum.splits prod.splits)
  with mmgr_half_of_memory [OF mmgr_inv_example this] show ?thesis by simp
qed

end
