(* ===== verification/Page_Entry.thy ===== *)
theory Page_Entry
  imports Prelude
begin

text \<open>
  The entries of the four levels of x86-64 page tables: \<open>sys/mm/vmmgr_pte.c\<close>, \<open>vmmgr_pde.c\<close>,
  \<open>vmmgr_pdpe.c\<close> and \<open>vmmgr_pml4.c\<close> with their headers. An entry is a \<open>uint64_t\<close>; an operation on a
  \<open>pt_entry *\<close> is a function from the old value to the new one. The tests return the enum \<open>bool\<close> of
  \<open>include/defs.h\<close>, 32 bits wide, and are true when not zero.
\<close>

section \<open>Flags\<close>

definition PTE_PRESENT :: u64 where
  "PTE_PRESENT = 1"

definition PTE_WRITABLE :: u64 where
  "PTE_WRITABLE = 2"

definition PTE_USER :: u64 where
  "PTE_USER = 4"

definition PTE_ACCESSED :: u64 where
  "PTE_ACCESSED = 0x20"

definition PTE_DIRTY :: u64 where
  "PTE_DIRTY = 0x40"

definition PTE_COW :: u64 where
  "PTE_COW = 0x4000000000000000"

definition PTE_FRAME :: u64 where
  "PTE_FRAME = 0x00000FFFFFFFF000"

definition PDE_PRESENT :: u64 where
  "PDE_PRESENT = 1"

definition PDE_WRITABLE :: u64 where
  "PDE_WRITABLE = 2"

definition PDE_USER :: u64 where
  "PDE_USER = 4"

definition PDE_4MB :: u64 where
  "PDE_4MB = 0x80"

definition PDE_FRAME :: u64 where
  "PDE_FRAME = 0x00000FFFFFFFF000"

definition PDPE_PRESENT :: u64 where
  "PDPE_PRESENT = 1"

definition PDPE_WRITABLE :: u64 where
  "PDPE_WRITABLE = 2"

definition PDPE_USER :: u64 where
  "PDPE_USER = 4"

definition PDPE_4MB :: u64 where
  "PDPE_4MB = 0x80"

definition PDPE_FRAME :: u64 where
  "PDPE_FRAME = 0x00000FFFFFFFF000"

definition PML4E_PRESENT :: u64 where
  "PML4E_PRESENT = 1"

definition PML4E_WRITABLE :: u64 where
  "PML4E_WRITABLE = 2"

definition PML4E_USER :: u64 where
  "PML4E_USER = 4"

definition PML4E_4MB :: u64 where
  "PML4E_4MB = 0x80"

definition PML4E_FRAME :: u64 where
  "PML4E_FRAME = 0x00000FFFFFFFF000"

section \<open>Operations\<close>

text \<open>\<open>pt_entry\<close>\<close>

definition pt_entry_add_attrib :: "u64 \<Rightarrow> u64 \<Rightarrow> u64" where
  "pt_entry_add_attrib e attrib = e OR attrib"

definition pt_entry_del_attrib :: "u64 \<Rightarrow> u64 \<Rightarrow> u64" where
  "pt_entry_del_attrib e attrib = e AND NOT attrib"

definition pt_entry_set_frame :: "u64 \<Rightarrow> u64 \<Rightarrow> u64" where
  "pt_entry_set_frame e addr = (e AND NOT PTE_FRAME) OR addr"

definition pt_entry_is_present :: "u64 \<Rightarrow> u32" where
  "pt_entry_is_present e = ucast (e AND PTE_PRESENT)"

definition pt_entry_is_writable :: "u64 \<Rightarrow> u32" where
  "pt_entry_is_writable e = ucast (e AND PTE_WRITABLE)"

definition pt_entry_pfn :: "u64 \<Rightarrow> u32" where
  "pt_entry_pfn e = ucast (e AND PTE_FRAME)"

definition pt_entry_is_user :: "u64 \<Rightarrow> u32" where
  "pt_entry_is_user e = ucast (e AND PTE_USER)"

definition pt_entry_is_accessed :: "u64 \<Rightarrow> u32" where
  "pt_entry_is_accessed e = ucast (e AND PTE_ACCESSED)"

definition pt_entry_is_dirty :: "u64 \<Rightarrow> u32" where
  "pt_entry_is_dirty e = ucast (e AND PTE_DIRTY)"

text \<open>\<open>pd_entry\<close>\<close>

definition pd_entry_add_attrib :: "u64 \<Rightarrow> u64 \<Rightarrow> u64" where
  "pd_entry_add_attrib e attrib = e OR attrib"

definition pd_entry_del_attrib :: "u64 \<Rightarrow> u64 \<Rightarrow> u64" where
  "pd_entry_del_attrib e attrib = e AND NOT attrib"

definition pd_entry_set_frame :: "u64 \<Rightarrow> u64 \<Rightarrow> u64" where
  "pd_entry_set_frame e addr = (e AND NOT PDE_FRAME) OR addr"

definition pd_entry_is_present :: "u64 \<Rightarrow> u32" where
  "pd_entry_is_present e = ucast (e AND PDE_PRESENT)"

definition pd_entry_is_writable :: "u64 \<Rightarrow> u32" where
  "pd_entry_is_writable e = ucast (e AND PDE_WRITABLE)"

definition pd_entry_pfn :: "u64 \<Rightarrow> u32" where
  "pd_entry_pfn e = ucast (e AND PDE_FRAME)"

definition pd_entry_is_user :: "u64 \<Rightarrow> u32" where
  "pd_entry_is_user e = ucast (e AND PDE_USER)"

definition pd_entry_is_4mb :: "u64 \<Rightarrow> u32" where
  "pd_entry_is_4mb e = ucast (e AND PDE_4MB)"

text \<open>\<open>pdpe_entry\<close>\<close>

definition pdpe_entry_add_attrib :: "u64 \<Rightarrow> u64 \<Rightarrow> u64" where
  "pdpe_entry_add_attrib e attrib = e OR attrib"

definition pdpe_entry_del_attrib :: "u64 \<Rightarrow> u64 \<Rightarrow> u64" where
  "pdpe_entry_del_attrib e attrib = e AND NOT attrib"

definition pdpe_entry_set_frame :: "u64 \<Rightarrow> u64 \<Rightarrow> u64" where
  "pdpe_entry_set_frame e addr = (e AND NOT PDPE_FRAME) OR addr"

definition pdpe_entry_is_present :: "u64 \<Rightarrow> u32" where
  "pdpe_entry_is_present e = ucast (e AND PDPE_PRESENT)"

definition pdpe_entry_is_writable :: "u64 \<Rightarrow> u32" where
  "pdpe_entry_is_writable e = ucast (e AND PDPE_WRITABLE)"

definition pdpe_entry_pfn :: "u64 \<Rightarrow> u32" where
  "pdpe_entry_pfn e = ucast (e AND PDPE_FRAME)"

definition pdpe_entry_is_user :: "u64 \<Rightarrow> u32" where
  "pdpe_entry_is_user e = ucast (e AND PDPE_USER)"

definition pdpe_entry_is_4mb :: "u64 \<Rightarrow> u32" where
  "pdpe_entry_is_4mb e = ucast (e AND PDPE_4MB)"

text \<open>\<open>pml4e_entry\<close>\<close>

definition pml4e_entry_add_attrib :: "u64 \<Rightarrow> u64 \<Rightarrow> u64" where
  "pml4e_entry_add_attrib e attrib = e OR attrib"

definition pml4e_entry_del_attrib :: "u64 \<Rightarrow> u64 \<Rightarrow> u64" where
  "pml4e_entry_del_attrib e attrib = e AND NOT attrib"

definition pml4e_entry_set_frame :: "u64 \<Rightarrow> u64 \<Rightarrow> u64" where
  "pml4e_entry_set_frame e addr = (e AND NOT PML4E_FRAME) OR addr"

definition pml4e_entry_is_present :: "u64 \<Rightarrow> u32" where
  "pml4e_entry_is_present e = ucast (e AND PML4E_PRESENT)"

definition pml4e_entry_is_writable :: "u64 \<Rightarrow> u32" where
  "pml4e_entry_is_writable e = ucast (e AND PML4E_WRITABLE)"

definition pml4e_entry_pfn :: "u64 \<Rightarrow> u32" where
  "pml4e_entry_pfn e = ucast (e AND PML4E_FRAME)"

definition pml4e_entry_is_user :: "u64 \<Rightarrow> u32" where
  "pml4e_entry_is_user e = ucast (e AND PML4E_USER)"

definition pml4e_entry_is_4mb :: "u64 \<Rightarrow> u32" where
  "pml4e_entry_is_4mb e = ucast (e AND PML4E_4MB)"

section \<open>Lemmas\<close>

text \<open>The four levels use the same bits for the same purpose.\<close>

lemmas FRAME_defs = PTE_FRAME_def PDE_FRAME_def PDPE_FRAME_def PML4E_FRAME_def
lemmas PRESENT_defs = PTE_PRESENT_def PDE_PRESENT_def PDPE_PRESENT_def PML4E_PRESENT_def
lemmas WRITABLE_defs = PTE_WRITABLE_def PDE_WRITABLE_def PDPE_WRITABLE_def PML4E_WRITABLE_def
lemmas USER_defs = PTE_USER_def PDE_USER_def PDPE_USER_def PML4E_USER_def

lemmas add_attrib_defs =
  pt_entry_add_attrib_def pd_entry_add_attrib_def pdpe_entry_add_attrib_def pml4e_entry_add_attrib_def
lemmas set_frame_defs =
  pt_entry_set_frame_def pd_entry_set_frame_def pdpe_entry_set_frame_def pml4e_entry_set_frame_def

lemma bit_FRAME: "bit (0x00000FFFFFFFF000 :: u64) k \<longleftrightarrow> 12 \<le> k \<and> k < 44"
proof -
  have "(0x00000FFFFFFFF000 :: u64) = push_bit 12 (mask 32)"
    by (simp add: mask_eq_exp_minus_1 push_bit_eq_mult)
  then show ?thesis by (simp only: bit_push_bit_iff bit_mask_iff possible_bit_word) auto
qed

lemma bit_NOT_FRAME: "bit (- 0x00000FFFFFFFF001 :: u64) k \<longleftrightarrow> k < 64 \<and> \<not> (12 \<le> k \<and> k < 44)"
proof -
  have *: "(- 0x00000FFFFFFFF001 :: u64) = NOT 0x00000FFFFFFFF000" by simp
  show ?thesis unfolding * bit_not_iff bit_FRAME possible_bit_word by simp
qed

lemma bit_low_flag:
  "bit (1 :: u64) k \<longleftrightarrow> k = 0" "bit (2 :: u64) k \<longleftrightarrow> k = 1" "bit (4 :: u64) k \<longleftrightarrow> k = 2"
  "bit (0x80 :: u64) k \<longleftrightarrow> k = 7"
proof -
  have *: "bit (2 ^ m :: u64) k \<longleftrightarrow> k < 64 \<and> k = m" for m by (auto simp: bit_exp_iff)
  show "bit (1 :: u64) k \<longleftrightarrow> k = 0" by (simp add: bit_1_iff)
  show "bit (2 :: u64) k \<longleftrightarrow> k = 1" "bit (4 :: u64) k \<longleftrightarrow> k = 2" "bit (0x80 :: u64) k \<longleftrightarrow> k = 7"
    using * [of 1] * [of 2] * [of 7] by auto
qed

lemma word_and_flag: "(e :: u64) AND 1 \<noteq> 0 \<longleftrightarrow> bit e 0" "e AND 2 \<noteq> 0 \<longleftrightarrow> bit e 1"
  "e AND 4 \<noteq> 0 \<longleftrightarrow> bit e 2" "e AND 0x80 \<noteq> 0 \<longleftrightarrow> bit e 7"
  unfolding word_and_eq_0_iff bit_low_flag by auto

lemma COW_bit: "bit PTE_COW k \<longleftrightarrow> k = 62"
proof -
  have *: "PTE_COW = push_bit 62 1" by (simp add: PTE_COW_def)
  show ?thesis unfolding * by (auto simp: bit_push_bit_iff bit_1_iff simp del: push_bit_of_1)
qed

text \<open>
  An address that fits the frame field: page aligned, below \<open>2 ^ 44\<close>. An entry whose bits 44 to 51
  are clear reads back, with the mask of \<open>PAGE_PHYSICAL_ADDRESS\<close>, what was put in the field.
\<close>

definition frame_addr :: "u64 \<Rightarrow> bool" where
  "frame_addr a \<longleftrightarrow> a AND 0x00000FFFFFFFF000 = a"

lemma frame_addr_bits: "frame_addr a \<Longrightarrow> bit a k \<Longrightarrow> 12 \<le> k \<and> k < 44"
  unfolding frame_addr_def by (metis bit_FRAME bit_and_iff)

lemma frame_addrI: "(\<And>k. bit a k \<Longrightarrow> 12 \<le> k \<and> k < 44) \<Longrightarrow> frame_addr a"
  unfolding frame_addr_def by (rule bit_word_eqI) (auto simp: bit_and_iff bit_FRAME)

end
