(* ===== verification/Virtual_Memory.thy ===== *)
theory Virtual_Memory
  imports Phys_Alloc Page_Entry
begin

text \<open>
  The virtual memory manager, \<open>sys/mm/vmmgr_virtual.c\<close>. Physical memory is a function from byte
  addresses to the 64-bit value stored there; page tables are read and written at multiples of 8
  only. While paging is being set up the code runs on physical addresses, so a C pointer is the
  index into that function, and a dereference of NULL is a fault. The frames come from
  \<open>mmgr_alloc_block\<close>. The addresses \<open>physbase\<close> and \<open>kphysfree\<close>, which the linker and the boot loader
  provide, are arguments.
\<close>

section \<open>State\<close>

record vm_state =
  phys_mem :: "u64 \<Rightarrow> u64"
  phys_mgr :: mmgr_state
  bump_addr :: u64
  bump_start :: u64
  kernel_pgd :: u64
  prev_no_pages :: u16
  cur_pml4_directory :: u64
  cur_pml4_base_pointer :: u64
  cr3 :: u64

text \<open>A load and a store through a pointer to a 64-bit entry.\<close>

definition load :: "u64 \<Rightarrow> vm_state \<Rightarrow> u64 res" where
  "load a s = (if a = 0 then Inl NullPointer else Inr (phys_mem s a))"

definition store :: "u64 \<Rightarrow> u64 \<Rightarrow> vm_state \<Rightarrow> vm_state res" where
  "store a v s = (if a = 0 then Inl NullPointer else Inr (s\<lparr>phys_mem := (phys_mem s)(a := v)\<rparr>))"

text \<open>\<open>memset(p, 0, 8 * n)\<close> on physical memory.\<close>

definition clear_qwords :: "u64 \<Rightarrow> nat \<Rightarrow> (u64 \<Rightarrow> u64) \<Rightarrow> (u64 \<Rightarrow> u64)" where
  "clear_qwords p n m = fold (\<lambda>k m. m(p + 8 * of_nat k := 0)) [0..<n] m"

section \<open>Indices and lookups\<close>

definition PAGE_TABLE_OFFSET :: "u64 \<Rightarrow> u64" where
  "PAGE_TABLE_OFFSET x = drop_bit 12 x AND 0x1FF"

definition PAGE_DIRECTORY_OFFSET :: "u64 \<Rightarrow> u64" where
  "PAGE_DIRECTORY_OFFSET x = drop_bit 21 x AND 0x1FF"

definition PAGE_POINTER_OFFSET :: "u64 \<Rightarrow> u64" where
  "PAGE_POINTER_OFFSET x = drop_bit 30 x AND 0x1FF"

definition PAGE_PML4_OFFSET :: "u64 \<Rightarrow> u64" where
  "PAGE_PML4_OFFSET x = drop_bit 39 x AND 0x1FF"

text \<open>The macro takes the entry's address; here it takes the entry.\<close>

definition PAGE_PHYSICAL_ADDRESS :: "u64 \<Rightarrow> u64" where
  "PAGE_PHYSICAL_ADDRESS e = e AND NOT 0xFFF0000000000FFF"

definition vmmgr_ptable_lookup_entry :: "u64 \<Rightarrow> u64 \<Rightarrow> u64" where
  "vmmgr_ptable_lookup_entry p addr = (if p \<noteq> 0 then p + 8 * PAGE_TABLE_OFFSET addr else 0)"

definition vmmgr_page_directory_lookup_entry :: "u64 \<Rightarrow> u64 \<Rightarrow> u64" where
  "vmmgr_page_directory_lookup_entry p addr = (if p \<noteq> 0 then p + 8 * PAGE_DIRECTORY_OFFSET addr else 0)"

definition vmmgr_page_pointer_directory_lookup_entry :: "u64 \<Rightarrow> u64 \<Rightarrow> u64" where
  "vmmgr_page_pointer_directory_lookup_entry p addr =
     (if p \<noteq> 0 then p + 8 * PAGE_POINTER_OFFSET addr else 0)"

definition vmmgr_pml4_directory_lookup_entry :: "u64 \<Rightarrow> u64 \<Rightarrow> u64" where
  "vmmgr_pml4_directory_lookup_entry p addr = (if p \<noteq> 0 then p + 8 * PAGE_PML4_OFFSET addr else 0)"

definition vmmgr_switch_pml4_directory :: "u64 \<Rightarrow> vm_state \<Rightarrow> vm_state res" where
  "vmmgr_switch_pml4_directory p s =
     (if p = 0 then Inl Halt else Inr (s\<lparr>cur_pml4_directory := p, cr3 := p\<rparr>))"

definition vmmgr_get_current_pml4_directory :: "vm_state \<Rightarrow> u64" where
  "vmmgr_get_current_pml4_directory s = cur_pml4_directory s"

section \<open>The bump allocator of virtual pages\<close>

definition VIRT_BASE :: u64 where
  "VIRT_BASE = 0xFFFFFFFF80000000"

definition init_bump_addr :: "u64 \<Rightarrow> vm_state \<Rightarrow> vm_state" where
  "init_bump_addr kphysfree s = s\<lparr>bump_addr := VIRT_BASE + kphysfree\<rparr>"

definition vmmgr_alloc_page :: "u16 \<Rightarrow> vm_state \<Rightarrow> vm_state \<times> u64" where
  "vmmgr_alloc_page page s =
     (let b = bump_addr s + 4096 + 4096 * ucast (prev_no_pages s)
      in (s\<lparr>bump_addr := b, prev_no_pages := page\<rparr>, b))"

section \<open>Filling an entry\<close>

definition set_pml4_entry_recurs :: "u64 \<Rightarrow> u64 \<Rightarrow> bool \<Rightarrow> u64" where
  "set_pml4_entry_recurs e dir is_user =
     (let e = pml4e_entry_add_attrib e PML4E_PRESENT;
          e = pml4e_entry_add_attrib e PML4E_WRITABLE;
          e = (if is_user then pml4e_entry_add_attrib e PML4E_USER else e)
      in pml4e_entry_set_frame e dir)"

definition set_page_entry :: "u64 \<Rightarrow> u64 \<Rightarrow> bool \<Rightarrow> u64" where
  "set_page_entry e phys is_user =
     (let e = pml4e_entry_add_attrib e PTE_PRESENT;
          e = pml4e_entry_add_attrib e PTE_WRITABLE;
          e = (if is_user then pml4e_entry_add_attrib e PTE_USER else e)
      in pml4e_entry_set_frame e phys)"

definition set_pml4_entry :: "u64 \<Rightarrow> u64 \<Rightarrow> bool \<Rightarrow> u64" where
  "set_pml4_entry e pdpe_dir is_user =
     (let e = pml4e_entry_add_attrib e PML4E_PRESENT;
          e = pml4e_entry_add_attrib e PML4E_WRITABLE;
          e = (if is_user then pml4e_entry_add_attrib e PML4E_USER else e)
      in pml4e_entry_set_frame e pdpe_dir)"

definition set_pdpe_entry :: "u64 \<Rightarrow> u64 \<Rightarrow> bool \<Rightarrow> u64" where
  "set_pdpe_entry e pde_dir is_user =
     (let e = pdpe_entry_add_attrib e PDPE_PRESENT;
          e = pdpe_entry_add_attrib e PDPE_WRITABLE;
          e = (if is_user then pdpe_entry_add_attrib e PDPE_USER else e)
      in pdpe_entry_set_frame e pde_dir)"

definition set_pde_entry :: "u64 \<Rightarrow> u64 \<Rightarrow> bool \<Rightarrow> u64" where
  "set_pde_entry e pte_dir is_user =
     (let e = pd_entry_add_attrib e PDE_PRESENT;
          e = pd_entry_add_attrib e PDE_WRITABLE;
          e = (if is_user then pd_entry_add_attrib e PDE_USER else e)
      in pd_entry_set_frame e pte_dir)"

section \<open>Addresses of entries through the recursive slot\<close>

definition RECURSIVE_ENTRY :: u64 where
  "RECURSIVE_ENTRY = 0xFFFFFF7FBFDFE000"

definition RECURSIVE_PAGE_TABLE_ENTRY :: u64 where
  "RECURSIVE_PAGE_TABLE_ENTRY = 0xFFFFFF0000000000"

definition RECURSIVE_PAGE_DIRECTORY_ENTRY :: u64 where
  "RECURSIVE_PAGE_DIRECTORY_ENTRY = 0xFFFFFF7F80000000"

definition RECURSIVE_PAGE_POINTER_ENTRY :: u64 where
  "RECURSIVE_PAGE_POINTER_ENTRY = 0xFFFFFF7FBFC00000"

definition get_pml4e_offset_recurse :: "u64 \<Rightarrow> u64" where
  "get_pml4e_offset_recurse virt = RECURSIVE_ENTRY + 8 * PAGE_PML4_OFFSET virt"

definition get_pdpe_offset_recurse :: "u64 \<Rightarrow> u64" where
  "get_pdpe_offset_recurse virt =
     (let pdpe_offset = drop_bit 12 RECURSIVE_PAGE_POINTER_ENTRY + PAGE_PML4_OFFSET virt
      in push_bit 12 pdpe_offset + 8 * PAGE_POINTER_OFFSET virt)"

definition get_pde_offset_recurse :: "u64 \<Rightarrow> u64" where
  "get_pde_offset_recurse virt =
     (let pde_offset = drop_bit 21 RECURSIVE_PAGE_DIRECTORY_ENTRY + PAGE_PML4_OFFSET virt;
          pde_offset = push_bit 21 pde_offset;
          pde_offset = drop_bit 12 pde_offset + PAGE_POINTER_OFFSET virt
      in push_bit 12 pde_offset + 8 * PAGE_DIRECTORY_OFFSET virt)"

definition get_pte_recurse :: "u64 \<Rightarrow> u64" where
  "get_pte_recurse virt =
     (let pte_offset = drop_bit 30 RECURSIVE_PAGE_TABLE_ENTRY + PAGE_PML4_OFFSET virt;
          pte_offset = push_bit 30 pte_offset;
          pte_offset = drop_bit 21 pte_offset + PAGE_POINTER_OFFSET virt;
          pte_offset = push_bit 21 pte_offset;
          pte_offset = drop_bit 12 pte_offset + PAGE_DIRECTORY_OFFSET virt
      in push_bit 12 pte_offset + 8 * PAGE_TABLE_OFFSET virt)"

section \<open>Mapping a page before paging is on\<close>

text \<open>
  One level of \<open>vmmgr_map_page\<close>: when the entry at \<open>e\<close> is not present, a frame is taken, its first
  \<open>n\<close> entries are cleared and the entry is filled. The first two levels clear \<open>sizeof(pdpe)\<close> and
  \<open>sizeof(pde)\<close>, 512 entries; the last clears \<open>sizeof(pte_dir)\<close>, the size of a pointer, one entry.
  The clearing comes before the test for NULL, so running out of memory writes through NULL.
\<close>

definition map_level :: "(u64 \<Rightarrow> u64 \<Rightarrow> bool \<Rightarrow> u64) \<Rightarrow> nat \<Rightarrow> u64 \<Rightarrow> vm_state \<Rightarrow> vm_state res" where
  "map_level set_entry n e s =
     rbind (load e s) (\<lambda>v.
       if v AND PML4E_PRESENT = 0 then
         rbind (mmgr_alloc_block (phys_mgr s)) (\<lambda>(mgr, dir).
         let s = s\<lparr>phys_mgr := mgr\<rparr> in
         if dir = 0 then Inl NullPointer
         else let s = s\<lparr>phys_mem := clear_qwords dir n (phys_mem s)\<rparr>
              in rbind (load e s) (\<lambda>v. store e (set_entry v dir False) s))
       else Inr s)"

definition vmmgr_map_page :: "u64 \<Rightarrow> u64 \<Rightarrow> vm_state \<Rightarrow> vm_state res" where
  "vmmgr_map_page phys virt s =
     (let pml4_dir = cur_pml4_base_pointer s;
          e = vmmgr_pml4_directory_lookup_entry pml4_dir virt in
      rbind (map_level set_pml4_entry 512 e s) (\<lambda>s.
      rbind (load e s) (\<lambda>v.
      let pdpe_entry1 = vmmgr_page_pointer_directory_lookup_entry (PAGE_PHYSICAL_ADDRESS v) virt in
      rbind (map_level set_pdpe_entry 512 pdpe_entry1 s) (\<lambda>s.
      rbind (load pdpe_entry1 s) (\<lambda>v.
      let pde_entry1 = vmmgr_page_directory_lookup_entry (PAGE_PHYSICAL_ADDRESS v) virt in
      rbind (map_level set_pde_entry 1 pde_entry1 s) (\<lambda>s.
      rbind (load pde_entry1 s) (\<lambda>v.
      let page = vmmgr_ptable_lookup_entry (PAGE_PHYSICAL_ADDRESS v) virt in
      rbind (load page s) (\<lambda>v.
      store page (pt_entry_add_attrib (pt_entry_add_attrib (pt_entry_set_frame v phys) PTE_PRESENT)
                    PTE_WRITABLE) s))))))))"

text \<open>The two loops of the initialisation: \<open>n\<close> consecutive pages from \<open>frame\<close> and \<open>virt\<close> on.\<close>

primrec map_range :: "nat \<Rightarrow> u64 \<Rightarrow> u64 \<Rightarrow> vm_state \<Rightarrow> vm_state res" where
  "map_range 0 frame virt s = Inr s"
| "map_range (Suc n) frame virt s =
     rbind (vmmgr_map_page frame virt s) (\<lambda>s. map_range n (frame + 4096) (virt + 4096) s)"

definition vmmgr_init :: "u64 \<Rightarrow> u64 \<Rightarrow> vm_state \<Rightarrow> vm_state res" where
  "vmmgr_init physbase kphysfree s =
     rbind (mmgr_alloc_block (phys_mgr s)) (\<lambda>(mgr, pml4table).
     let s = s\<lparr>phys_mgr := mgr\<rparr> in
     if pml4table = 0 then Inl Halt
     else
       let s = s\<lparr>phys_mem := clear_qwords pml4table 512 (phys_mem s)\<rparr>;
           e = pml4table + 8 * 0x1FE in
       rbind (load e s) (\<lambda>v.
       rbind (store e (set_pml4_entry_recurs v pml4table False) s) (\<lambda>s.
       let s = s\<lparr>cur_pml4_base_pointer := pml4table\<rparr> in
       rbind (map_range 512 0x200000 (VIRT_BASE + physbase) s) (\<lambda>s.
       rbind (map_range (20 * 512) (0x200000 + 512 * 4096) (VIRT_BASE + physbase + 512 * 4096) s) (\<lambda>s.
       rbind (vmmgr_map_page 0xB8000 0xFFFFFFFF80100000 s) (\<lambda>s.
       rbind (vmmgr_map_page pml4table 0xFFFFFF7FBFDFE000 s) (\<lambda>s.
       let s = s\<lparr>kernel_pgd := 0xFFFFFF7FBFDFE000\<rparr> in
       rbind (vmmgr_switch_pml4_directory pml4table s) (\<lambda>s.
       rbind (mmgr_syncwith_kernel (phys_mgr s)) (\<lambda>mgr.
       let s = init_bump_addr kphysfree (s\<lparr>phys_mgr := mgr\<rparr>)
       in Inr (s\<lparr>bump_start := bump_addr s\<rparr>))))))))))"

end
