(* ===== verification/Page_Walk.thy ===== *)
theory Page_Walk
  imports Virtual_Memory
begin

text \<open>
  What the tables that \<open>sys/mm/vmmgr_virtual.c\<close> builds mean: the page walk of the processor, as a
  function of physical memory, the base of the level-4 table and a virtual address. The theory shows
  that \<open>vmmgr_map_page\<close> changes the translation of one page and of no other, and that the addresses
  the recursive slot gives are translated to the entries they are meant to reach.
\<close>

section \<open>The walk\<close>

text \<open>
  Entry \<open>i\<close> of the table at \<open>T\<close>; the tests of bit 0 (present) and bit 7 (large page, which the
  kernel does not use); the place of the last-level entry for a list of indices; the translation.
\<close>

definition ent :: "u64 \<Rightarrow> u64 \<Rightarrow> u64" where
  "ent T i = T + 8 * i"

definition present :: "u64 \<Rightarrow> bool" where
  "present e \<longleftrightarrow> bit e 0"

definition points :: "u64 \<Rightarrow> bool" where
  "points e \<longleftrightarrow> bit e 0 \<and> \<not> bit e 7"

fun locate :: "(u64 \<Rightarrow> u64) \<Rightarrow> u64 \<Rightarrow> u64 list \<Rightarrow> (u64 \<times> u64) option" where
  "locate m T [] = None"
| "locate m T [i] = Some (T, i)"
| "locate m T (i # j # js) =
     (if points (m (ent T i)) then locate m (PAGE_PHYSICAL_ADDRESS (m (ent T i))) (j # js) else None)"

definition indices :: "u64 \<Rightarrow> u64 list" where
  "indices v =
     [PAGE_PML4_OFFSET v, PAGE_POINTER_OFFSET v, PAGE_DIRECTORY_OFFSET v, PAGE_TABLE_OFFSET v]"

definition walk :: "(u64 \<Rightarrow> u64) \<Rightarrow> u64 \<Rightarrow> u64 \<Rightarrow> u64 option" where
  "walk m base v =
     (case locate m base (indices v) of
        None \<Rightarrow> None
      | Some (T, i) \<Rightarrow>
          if present (m (ent T i))
          then Some (PAGE_PHYSICAL_ADDRESS (m (ent T i)) + (v AND 0xFFF)) else None)"

lemma locate_induct:
  assumes "\<And>T. P T []" and "\<And>T i. P T [i]"
    and "\<And>T i j js. (points (m (ent T i)) \<Longrightarrow> P (PAGE_PHYSICAL_ADDRESS (m (ent T i))) (j # js)) \<Longrightarrow> P T (i # j # js)"
  shows "P T js"
  using assms by (induction m T js rule: locate.induct) auto

section \<open>Addresses of entries\<close>

lemma and_1FF: "(x :: u64) AND 0x1FF = take_bit 9 x"
proof -
  have "(0x1FF :: u64) = mask 9" by (simp add: mask_eq_exp_minus_1)
  then show ?thesis by (simp only: take_bit_eq_mask)
qed

lemma and_FFF: "(x :: u64) AND 0xFFF = take_bit 12 x"
proof -
  have "(0xFFF :: u64) = mask 12" by (simp add: mask_eq_exp_minus_1)
  then show ?thesis by (simp only: take_bit_eq_mask)
qed

lemma unat_offset:
  "unat (PAGE_TABLE_OFFSET v) = unat v div 2 ^ 12 mod 512"
  "unat (PAGE_DIRECTORY_OFFSET v) = unat v div 2 ^ 21 mod 512"
  "unat (PAGE_POINTER_OFFSET v) = unat v div 2 ^ 30 mod 512"
  "unat (PAGE_PML4_OFFSET v) = unat v div 2 ^ 39 mod 512"
  unfolding PAGE_TABLE_OFFSET_def PAGE_DIRECTORY_OFFSET_def PAGE_POINTER_OFFSET_def
    PAGE_PML4_OFFSET_def and_1FF
  by (simp_all add: take_bit_eq_mod drop_bit_eq_div unat_mod unat_div)

lemma offset_less:
  "unat (PAGE_TABLE_OFFSET v) < 512" "unat (PAGE_DIRECTORY_OFFSET v) < 512"
  "unat (PAGE_POINTER_OFFSET v) < 512" "unat (PAGE_PML4_OFFSET v) < 512"
  by (simp_all add: unat_offset)

lemma frame_addr_nat:
  assumes "frame_addr T"
  shows "unat T < 2 ^ 44" and "4096 dvd unat T"
proof -
  have "take_bit 44 T = T"
    by (rule bit_word_eqI) (use frame_addr_bits [OF assms] in \<open>auto simp: bit_take_bit_iff\<close>)
  then have "unat T = take_bit 44 (unat T)" by (metis unsigned_take_bit_eq)
  then show "unat T < 2 ^ 44" by (metis take_bit_nat_less_exp)
  have "take_bit 12 T = 0"
    by (rule bit_word_eqI) (use frame_addr_bits [OF assms] in \<open>fastforce simp: bit_take_bit_iff\<close>)
  then have "take_bit 12 (unat T) = 0" by (metis unsigned_take_bit_eq unsigned_0)
  then show "4096 dvd unat T" by (simp add: take_bit_eq_mod mod_eq_0_iff_dvd)
qed

lemma unat_ent:
  assumes "frame_addr T" and "unat i < 512"
  shows "unat (ent T i) = unat T + 8 * unat i"
proof -
  have "unat T < 2 ^ 44" using assms(1) by (rule frame_addr_nat)
  moreover have "unat (8 * i) = 8 * unat i" using assms(2) by (subst unat_mult_lem [THEN iffD1]) simp_all
  ultimately show ?thesis unfolding ent_def using assms(2)
    by (subst unat_add_lem [THEN iffD1]) simp_all
qed

lemma ent_eq_iff:
  assumes "frame_addr T" and "frame_addr U" and "unat i < 512" and "unat j < 512"
  shows "ent T i = ent U j \<longleftrightarrow> T = U \<and> i = j"
proof
  assume "ent T i = ent U j"
  then have eq: "unat T + 8 * unat i = unat U + 8 * unat j"
    using unat_ent [OF assms(1,3)] unat_ent [OF assms(2,4)] by simp
  obtain a b where ab: "unat T = 4096 * a" "unat U = 4096 * b"
    using frame_addr_nat(2) [OF assms(1)] frame_addr_nat(2) [OF assms(2)] by (auto elim!: dvdE)
  with eq assms(3,4) have "a = b" by linarith
  with eq ab have "unat T = unat U" "unat i = unat j" by simp_all
  then show "T = U \<and> i = j" by (simp only: word_unat_eq_iff simp_thms)
qed simp

lemma ent_nonzero: "frame_addr T \<Longrightarrow> T \<noteq> 0 \<Longrightarrow> unat i < 512 \<Longrightarrow> ent T i \<noteq> 0"
  using unat_ent [of T i] by (metis add_is_0 unat_0 unat_eq_zero)

section \<open>Contents of entries\<close>

text \<open>An entry without the large-page bit and without bits beyond the frame field.\<close>

definition plain :: "u64 \<Rightarrow> bool" where
  "plain e \<longleftrightarrow> \<not> bit e 7 \<and> (\<forall>k\<in>{44..<52}. \<not> bit e k)"

lemma plain_0 [simp]: "plain 0"
  by (simp add: plain_def)

text \<open>What every \<open>set_*_entry\<close> computes, and the last-level entry of \<open>vmmgr_map_page\<close>.\<close>

definition fill :: "u64 \<Rightarrow> u64 \<Rightarrow> bool \<Rightarrow> u64" where
  "fill e d u = ((e OR 1 OR 2 OR (if u then 4 else 0)) AND NOT 0x00000FFFFFFFF000) OR d"

lemma set_entry_fill:
  "set_pml4_entry_recurs = fill" "set_page_entry = fill" "set_pml4_entry = fill"
  "set_pdpe_entry = fill" "set_pde_entry = fill"
  by (intro ext, simp add: set_pml4_entry_recurs_def set_page_entry_def set_pml4_entry_def
      set_pdpe_entry_def set_pde_entry_def fill_def Let_def add_attrib_defs set_frame_defs
      PRESENT_defs WRITABLE_defs USER_defs FRAME_defs or.assoc)+

lemma bit_fill:
  assumes "frame_addr d"
  shows "bit (fill e d u) k \<longleftrightarrow>
    (if 12 \<le> k \<and> k < 44 then bit d k else bit e k \<or> k = 0 \<or> k = 1 \<or> (u \<and> k = 2))"
  using frame_addr_bits [OF assms, of k] bit_imp_le_length [of e k]
  by (auto simp: fill_def bit_and_iff bit_or_iff bit_not_iff bit_NOT_FRAME bit_low_flag)

lemma bit_PHYS: "bit (PAGE_PHYSICAL_ADDRESS e) k \<longleftrightarrow> bit e k \<and> 12 \<le> k \<and> k < 52"
proof -
  have *: "NOT (0xFFF0000000000FFF :: u64) = push_bit 12 (mask 40)"
    by (simp add: mask_eq_exp_minus_1 push_bit_eq_mult)
  show ?thesis
    unfolding PAGE_PHYSICAL_ADDRESS_def * bit_and_iff bit_push_bit_iff bit_mask_iff possible_bit_word
    by auto
qed

lemma fill_entry:
  assumes "plain e" and "frame_addr d"
  shows "PAGE_PHYSICAL_ADDRESS (fill e d u) = d" and "points (fill e d u)" and "plain (fill e d u)"
proof -
  show "PAGE_PHYSICAL_ADDRESS (fill e d u) = d"
    by (rule bit_word_eqI)
       (use assms frame_addr_bits [OF assms(2)] in \<open>auto simp: bit_PHYS bit_fill plain_def\<close>)
  show "points (fill e d u)" "plain (fill e d u)"
    using assms by (auto simp: points_def plain_def bit_fill)
qed

lemma last_entry_fill:
  "frame_addr d \<Longrightarrow>
     pt_entry_add_attrib (pt_entry_add_attrib (pt_entry_set_frame e d) PTE_PRESENT) PTE_WRITABLE
       = fill e d False"
  by (rule bit_word_eqI)
     (auto simp: bit_fill add_attrib_defs set_frame_defs PRESENT_defs WRITABLE_defs FRAME_defs
       bit_and_iff bit_or_iff bit_not_iff bit_NOT_FRAME bit_low_flag dest: frame_addr_bits)

lemma clear_qwords_apply:
  "clear_qwords p n m x = (if \<exists>k<n. x = p + 8 * of_nat k then 0 else m x)"
  unfolding clear_qwords_def by (induction n) (auto simp: less_Suc_eq)

lemma clear_qwords_ent:
  assumes "frame_addr p" and "frame_addr T" and "unat i < 512" and "n \<le> 512"
  shows "clear_qwords p n m (ent T i) = (if T = p \<and> unat i < n then 0 else m (ent T i))"
proof -
  have k: "unat (of_nat k :: u64) = k" if "k < n" for k using that assms(4) by (intro unat_block) simp
  have "(\<exists>k<n. ent T i = p + 8 * of_nat k) \<longleftrightarrow> T = p \<and> unat i < n"
  proof
    assume "\<exists>k<n. ent T i = p + 8 * of_nat k"
    then obtain k where "k < n" "ent T i = ent p (of_nat k)" by (auto simp: ent_def)
    with k assms show "T = p \<and> unat i < n" using ent_eq_iff [of T p i "of_nat k"] by simp
  next
    assume "T = p \<and> unat i < n"
    then show "\<exists>k<n. ent T i = p + 8 * of_nat k" by (intro exI [of _ "unat i"]) (simp add: ent_def)
  qed
  then show ?thesis by (simp add: clear_qwords_apply)
qed

section \<open>The recursive slot\<close>

text \<open>The indices of an address below slot 510 of the level-4 table.\<close>

lemma recursive_offsets:
  assumes "unat w = 0xFFFFFF0000000000 + b3 * 2 ^ 30 + b2 * 2 ^ 21 + b1 * 2 ^ 12 + 8 * c"
    and "b3 < 512" "b2 < 512" "b1 < 512" "c < 512"
  shows "unat (PAGE_PML4_OFFSET w) = 510" and "unat (PAGE_POINTER_OFFSET w) = b3"
    and "unat (PAGE_DIRECTORY_OFFSET w) = b2" and "unat (PAGE_TABLE_OFFSET w) = b1"
    and "unat (w AND 0xFFF) = 8 * c"
proof -
  have "unat w div 2 ^ 39 = 0x1FFFFFE" by (rule div_nat_eqI) (use assms in simp_all)
  then show "unat (PAGE_PML4_OFFSET w) = 510" by (simp add: unat_offset)
  have "unat w div 2 ^ 30 = 0x1FFFFFE * 512 + b3" by (rule div_nat_eqI) (use assms in simp_all)
  then show "unat (PAGE_POINTER_OFFSET w) = b3" using assms(2) by (simp only: unat_offset mod_mult_self3 mod_less)
  have "unat w div 2 ^ 21 = (0x1FFFFFE * 512 + b3) * 512 + b2"
    by (rule div_nat_eqI) (use assms in simp_all)
  then show "unat (PAGE_DIRECTORY_OFFSET w) = b2" using assms(3) by (simp only: unat_offset mod_mult_self3 mod_less)
  have d: "unat w div 2 ^ 12 = ((0x1FFFFFE * 512 + b3) * 512 + b2) * 512 + b1"
    by (rule div_nat_eqI) (use assms in simp_all)
  then show "unat (PAGE_TABLE_OFFSET w) = b1" using assms(4) by (simp only: unat_offset mod_mult_self3 mod_less)
  have "unat (w AND 0xFFF) = unat w mod 2 ^ 12" by (simp add: and_FFF take_bit_eq_mod unat_mod)
  also have "\<dots> = unat w - 2 ^ 12 * (unat w div 2 ^ 12)" by (simp add: minus_mult_div_eq_mod)
  also have "\<dots> = 8 * c" unfolding d using assms(1) by simp
  finally show "unat (w AND 0xFFF) = 8 * c" .
qed

lemma unat_push_bit: "unat w * 2 ^ n < 2 ^ 64 \<Longrightarrow> unat (push_bit n w :: u64) = unat w * 2 ^ n"
  by (subst unsigned_push_bit_eq) (simp add: push_bit_eq_mult take_bit_nat_eq_self)

lemma unat_drop_push:
  "unat (push_bit n w :: u64) = unat w * 2 ^ n \<Longrightarrow> k \<le> n \<Longrightarrow>
     unat (drop_bit k (push_bit n w)) = unat w * 2 ^ (n - k)"
  by (subst unat_drop_bit_eq) (simp add: drop_bit_eq_div power_diff div_mult_swap le_imp_power_dvd)

lemma unat_plus: "unat a + unat b < 2 ^ 64 \<Longrightarrow> unat (a + b :: u64) = unat a + unat b"
  by (subst unat_add_lem [THEN iffD1]) simp_all

lemma unat_times8: "unat i < 512 \<Longrightarrow> unat (8 * i :: u64) = 8 * unat i"
  by (subst unat_mult_lem [THEN iffD1]) simp_all

lemma unat_get_pte_recurse:
  "unat (get_pte_recurse v) = 0xFFFFFF0000000000 + unat (PAGE_PML4_OFFSET v) * 2 ^ 30 +
     unat (PAGE_POINTER_OFFSET v) * 2 ^ 21 + unat (PAGE_DIRECTORY_OFFSET v) * 2 ^ 12 +
     8 * unat (PAGE_TABLE_OFFSET v)"
proof -
  note less = offset_less [of v]
  define x where "x = drop_bit 30 RECURSIVE_PAGE_TABLE_ENTRY + PAGE_PML4_OFFSET v"
  have x: "unat x = 0x3FFFFFC00 + unat (PAGE_PML4_OFFSET v)"
    unfolding x_def RECURSIVE_PAGE_TABLE_ENTRY_def using less by (subst unat_plus) simp_all
  have px: "unat (push_bit 30 x) = unat x * 2 ^ 30" using x less by (intro unat_push_bit) simp
  define y where "y = drop_bit 21 (push_bit 30 x) + PAGE_POINTER_OFFSET v"
  have y: "unat y = unat x * 512 + unat (PAGE_POINTER_OFFSET v)"
    unfolding y_def using x unat_drop_push [OF px, of 21] less by (subst unat_plus) simp_all
  have py: "unat (push_bit 21 y) = unat y * 2 ^ 21" using x y less by (intro unat_push_bit) simp
  define z where "z = drop_bit 12 (push_bit 21 y) + PAGE_DIRECTORY_OFFSET v"
  have z: "unat z = unat y * 512 + unat (PAGE_DIRECTORY_OFFSET v)"
    unfolding z_def using x y unat_drop_push [OF py, of 12] less by (subst unat_plus) simp_all
  have pz: "unat (push_bit 12 z) = unat z * 2 ^ 12" using x y z less by (intro unat_push_bit) simp
  have "get_pte_recurse v = push_bit 12 z + 8 * PAGE_TABLE_OFFSET v"
    by (simp add: get_pte_recurse_def Let_def x_def y_def z_def)
  then have "unat (get_pte_recurse v) = unat z * 2 ^ 12 + 8 * unat (PAGE_TABLE_OFFSET v)"
    using x y z pz less by (simp add: unat_times8 unat_plus)
  then show ?thesis unfolding x y z by simp
qed

lemma unat_get_pde_recurse:
  "unat (get_pde_offset_recurse v) = 0xFFFFFF0000000000 + 510 * 2 ^ 30 +
     unat (PAGE_PML4_OFFSET v) * 2 ^ 21 + unat (PAGE_POINTER_OFFSET v) * 2 ^ 12 +
     8 * unat (PAGE_DIRECTORY_OFFSET v)"
proof -
  note less = offset_less [of v]
  define y where "y = drop_bit 21 RECURSIVE_PAGE_DIRECTORY_ENTRY + PAGE_PML4_OFFSET v"
  have y: "unat y = 0x7FFFFFBFC00 + unat (PAGE_PML4_OFFSET v)"
    unfolding y_def RECURSIVE_PAGE_DIRECTORY_ENTRY_def using less by (subst unat_plus) simp_all
  have py: "unat (push_bit 21 y) = unat y * 2 ^ 21" using y less by (intro unat_push_bit) simp
  define z where "z = drop_bit 12 (push_bit 21 y) + PAGE_POINTER_OFFSET v"
  have z: "unat z = unat y * 512 + unat (PAGE_POINTER_OFFSET v)"
    unfolding z_def using y unat_drop_push [OF py, of 12] less by (subst unat_plus) simp_all
  have pz: "unat (push_bit 12 z) = unat z * 2 ^ 12" using y z less by (intro unat_push_bit) simp
  have "get_pde_offset_recurse v = push_bit 12 z + 8 * PAGE_DIRECTORY_OFFSET v"
    by (simp add: get_pde_offset_recurse_def Let_def y_def z_def)
  then have "unat (get_pde_offset_recurse v) = unat z * 2 ^ 12 + 8 * unat (PAGE_DIRECTORY_OFFSET v)"
    using y z pz less by (simp add: unat_times8 unat_plus)
  then show ?thesis unfolding y z by simp
qed

lemma unat_get_pdpe_recurse:
  "unat (get_pdpe_offset_recurse v) = 0xFFFFFF0000000000 + 510 * 2 ^ 30 + 510 * 2 ^ 21 +
     unat (PAGE_PML4_OFFSET v) * 2 ^ 12 + 8 * unat (PAGE_POINTER_OFFSET v)"
proof -
  note less = offset_less [of v]
  define z where "z = drop_bit 12 RECURSIVE_PAGE_POINTER_ENTRY + PAGE_PML4_OFFSET v"
  have z: "unat z = 0xFFFFFF7FBFC00 + unat (PAGE_PML4_OFFSET v)"
    unfolding z_def RECURSIVE_PAGE_POINTER_ENTRY_def using less by (subst unat_plus) simp_all
  have pz: "unat (push_bit 12 z) = unat z * 2 ^ 12" using z less by (intro unat_push_bit) simp
  have "get_pdpe_offset_recurse v = push_bit 12 z + 8 * PAGE_POINTER_OFFSET v"
    by (simp add: get_pdpe_offset_recurse_def Let_def z_def)
  then have "unat (get_pdpe_offset_recurse v) = unat z * 2 ^ 12 + 8 * unat (PAGE_POINTER_OFFSET v)"
    using z pz less by (simp add: unat_times8 unat_plus)
  then show ?thesis unfolding z by simp
qed

lemma unat_get_pml4e_recurse:
  "unat (get_pml4e_offset_recurse v) = 0xFFFFFF0000000000 + 510 * 2 ^ 30 + 510 * 2 ^ 21 +
     510 * 2 ^ 12 + 8 * unat (PAGE_PML4_OFFSET v)"
  using offset_less [of v]
  by (simp add: get_pml4e_offset_recurse_def RECURSIVE_ENTRY_def unat_times8 unat_plus)

lemma recursive_indices:
  assumes "unat w = 0xFFFFFF0000000000 + unat b3 * 2 ^ 30 + unat b2 * 2 ^ 21 + unat b1 * 2 ^ 12 + 8 * unat c"
    and "unat (b3 :: u64) < 512" "unat (b2 :: u64) < 512" "unat (b1 :: u64) < 512" "unat (c :: u64) < 512"
  shows "indices w = [510, b3, b2, b1]" and "w AND 0xFFF = 8 * c"
proof -
  note o = recursive_offsets [OF assms]
  have "PAGE_PML4_OFFSET w = 510" using o(1) by (simp add: word_unat_eq_iff)
  moreover have "PAGE_POINTER_OFFSET w = b3" "PAGE_DIRECTORY_OFFSET w = b2" "PAGE_TABLE_OFFSET w = b1"
    using o(2-4) by (simp_all only: word_unat_eq_iff)
  ultimately show "indices w = [510, b3, b2, b1]" by (simp add: indices_def)
  show "w AND 0xFFF = 8 * c" using o(5) assms(5) by (simp only: word_unat_eq_iff unat_times8)
qed

lemma recursive_walks:
  "indices (get_pml4e_offset_recurse v) = [510, 510, 510, 510]"
  "get_pml4e_offset_recurse v AND 0xFFF = 8 * PAGE_PML4_OFFSET v"
  "indices (get_pdpe_offset_recurse v) = [510, 510, 510, PAGE_PML4_OFFSET v]"
  "get_pdpe_offset_recurse v AND 0xFFF = 8 * PAGE_POINTER_OFFSET v"
  "indices (get_pde_offset_recurse v) = [510, 510, PAGE_PML4_OFFSET v, PAGE_POINTER_OFFSET v]"
  "get_pde_offset_recurse v AND 0xFFF = 8 * PAGE_DIRECTORY_OFFSET v"
  "indices (get_pte_recurse v) =
     [510, PAGE_PML4_OFFSET v, PAGE_POINTER_OFFSET v, PAGE_DIRECTORY_OFFSET v]"
  "get_pte_recurse v AND 0xFFF = 8 * PAGE_TABLE_OFFSET v"
proof -
  note less = offset_less [of v]
  show "indices (get_pml4e_offset_recurse v) = [510, 510, 510, 510]"
    "get_pml4e_offset_recurse v AND 0xFFF = 8 * PAGE_PML4_OFFSET v"
    using recursive_indices [of "get_pml4e_offset_recurse v" 510 510 510 "PAGE_PML4_OFFSET v"]
      unat_get_pml4e_recurse [of v] less by simp_all
  show "indices (get_pdpe_offset_recurse v) = [510, 510, 510, PAGE_PML4_OFFSET v]"
    "get_pdpe_offset_recurse v AND 0xFFF = 8 * PAGE_POINTER_OFFSET v"
    using recursive_indices [of "get_pdpe_offset_recurse v" 510 510 "PAGE_PML4_OFFSET v"
        "PAGE_POINTER_OFFSET v"] unat_get_pdpe_recurse [of v] less by simp_all
  show "indices (get_pde_offset_recurse v) = [510, 510, PAGE_PML4_OFFSET v, PAGE_POINTER_OFFSET v]"
    "get_pde_offset_recurse v AND 0xFFF = 8 * PAGE_DIRECTORY_OFFSET v"
    using recursive_indices [of "get_pde_offset_recurse v" 510 "PAGE_PML4_OFFSET v"
        "PAGE_POINTER_OFFSET v" "PAGE_DIRECTORY_OFFSET v"] unat_get_pde_recurse [of v] less by simp_all
  show "indices (get_pte_recurse v) =
      [510, PAGE_PML4_OFFSET v, PAGE_POINTER_OFFSET v, PAGE_DIRECTORY_OFFSET v]"
    "get_pte_recurse v AND 0xFFF = 8 * PAGE_TABLE_OFFSET v"
    using recursive_indices [OF unat_get_pte_recurse less(4) less(3) less(2) less(1)] .
qed

section \<open>Well-formed tables\<close>

text \<open>
  A ghost function \<open>L\<close> gives the level of every frame that is a table (4 down to 1; 0 for the rest).
  The tables are well formed when the base is the level-4 table, every table is a frame in use, every
  present directory entry points to a table one level down that no other entry points to, and
  frames not in use are blank. Slot 510 of the level-4 table, which points to the table itself, is
  kept apart.
\<close>

definition regular :: "(u64 \<Rightarrow> nat) \<Rightarrow> u64 \<Rightarrow> u64 \<Rightarrow> bool" where
  "regular L T i \<longleftrightarrow> L T \<noteq> 0 \<and> unat i < 512 \<and> \<not> (L T = 4 \<and> i = 510)"

definition table_frames :: "(u64 \<Rightarrow> nat) \<Rightarrow> vm_state \<Rightarrow> bool" where
  "table_frames L s \<longleftrightarrow>
     L (cur_pml4_base_pointer s) = 4 \<and>
     (\<forall>T. L T \<noteq> 0 \<longrightarrow> L T \<le> 4 \<and> frame_addr T \<and> T \<noteq> 0 \<and> mmgr_used (phys_mgr s) T) \<and>
     (\<forall>p i. frame_addr p \<and> \<not> mmgr_used (phys_mgr s) p \<and> unat i < 512 \<longrightarrow> phys_mem s (ent p i) = 0)"

definition table_entries :: "(u64 \<Rightarrow> nat) \<Rightarrow> (u64 \<Rightarrow> u64) \<Rightarrow> bool" where
  "table_entries L m \<longleftrightarrow>
     (\<forall>T i. regular L T i \<longrightarrow> plain (m (ent T i))) \<and>
     (\<forall>T i. regular L T i \<and> 2 \<le> L T \<and> present (m (ent T i)) \<longrightarrow>
            L (PAGE_PHYSICAL_ADDRESS (m (ent T i))) = L T - 1) \<and>
     (\<forall>T i U j. regular L T i \<and> regular L U j \<and> 2 \<le> L T \<and> 2 \<le> L U \<and>
            present (m (ent T i)) \<and> present (m (ent U j)) \<and>
            PAGE_PHYSICAL_ADDRESS (m (ent T i)) = PAGE_PHYSICAL_ADDRESS (m (ent U j)) \<longrightarrow>
            T = U \<and> i = j)"

definition tables :: "(u64 \<Rightarrow> nat) \<Rightarrow> (u64 \<Rightarrow> u64) \<Rightarrow> bool" where
  "tables L m \<longleftrightarrow>
     (\<forall>T. L T \<noteq> 0 \<longrightarrow> L T \<le> 4 \<and> frame_addr T \<and> T \<noteq> 0) \<and> table_entries L m"

definition pt_wf :: "(u64 \<Rightarrow> nat) \<Rightarrow> vm_state \<Rightarrow> bool" where
  "pt_wf L s \<longleftrightarrow> mmgr_inv (phys_mgr s) \<and> table_frames L s \<and> table_entries L (phys_mem s)"

lemma pt_wf_table:
  assumes "pt_wf L s" and "L T \<noteq> 0"
  shows "L T \<le> 4" and "frame_addr T" and "T \<noteq> 0" and "mmgr_used (phys_mgr s) T"
  using assms by (auto simp: pt_wf_def table_frames_def)

lemma pt_wf_tables: "pt_wf L s \<Longrightarrow> tables L (phys_mem s)"
  by (auto simp: pt_wf_def tables_def table_frames_def)

lemma tables_table:
  assumes "tables L m" and "L T \<noteq> 0"
  shows "L T \<le> 4" and "frame_addr T" and "T \<noteq> 0"
  using assms by (auto simp: tables_def)

lemma tables_regular:
  assumes "tables L m" and "regular L T i"
  shows "frame_addr T" and "unat i < 512" and "L T \<noteq> 0"
  using assms by (auto simp: tables_def regular_def)

lemma tables_plain: "tables L m \<Longrightarrow> regular L T i \<Longrightarrow> plain (m (ent T i))"
  by (simp add: tables_def table_entries_def)

lemma tables_next:
  "tables L m \<Longrightarrow> regular L T i \<Longrightarrow> 2 \<le> L T \<Longrightarrow> present (m (ent T i)) \<Longrightarrow>
     L (PAGE_PHYSICAL_ADDRESS (m (ent T i))) = L T - 1"
  by (simp add: tables_def table_entries_def)

lemmas pt_wf_plain = tables_plain [OF pt_wf_tables]

lemmas pt_wf_next = tables_next [OF pt_wf_tables]

lemma table_entries_inj:
  "table_entries L m \<Longrightarrow> regular L T i \<Longrightarrow> regular L U j \<Longrightarrow> 2 \<le> L T \<Longrightarrow> 2 \<le> L U \<Longrightarrow>
     present (m (ent T i)) \<Longrightarrow> present (m (ent U j)) \<Longrightarrow>
     PAGE_PHYSICAL_ADDRESS (m (ent T i)) = PAGE_PHYSICAL_ADDRESS (m (ent U j)) \<Longrightarrow> T = U \<and> i = j"
  unfolding table_entries_def by blast

lemma plain_points: "plain e \<Longrightarrow> points e \<longleftrightarrow> present e"
  by (simp add: plain_def points_def present_def)

text \<open>A list of indices that starts at a table of its own length and avoids the recursive slot.\<close>

definition path :: "(u64 \<Rightarrow> nat) \<Rightarrow> u64 \<Rightarrow> u64 list \<Rightarrow> bool" where
  "path L T js \<longleftrightarrow> L T = length js \<and> js \<noteq> [] \<and> regular L T (hd js) \<and> (\<forall>j\<in>set js. unat j < 512)"

lemma path_step:
  assumes "tables L m" and "path L T (i # j # js)" and "points (m (ent T i))"
  shows "path L (PAGE_PHYSICAL_ADDRESS (m (ent T i))) (j # js)"
proof -
  have "L (PAGE_PHYSICAL_ADDRESS (m (ent T i))) = L T - 1"
    using assms by (intro tables_next) (auto simp: path_def points_def present_def)
  moreover have "L T \<le> 4" using tables_table(1) [OF assms(1), of T] assms(2) by (auto simp: path_def)
  ultimately show ?thesis using assms(2) by (auto simp: path_def regular_def)
qed

lemma locate_regular:
  assumes "tables L m"
  shows "path L T js \<Longrightarrow> locate m T js = Some (A, a) \<Longrightarrow> regular L A a"
proof (induction T js rule: locate_induct [where m = m])
  case (3 T i j js)
  then show ?case using path_step [OF assms 3(2)] by (auto split: if_splits)
qed (auto simp: path_def)

text \<open>Two paths to the same entry are the same.\<close>

lemma locate_inj:
  assumes "tables L m"
  shows "path L T js \<Longrightarrow> path L U ks \<Longrightarrow> L T = L U \<Longrightarrow>
    locate m T js = Some x \<Longrightarrow> locate m U ks = Some x \<Longrightarrow> T = U \<and> js = ks"
proof (induction T js arbitrary: U ks rule: locate_induct [where m = m])
  case (1 T)
  then show ?case by simp
next
  case (2 T i)
  then obtain k where "ks = [k]" by (cases ks) (auto simp: path_def)
  with 2 show ?case by auto
next
  case (3 T i j js)
  then obtain i' j' js' where ks: "ks = i' # j' # js'"
    by (cases ks; cases "tl ks") (auto simp: path_def)
  let ?e = "m (ent T i)" and ?e' = "m (ent U i')"
  from 3(5,6) ks have pts: "points ?e" "points ?e'" by (auto split: if_splits)
  note p = path_step [OF assms 3(2) pts(1)] path_step [OF assms 3(3) [unfolded ks] pts(2)]
  have "length (j # js) = length (j' # js')" using 3(2,3,4) ks by (simp add: path_def)
  then have "L (PAGE_PHYSICAL_ADDRESS ?e) = L (PAGE_PHYSICAL_ADDRESS ?e')" using p by (simp add: path_def)
  then have eq: "PAGE_PHYSICAL_ADDRESS ?e = PAGE_PHYSICAL_ADDRESS ?e' \<and> j # js = j' # js'"
    using 3(1) [OF pts(1) p] 3(5,6) ks pts by simp
  moreover have "T = U \<and> i = i'"
    using table_entries_inj [of L m T i U i'] assms eq 3(2,3) ks pts
    by (auto simp: path_def points_def present_def tables_def)
  ultimately show ?case using ks by simp
qed

section \<open>One level of a mapping\<close>

text \<open>The entry a walk ends at, when it is present.\<close>

definition lookup :: "(u64 \<Rightarrow> u64) \<Rightarrow> u64 \<Rightarrow> u64 list \<Rightarrow> u64 option" where
  "lookup m T js =
     (case locate m T js of
        None \<Rightarrow> None
      | Some (A, a) \<Rightarrow> if present (m (ent A a)) then Some (m (ent A a)) else None)"

lemma walk_lookup:
  "walk m base v = map_option (\<lambda>e. PAGE_PHYSICAL_ADDRESS e + (v AND 0xFFF)) (lookup m base (indices v))"
  by (simp add: walk_def lookup_def split: option.split prod.split)

text \<open>
  The effect of filling the empty entry \<open>i\<close> of the directory \<open>T\<close> with a new blank table \<open>p\<close>, told
  by the entries of tables.
\<close>

definition adds_table ::
  "(u64 \<Rightarrow> nat) \<Rightarrow> (u64 \<Rightarrow> u64) \<Rightarrow> u64 \<Rightarrow> u64 \<Rightarrow> u64 \<Rightarrow> bool \<Rightarrow> (u64 \<Rightarrow> u64) \<Rightarrow> bool" where
  "adds_table L m T i p u m' \<longleftrightarrow>
     tables L m \<and> regular L T i \<and> 2 \<le> L T \<and> \<not> present (m (ent T i)) \<and>
     frame_addr p \<and> p \<noteq> 0 \<and> L p = 0 \<and>
     m' (ent T i) = fill (m (ent T i)) p u \<and> (\<forall>j. unat j < 512 \<longrightarrow> m' (ent p j) = 0) \<and>
     (\<forall>U j. L U \<noteq> 0 \<and> unat j < 512 \<and> \<not> (U = T \<and> j = i) \<longrightarrow> m' (ent U j) = m (ent U j))"

lemma adds_tableD:
  assumes "adds_table L m T i p u m'"
  shows "tables L m" and "regular L T i" and "2 \<le> L T" and "\<not> present (m (ent T i))" and "L p = 0"
    and "frame_addr p" and "p \<noteq> 0" and "unat j < 512 \<Longrightarrow> m' (ent p j) = 0" and "T \<noteq> p"
  using assms by (auto simp: adds_table_def)

lemma adds_table_entry:
  assumes "adds_table L m T i p u m'"
  shows "PAGE_PHYSICAL_ADDRESS (m' (ent T i)) = p" and "points (m' (ent T i))" and "plain (m' (ent T i))"
  using fill_entry [OF tables_plain [OF adds_tableD(1,2) [OF assms]] adds_tableD(6) [OF assms], of u] assms
  by (simp_all add: adds_table_def)

lemma adds_table_old:
  assumes "adds_table L m T i p u m'" and "regular L U j" and "\<not> (U = T \<and> j = i)"
  shows "m' (ent U j) = m (ent U j)"
  using assms unfolding adds_table_def regular_def by blast

lemma lookup_blank:
  "(\<And>j. unat j < 512 \<Longrightarrow> m (ent p j) = 0) \<Longrightarrow> ks \<noteq> [] \<Longrightarrow> unat (hd ks) < 512 \<Longrightarrow> lookup m p ks = None"
  by (cases "(m, p, ks)" rule: locate.cases) (auto simp: lookup_def points_def present_def)

lemma adds_table_lookup:
  assumes new: "adds_table L m T i p u m'"
  shows "path L U js \<Longrightarrow> lookup m' U js = lookup m U js"
proof (induction U js rule: locate_induct [where m = m])
  case (1 U)
  then show ?case by (simp add: path_def)
next
  case (2 U j)
  then have "\<not> (U = T \<and> j = i)" using adds_tableD(3) [OF new] by (auto simp: path_def)
  then have "m' (ent U j) = m (ent U j)"
    using adds_table_old [OF new] 2 by (simp add: path_def)
  then show ?case by (simp add: lookup_def)
next
  case (3 U j k ks)
  show ?case
  proof (cases "U = T \<and> j = i")
    case True
    have "lookup m' p (k # ks) = None"
      using adds_tableD(8) [OF new] 3(2) by (intro lookup_blank) (auto simp: path_def)
    then have "lookup m' U (j # k # ks) = None"
      using True adds_table_entry(1,2) [OF new] by (simp add: lookup_def)
    moreover have "\<not> points (m (ent U j))"
      using True adds_tableD(4) [OF new] by (simp add: points_def present_def)
    ultimately show ?thesis by (simp add: lookup_def)
  next
    case False
    then have "m' (ent U j) = m (ent U j)"
      using adds_table_old [OF new] 3(2) by (simp add: path_def)
    then show ?thesis using 3(1) path_step [OF adds_tableD(1) [OF new] 3(2)]
      by (cases "points (m (ent U j))") (auto simp: lookup_def)
  qed
qed

lemma adds_table_tables:
  assumes new: "adds_table L m T i p u m'"
  shows "tables (L(p := L T - 1)) m'"
proof -
  note d = adds_tableD [OF new] and e = adds_table_entry [OF new]
  let ?L = "L(p := L T - 1)"
  have reg: "U \<noteq> p \<Longrightarrow> regular ?L U j \<longleftrightarrow> regular L U j" for U j by (simp add: regular_def)
  have kind: "(U = p \<and> m' (ent U j) = 0) \<or> (U = T \<and> j = i) \<or>
      (U \<noteq> p \<and> regular L U j \<and> m' (ent U j) = m (ent U j) \<and>
       (2 \<le> L U \<and> present (m' (ent U j)) \<longrightarrow>
          L (PAGE_PHYSICAL_ADDRESS (m' (ent U j))) = L U - 1 \<and> PAGE_PHYSICAL_ADDRESS (m' (ent U j)) \<noteq> p))"
    if "regular ?L U j" for U j
  proof (cases "U = p \<or> U = T \<and> j = i")
    case True
    then show ?thesis using d(8) that by (auto simp: regular_def)
  next
    case False
    with that have r: "regular L U j" using reg by blast
    moreover have m: "m' (ent U j) = m (ent U j)" using adds_table_old [OF new r] False by blast
    moreover have "L (PAGE_PHYSICAL_ADDRESS (m' (ent U j))) = L U - 1 \<and> PAGE_PHYSICAL_ADDRESS (m' (ent U j)) \<noteq> p"
      if "2 \<le> L U" "present (m' (ent U j))"
    proof -
      have "L (PAGE_PHYSICAL_ADDRESS (m' (ent U j))) = L U - 1" using tables_next [OF d(1) r] m that by simp
      then show ?thesis using that(1) d(5) by auto
    qed
    ultimately show ?thesis using False by blast
  qed
  have p0: "\<not> present 0" by (simp add: present_def)
  have inj: "U = V \<and> j = k" if "regular ?L U j" "regular ?L V k" "2 \<le> ?L U" "2 \<le> ?L V"
      "present (m' (ent U j))" "present (m' (ent V k))"
      "PAGE_PHYSICAL_ADDRESS (m' (ent U j)) = PAGE_PHYSICAL_ADDRESS (m' (ent V k))" for U j V k
    using kind [OF that(1)] kind [OF that(2)] that e(1) p0 table_entries_inj [of L m U j V k] d(1) [unfolded tables_def] by auto
  have "table_entries ?L m'" unfolding table_entries_def
  proof (intro conjI allI impI)
    fix U j assume "regular ?L U j"
    from kind [OF this] show "plain (m' (ent U j))" using e(3) tables_plain [OF d(1)] by auto
  next
    fix U j assume r: "regular ?L U j \<and> 2 \<le> ?L U \<and> present (m' (ent U j))"
    then show "?L (PAGE_PHYSICAL_ADDRESS (m' (ent U j))) = ?L U - 1"
      using kind [of U j] e(1) d(9) p0 by auto
  qed (use inj in blast)+
  moreover have "L T - 1 \<le> 4" using tables_table(1) [OF d(1), of T] d(3) by simp
  ultimately show ?thesis using d(1,6,7) by (auto simp: tables_def)
qed

text \<open>The same by a level of \<open>vmmgr_map_page\<close>, where the table is a frame of the physical allocator.\<close>

definition new_table ::
  "(u64 \<Rightarrow> nat) \<Rightarrow> vm_state \<Rightarrow> u64 \<Rightarrow> u64 \<Rightarrow> u64 \<Rightarrow> mmgr_state \<Rightarrow> (u64 \<Rightarrow> u64) \<Rightarrow> bool" where
  "new_table L s T i p mgr m' \<longleftrightarrow>
     pt_wf L s \<and> regular L T i \<and> 2 \<le> L T \<and> \<not> present (phys_mem s (ent T i)) \<and>
     mmgr_alloc_block (phys_mgr s) = Inr (mgr, p) \<and> p \<noteq> 0 \<and>
     (\<forall>U j. frame_addr U \<and> unat j < 512 \<longrightarrow>
        m' (ent U j) =
          (if U = T \<and> j = i then fill (phys_mem s (ent T i)) p False else phys_mem s (ent U j)))"

lemma new_tableD:
  assumes "new_table L s T i p mgr m'"
  shows "pt_wf L s" and "regular L T i" and "2 \<le> L T" and "\<not> present (phys_mem s (ent T i))"
    and "mmgr_inv (phys_mgr s)" and "mmgr_alloc_block (phys_mgr s) = Inr (mgr, p)" and "p \<noteq> 0"
    and "frame_addr T" and "L T \<noteq> 0"
  using assms pt_wf_table(2) [of L s T] by (auto simp: new_table_def pt_wf_def regular_def)

lemma block_frame_addr: "b < 2 ^ 26 \<Longrightarrow> frame_addr (of_nat b * 4096)"
proof (rule frame_addrI)
  fix k assume b: "b < 2 ^ 26" and k: "bit (of_nat b * 4096 :: u64) k"
  have eq: "(of_nat b * 4096 :: u64) = push_bit 12 (of_nat b)" by (simp add: push_bit_eq_mult)
  from k have 1: "12 \<le> k" "bit (of_nat b :: u64) (k - 12)" unfolding eq bit_push_bit_iff by auto
  from 1(2) have "bit (take_bit 26 b) (k - 12)"
    using b by (simp add: bit_of_nat_iff take_bit_nat_eq_self)
  with 1(1) show "12 \<le> k \<and> k < 44" by (auto simp: bit_take_bit_iff)
qed

lemma new_table_frame:
  assumes "new_table L s T i p mgr m'"
  shows "mgr \<noteq> phys_mgr s" and "frame_addr p"
proof -
  note d = new_tableD [OF assms]
  from d(6) mmgr_inv_len [OF d(5)] have "mgr \<noteq> phys_mgr s \<and> frame_addr p"
    by (cases rule: mmgr_alloc_blockE)
       (use d(7) in \<open>auto simp: mmgr_grant_neq intro: block_frame_addr least_freeD(2)\<close>)
  then show "mgr \<noteq> phys_mgr s" "frame_addr p" by auto
qed

lemma new_table_used:
  assumes "new_table L s T i p mgr m'"
  shows "\<not> mmgr_used (phys_mgr s) p" and "mmgr_used mgr p" and "mmgr_inv mgr"
    and "mmgr_used (phys_mgr s) q \<Longrightarrow> mmgr_used mgr q" and "L U \<noteq> 0 \<Longrightarrow> U \<noteq> p"
proof -
  note d = new_tableD [OF assms] and g = new_table_frame(1) [OF assms]
  show fresh: "\<not> mmgr_used (phys_mgr s) p" using d(5,6) g by (rule mm.alloc_fresh)
  show "mmgr_used mgr p" using d(5,6) g by (rule mm.alloc_used)
  show "mmgr_inv mgr" using d(5,6) by (rule mm.alloc_inv)
  show "mmgr_used mgr q" if "mmgr_used (phys_mgr s) q" using d(5,6) that by (rule mm.alloc_keeps)
  show "U \<noteq> p" if "L U \<noteq> 0" using pt_wf_table(4) [OF d(1) that] fresh by blast
qed

lemma new_table_adds:
  assumes "new_table L s T i p mgr m'"
  shows "adds_table L (phys_mem s) T i p False m'"
proof -
  note d = new_tableD [OF assms] and f = new_table_frame(2) [OF assms] and u = new_table_used [OF assms]
  have upd: "m' (ent U j) =
      (if U = T \<and> j = i then fill (phys_mem s (ent T i)) p False else phys_mem s (ent U j))"
    if "frame_addr U" "unat j < 512" for U j
    using assms that unfolding new_table_def by blast
  have "m' (ent p j) = 0" if "unat j < 512" for j
    using upd [OF f that] u(5) [OF d(9)] u(1) f that d(1) by (auto simp: pt_wf_def table_frames_def)
  moreover have "L p = 0" using u(5) by blast
  ultimately show ?thesis
    using upd [OF d(8), of i] upd [OF pt_wf_table(2) [OF d(1)]] d f pt_wf_tables [OF d(1)]
    unfolding adds_table_def regular_def by auto
qed

lemma new_table_entry:
  assumes "new_table L s T i p mgr m'"
  shows "PAGE_PHYSICAL_ADDRESS (m' (ent T i)) = p" and "points (m' (ent T i))"
    and "frame_addr U \<Longrightarrow> unat j < 512 \<Longrightarrow> \<not> (U = T \<and> j = i) \<Longrightarrow> m' (ent U j) = phys_mem s (ent U j)"
  using adds_table_entry(1,2) [OF new_table_adds [OF assms]] assms unfolding new_table_def by auto

lemmas new_table_old = adds_table_old [OF new_table_adds]

lemma new_table_frames:
  assumes new: "new_table L s T i p mgr m'"
  shows "table_frames (L(p := L T - 1)) (s\<lparr>phys_mgr := mgr, phys_mem := m'\<rparr>)"
proof -
  note d = new_tableD [OF new] and f = new_table_frame(2) [OF new] and u = new_table_used [OF new]
  have old: "table_frames L s" using d(1) by (simp add: pt_wf_def)
  have "cur_pml4_base_pointer s \<noteq> p" using u(5) old by (auto simp: table_frames_def)
  moreover have "m' (ent q j) = 0" if "frame_addr q" "\<not> mmgr_used mgr q" "unat j < 512" for q j
  proof -
    have "\<not> mmgr_used (phys_mgr s) q" using that(2) u(4) by blast
    moreover from this have "q \<noteq> T" using pt_wf_table(4) [OF d(1,9)] by blast
    ultimately show ?thesis
      using new_table_entry(3) [OF new that(1,3)] old that by (auto simp: table_frames_def)
  qed
  moreover have "L T - 1 \<le> 4" using pt_wf_table(1) [OF d(1,9)] by simp
  ultimately show ?thesis using old d(3,7) f u by (auto simp: table_frames_def)
qed

lemma new_table_wf:
  "new_table L s T i p mgr m' \<Longrightarrow> pt_wf (L(p := L T - 1)) (s\<lparr>phys_mgr := mgr, phys_mem := m'\<rparr>)"
  using new_table_frames adds_table_tables [OF new_table_adds] new_table_used(3)
  by (simp add: pt_wf_def tables_def)

text \<open>
  A level of \<open>vmmgr_map_page\<close> that returns leaves well-formed tables in which the entry points one
  level down, and changes no translation.
\<close>

definition extends :: "(u64 \<Rightarrow> nat) \<Rightarrow> (u64 \<Rightarrow> nat) \<Rightarrow> bool" where
  "extends L L' \<longleftrightarrow> (\<forall>U. L U \<noteq> 0 \<longrightarrow> L' U = L U)"

definition same_lookups :: "(u64 \<Rightarrow> nat) \<Rightarrow> vm_state \<Rightarrow> vm_state \<Rightarrow> bool" where
  "same_lookups L s s' \<longleftrightarrow>
     cur_pml4_base_pointer s' = cur_pml4_base_pointer s \<and>
     (\<forall>U j. regular L U j \<and> present (phys_mem s (ent U j)) \<longrightarrow>
            phys_mem s' (ent U j) = phys_mem s (ent U j)) \<and>
     (\<forall>U. L U = 4 \<longrightarrow> phys_mem s' (ent U 510) = phys_mem s (ent U 510)) \<and>
     (\<forall>U js. path L U js \<longrightarrow> lookup (phys_mem s') U js = lookup (phys_mem s) U js)"

lemma extends_path: "extends L L' \<Longrightarrow> path L U js \<Longrightarrow> path L' U js"
  by (auto simp: extends_def path_def regular_def)

lemma extends_regular: "extends L L' \<Longrightarrow> regular L U j \<Longrightarrow> regular L' U j \<and> L' U = L U"
  by (auto simp: extends_def regular_def)

lemma same_lookups_trans:
  assumes "same_lookups L r s" and "extends L L'" and "same_lookups L' s t"
  shows "same_lookups L r t"
  unfolding same_lookups_def
proof (intro conjI allI impI)
  show "cur_pml4_base_pointer t = cur_pml4_base_pointer r" using assms by (simp add: same_lookups_def)
  fix U j js
  show "phys_mem t (ent U j) = phys_mem r (ent U j)"
    if "regular L U j \<and> present (phys_mem r (ent U j))"
    using that assms extends_regular [OF assms(2), of U j] by (simp add: same_lookups_def)
  show "phys_mem t (ent U 510) = phys_mem r (ent U 510)" if "L U = 4"
    using that assms by (simp add: same_lookups_def extends_def)
  show "lookup (phys_mem t) U js = lookup (phys_mem r) U js" if "path L U js"
    using that assms extends_path [OF assms(2) that] by (simp add: same_lookups_def)
qed

lemma map_level_present: "ent T i \<noteq> 0 \<Longrightarrow> present (phys_mem s (ent T i)) \<Longrightarrow> map_level f n (ent T i) s = Inr s"
  using word_and_flag(1) [of "phys_mem s (ent T i)"]
  by (simp add: map_level_def load_def present_def PML4E_PRESENT_def)

lemma map_level_new:
  assumes wf: "pt_wf L s" and reg: "regular L T i" and dir: "2 \<le> L T" and n: "n \<le> 512"
    and empty: "\<not> present (phys_mem s (ent T i))"
    and alloc: "mmgr_alloc_block (phys_mgr s) = Inr (mgr, p)" and p: "p \<noteq> 0"
  obtains m' where "map_level fill n (ent T i) s = Inr (s\<lparr>phys_mgr := mgr, phys_mem := m'\<rparr>)"
    and "new_table L s T i p mgr m'"
proof -
  have T: "frame_addr T" "T \<noteq> 0" "unat i < 512"
    using pt_wf_table [OF wf, of T] reg by (auto simp: regular_def)
  have inv: "mmgr_inv (phys_mgr s)" using wf by (simp add: pt_wf_def)
  from alloc mmgr_inv_len [OF inv] have pf: "mgr \<noteq> phys_mgr s \<and> frame_addr p"
    by (cases rule: mmgr_alloc_blockE)
       (use p in \<open>auto simp: mmgr_grant_neq intro: block_frame_addr least_freeD(2)\<close>)
  then have fresh: "\<not> mmgr_used (phys_mgr s) p" using mm.alloc_fresh [OF inv alloc] by blast
  have clear: "clear_qwords p n (phys_mem s) (ent U j) = phys_mem s (ent U j)"
    if "frame_addr U" "unat j < 512" for U j
    using clear_qwords_ent [OF _ that n, of p "phys_mem s"] pf fresh wf that
    by (auto simp: pt_wf_def table_frames_def)
  let ?m = "(clear_qwords p n (phys_mem s))(ent T i := fill (phys_mem s (ent T i)) p False)"
  have "phys_mem s (ent T i) AND 1 = 0"
    using empty word_and_flag(1) [of "phys_mem s (ent T i)"] by (auto simp: present_def)
  then have "map_level fill n (ent T i) s = Inr (s\<lparr>phys_mgr := mgr, phys_mem := ?m\<rparr>)"
    using alloc p ent_nonzero [OF T] clear [OF T(1,3)]
    by (simp add: map_level_def load_def store_def PML4E_PRESENT_def)
  moreover have "new_table L s T i p mgr ?m"
    using wf reg dir empty alloc p clear ent_eq_iff [OF _ T(1) _ T(3)] unfolding new_table_def by auto
  ultimately show ?thesis by (rule that)
qed

lemma map_level_ok:
  assumes wf: "pt_wf L s" and reg: "regular L T i" and dir: "2 \<le> L T" and n: "n \<le> 512"
    and avail: "mmgr_supply (Suc k) (phys_mgr s)"
  obtains s' L' where "map_level fill n (ent T i) s = Inr s'" and "mmgr_supply k (phys_mgr s')"
    and "pt_wf L' s'" and "extends L L'" and "same_lookups L s s'"
    and "points (phys_mem s' (ent T i))" and "L' (PAGE_PHYSICAL_ADDRESS (phys_mem s' (ent T i))) = L T - 1"
proof (cases "present (phys_mem s (ent T i))")
  case True
  have "frame_addr T" "T \<noteq> 0" "unat i < 512" using pt_wf_table [OF wf, of T] reg by (auto simp: regular_def)
  note run = map_level_present [OF ent_nonzero [OF this] True, of fill n]
  show ?thesis
    using True run mmgr_supply_mono [OF avail, of k] wf pt_wf_next [OF wf reg dir]
      plain_points [OF pt_wf_plain [OF wf reg]]
    by (intro that [of s L]) (auto simp: extends_def same_lookups_def)
next
  case False
  from avail obtain mgr p where alloc: "mmgr_alloc_block (phys_mgr s) = Inr (mgr, p)" "p \<noteq> 0"
    and k: "mmgr_supply k mgr" by (auto split: sum.splits)
  obtain m' where run: "map_level fill n (ent T i) s = Inr (s\<lparr>phys_mgr := mgr, phys_mem := m'\<rparr>)"
    and new: "new_table L s T i p mgr m'" using map_level_new [OF wf reg dir n False alloc] .
  have "m' (ent U 510) = phys_mem s (ent U 510)" if "L U = 4" for U
    using new_table_entry(3) [OF new, of U 510] pt_wf_table(2) [OF wf, of U] that reg
    by (auto simp: regular_def)
  then have "same_lookups L s (s\<lparr>phys_mgr := mgr, phys_mem := m'\<rparr>)"
    using adds_table_lookup [OF new_table_adds [OF new]] new_table_old [OF new] False unfolding same_lookups_def
    by simp blast
  then show ?thesis
    using run k new_table_wf [OF new] new_table_used(5) [OF new] new_table_entry(1,2) [OF new]
    by (intro that [of "s\<lparr>phys_mgr := mgr, phys_mem := m'\<rparr>" "L(p := L T - 1)"]) (auto simp: extends_def)
qed

section \<open>Mapping a page\<close>

lemma table_entries_cong:
  assumes "table_entries L m" and "\<And>U j. regular L U j \<Longrightarrow> plain (m' (ent U j))"
    and same: "\<And>U j. regular L U j \<Longrightarrow> 2 \<le> L U \<Longrightarrow> m' (ent U j) = m (ent U j)"
  shows "table_entries L m'"
  unfolding table_entries_def
proof (intro conjI allI impI)
  fix T i U j
  assume r: "regular L T i \<and> regular L U j \<and> 2 \<le> L T \<and> 2 \<le> L U \<and>
            present (m' (ent T i)) \<and> present (m' (ent U j)) \<and>
            PAGE_PHYSICAL_ADDRESS (m' (ent T i)) = PAGE_PHYSICAL_ADDRESS (m' (ent U j))"
  then have e: "m' (ent T i) = m (ent T i)" "m' (ent U j) = m (ent U j)"
    using same [of T i] same [of U j] by blast+
  have "T = U \<and> i = j" using r [unfolded e] table_entries_inj [OF assms(1), of T i U j] by blast
  then show "T = U" "i = j" by auto
next
  fix T i assume r: "regular L T i \<and> 2 \<le> L T \<and> present (m' (ent T i))"
  then have e: "m' (ent T i) = m (ent T i)" using same [of T i] by blast
  show "L (PAGE_PHYSICAL_ADDRESS (m' (ent T i))) = L T - 1"
    using r assms(1) unfolding e table_entries_def by blast
qed (use assms(2) in blast)

lemma set_page_wf:
  assumes wf: "pt_wf L s" and reg: "regular L T i" and last: "L T = 1" and e: "plain e"
  shows "pt_wf L (s\<lparr>phys_mem := (phys_mem s)(ent T i := e)\<rparr>)"
proof -
  let ?m = "(phys_mem s)(ent T i := e)"
  have T: "frame_addr T" "unat i < 512" "mmgr_used (phys_mgr s) T"
    using pt_wf_table [OF wf, of T] reg by (auto simp: regular_def)
  have same: "?m (ent U j) = (if U = T \<and> j = i then e else phys_mem s (ent U j))"
    if "frame_addr U" "unat j < 512" for U j
    using ent_eq_iff [OF that(1) T(1) that(2) T(2)] by auto
  have U: "frame_addr U" "unat j < 512" if "regular L U j" for U j
    using pt_wf_table(2) [OF wf, of U] that by (auto simp: regular_def)
  have dirs: "?m (ent U j) = phys_mem s (ent U j)" if "regular L U j" "2 \<le> L U" for U j
    using same [OF U [OF that(1)]] last that(2) by auto
  have "table_frames L (s\<lparr>phys_mem := ?m\<rparr>)"
    using wf same T(3) unfolding pt_wf_def table_frames_def by auto
  moreover have "table_entries L ?m"
  proof (rule table_entries_cong)
    show "table_entries L (phys_mem s)" using wf by (simp add: pt_wf_def)
    show "plain (?m (ent U j))" if "regular L U j" for U j
      using same [OF U [OF that]] e pt_wf_plain [OF wf that] by simp
  qed (rule dirs)
  ultimately show ?thesis using wf by (simp add: pt_wf_def)
qed

lemma set_page_locate:
  assumes wf: "tables L m" and reg: "regular L T i" and last: "L T = 1"
  shows "path L U js \<Longrightarrow> locate (m(ent T i := e)) U js = locate m U js"
proof (induction U js rule: locate_induct [where m = m])
  case (3 U j k ks)
  have T: "frame_addr T" "unat i < 512" and U: "frame_addr U" "unat j < 512" "U \<noteq> T"
    using tables_table(2) [OF wf, of T] tables_table(2) [OF wf, of U] reg last 3(2)
    by (auto simp: regular_def path_def)
  then have "(m(ent T i := e)) (ent U j) = m (ent U j)"
    using ent_eq_iff [of U T j i] by simp
  then show ?case using 3(1) path_step [OF wf 3(2)] by auto
qed simp_all

text \<open>The translation after the last-level entry \<open>i\<close> of \<open>T\<close> is set.\<close>

lemma set_page_lookup:
  assumes wf: "tables L m" and reg: "regular L T i" and last: "L T = 1" and js: "path L U js" and e: "present e"
  shows "lookup (m(ent T i := e)) U js =
           (if locate m U js = Some (T, i) then Some e else lookup m U js)"
proof (cases "locate m U js")
  case None
  then show ?thesis using set_page_locate [OF wf reg last js] by (simp add: lookup_def)
next
  case (Some x)
  obtain A a where x: "x = (A, a)" by (cases x)
  have "regular L A a" using locate_regular [OF wf js] Some x by simp
  then have "frame_addr A" "unat a < 512"
    using tables_table(2) [OF wf, of A] by (auto simp: regular_def)
  then have "ent A a = ent T i \<longleftrightarrow> A = T \<and> a = i"
    using ent_eq_iff [of A T a i] tables_table(2) [OF wf, of T] reg by (auto simp: regular_def)
  then show ?thesis using set_page_locate [OF wf reg last js] Some x e by (auto simp: lookup_def)
qed

text \<open>The four steps of \<open>vmmgr_map_page\<close>.\<close>

lemma vmmgr_map_page_steps:
  assumes "map_level fill 512 (ent (cur_pml4_base_pointer s) (PAGE_PML4_OFFSET virt)) s = Inr s1"
    and "T3 = PAGE_PHYSICAL_ADDRESS (phys_mem s1 (ent (cur_pml4_base_pointer s) (PAGE_PML4_OFFSET virt)))"
    and "map_level fill 512 (ent T3 (PAGE_POINTER_OFFSET virt)) s1 = Inr s2"
    and "T2 = PAGE_PHYSICAL_ADDRESS (phys_mem s2 (ent T3 (PAGE_POINTER_OFFSET virt)))"
    and "map_level fill 1 (ent T2 (PAGE_DIRECTORY_OFFSET virt)) s2 = Inr s3"
    and "T1 = PAGE_PHYSICAL_ADDRESS (phys_mem s3 (ent T2 (PAGE_DIRECTORY_OFFSET virt)))"
    and "\<And>T. T \<in> {cur_pml4_base_pointer s, T3, T2, T1} \<Longrightarrow> frame_addr T \<and> T \<noteq> 0"
    and "frame_addr phys"
  shows "vmmgr_map_page phys virt s =
    Inr (s3\<lparr>phys_mem := (phys_mem s3)(ent T1 (PAGE_TABLE_OFFSET virt) :=
             fill (phys_mem s3 (ent T1 (PAGE_TABLE_OFFSET virt))) phys False)\<rparr>)"
proof -
  have nz: "ent T i \<noteq> 0" if "T \<in> {cur_pml4_base_pointer s, T3, T2, T1}" "unat i < 512" for T i
    using ent_nonzero assms(7) [OF that(1)] that(2) by blast
  note nz = nz [of "cur_pml4_base_pointer s" "PAGE_PML4_OFFSET virt"] nz [of T3 "PAGE_POINTER_OFFSET virt"]
    nz [of T2 "PAGE_DIRECTORY_OFFSET virt"] nz [of T1 "PAGE_TABLE_OFFSET virt"]
  show ?thesis
    using assms(1,3,5,7) nz offset_less [of virt]
    by (simp add: vmmgr_map_page_def Let_def set_entry_fill load_def store_def ent_def [symmetric]
        last_entry_fill [OF assms(8)] vmmgr_pml4_directory_lookup_entry_def
        vmmgr_page_pointer_directory_lookup_entry_def vmmgr_page_directory_lookup_entry_def
        vmmgr_ptable_lookup_entry_def assms(2,4,6) [symmetric])
qed

lemma path_indices:
  assumes "L base = 4" and "PAGE_PML4_OFFSET v \<noteq> 510"
  shows "path L base (indices v)"
  using assms offset_less [of v] by (simp add: path_def regular_def indices_def)

text \<open>With three frames available, the page table of \<open>virt\<close> exists after the three levels.\<close>

lemma map_levels:
  assumes wf: "pt_wf L s" and slot: "PAGE_PML4_OFFSET virt \<noteq> 510" and avail: "mmgr_supply (k + 3) (phys_mgr s)"
    and phys: "frame_addr phys"
  obtains s3 L3 T1 where "pt_wf L3 s3" and "extends L L3" and "same_lookups L s s3"
    and "mmgr_supply k (phys_mgr s3)" and "L3 T1 = 1"
    and "locate (phys_mem s3) (cur_pml4_base_pointer s) (indices virt) = Some (T1, PAGE_TABLE_OFFSET virt)"
    and "vmmgr_map_page phys virt s =
      Inr (s3\<lparr>phys_mem := (phys_mem s3)(ent T1 (PAGE_TABLE_OFFSET virt) :=
               fill (phys_mem s3 (ent T1 (PAGE_TABLE_OFFSET virt))) phys False)\<rparr>)"
proof -
  let ?B = "cur_pml4_base_pointer s"
  let ?i4 = "PAGE_PML4_OFFSET virt" and ?i3 = "PAGE_POINTER_OFFSET virt" and ?i2 = "PAGE_DIRECTORY_OFFSET virt"
  note lt = offset_less [of virt]
  have B: "L ?B = 4" using wf by (simp add: pt_wf_def table_frames_def)
  then have r4: "regular L ?B ?i4" "2 \<le> L ?B" using slot lt by (simp_all add: regular_def)
  have "mmgr_supply (Suc (k + 2)) (phys_mgr s)"
    using avail by (simp add: numeral_eq_Suc del: mmgr_supply.simps)
  from map_level_ok [OF wf r4 order_refl this] B obtain s1 L1 where
    1: "map_level fill 512 (ent ?B ?i4) s = Inr s1" "mmgr_supply (k + 2) (phys_mgr s1)" "pt_wf L1 s1" "extends L L1"
      "same_lookups L s s1" "points (phys_mem s1 (ent ?B ?i4))" "L1 (PAGE_PHYSICAL_ADDRESS (phys_mem s1 (ent ?B ?i4))) = 3"
    by auto
  define T3 where "T3 = PAGE_PHYSICAL_ADDRESS (phys_mem s1 (ent ?B ?i4))"
  have r3: "regular L1 T3 ?i3" "2 \<le> L1 T3" using 1(7) lt by (simp_all add: regular_def T3_def)
  have "mmgr_supply (Suc (k + 1)) (phys_mgr s1)"
    using 1(2) by (simp add: numeral_eq_Suc del: mmgr_supply.simps)
  from map_level_ok [OF 1(3) r3 order_refl this] 1(7) obtain s2 L2 where
    2: "map_level fill 512 (ent T3 ?i3) s1 = Inr s2" "mmgr_supply (k + 1) (phys_mgr s2)" "pt_wf L2 s2" "extends L1 L2"
      "same_lookups L1 s1 s2" "points (phys_mem s2 (ent T3 ?i3))" "L2 (PAGE_PHYSICAL_ADDRESS (phys_mem s2 (ent T3 ?i3))) = 2"
    by (auto simp: T3_def)
  define T2 where "T2 = PAGE_PHYSICAL_ADDRESS (phys_mem s2 (ent T3 ?i3))"
  have r2: "regular L2 T2 ?i2" "2 \<le> L2 T2" using 2(7) lt by (simp_all add: regular_def T2_def)
  have "mmgr_supply (Suc k) (phys_mgr s2)" using 2(2) by (simp del: mmgr_supply.simps)
  from map_level_ok [OF 2(3) r2 _ this, of 1] 2(7) obtain s3 L3 where
    3: "map_level fill 1 (ent T2 ?i2) s2 = Inr s3" "mmgr_supply k (phys_mgr s3)" "pt_wf L3 s3" "extends L2 L3"
      "same_lookups L2 s2 s3" "points (phys_mem s3 (ent T2 ?i2))" "L3 (PAGE_PHYSICAL_ADDRESS (phys_mem s3 (ent T2 ?i2))) = 1"
    by (auto simp: T2_def)
  define T1 where "T1 = PAGE_PHYSICAL_ADDRESS (phys_mem s3 (ent T2 ?i2))"
  have ext: "extends L L3" "extends L1 L3" using 1(4) 2(4) 3(4) by (auto simp: extends_def)
  have s13: "same_lookups L1 s1 s3" using 2(5,4) 3(5) by (rule same_lookups_trans)
  show ?thesis
  proof (rule that [OF 3(3) ext(1) same_lookups_trans [OF 1(5,4) s13] 3(2)])
    show "L3 T1 = 1" using 3(7) by (simp add: T1_def)
    have "phys_mem s3 (ent ?B ?i4) = phys_mem s1 (ent ?B ?i4)" "phys_mem s3 (ent T3 ?i3) = phys_mem s2 (ent T3 ?i3)"
      using s13 3(5) 1(6) 2(6) extends_regular [OF 1(4) r4(1)] extends_regular [OF 2(4) r3(1)]
      by (auto simp: same_lookups_def points_def present_def)
    then show "locate (phys_mem s3) ?B (indices virt) = Some (T1, PAGE_TABLE_OFFSET virt)"
      using 1(6) 2(6) 3(6)
      by (simp add: indices_def T3_def [symmetric] T2_def [symmetric] T1_def [symmetric])
    have "L3 T \<noteq> 0" if "T \<in> {?B, T3, T2, T1}" for T
      using that B 1(7) 2(7) 3(7,4) ext by (auto simp: extends_def T3_def T2_def T1_def)
    then have "frame_addr T \<and> T \<noteq> 0" if "T \<in> {?B, T3, T2, T1}" for T
      using pt_wf_table(2,3) [OF 3(3)] that by blast
    then show "vmmgr_map_page phys virt s =
      Inr (s3\<lparr>phys_mem := (phys_mem s3)(ent T1 (PAGE_TABLE_OFFSET virt) :=
               fill (phys_mem s3 (ent T1 (PAGE_TABLE_OFFSET virt))) phys False)\<rparr>)"
      using vmmgr_map_page_steps [OF 1(1) T3_def 2(1) T2_def 3(1) T1_def _ phys] by blast
  qed
qed

text \<open>When the page table of \<open>virt\<close> exists already, no frame is taken.\<close>

lemma map_levels_located:
  assumes wf: "pt_wf L s" and slot: "PAGE_PML4_OFFSET virt \<noteq> 510"
    and loc: "locate (phys_mem s) (cur_pml4_base_pointer s) (indices virt) \<noteq> None"
    and phys: "frame_addr phys"
  obtains T1 where "L T1 = 1"
    and "locate (phys_mem s) (cur_pml4_base_pointer s) (indices virt) = Some (T1, PAGE_TABLE_OFFSET virt)"
    and "vmmgr_map_page phys virt s =
      Inr (s\<lparr>phys_mem := (phys_mem s)(ent T1 (PAGE_TABLE_OFFSET virt) :=
              fill (phys_mem s (ent T1 (PAGE_TABLE_OFFSET virt))) phys False)\<rparr>)"
proof -
  let ?B = "cur_pml4_base_pointer s" and ?m = "phys_mem s"
  let ?i4 = "PAGE_PML4_OFFSET virt" and ?i3 = "PAGE_POINTER_OFFSET virt" and ?i2 = "PAGE_DIRECTORY_OFFSET virt"
  define T3 where "T3 = PAGE_PHYSICAL_ADDRESS (?m (ent ?B ?i4))"
  define T2 where "T2 = PAGE_PHYSICAL_ADDRESS (?m (ent T3 ?i3))"
  define T1 where "T1 = PAGE_PHYSICAL_ADDRESS (?m (ent T2 ?i2))"
  note lt = offset_less [of virt]
  from loc have pts: "present (?m (ent ?B ?i4))" "present (?m (ent T3 ?i3))" "present (?m (ent T2 ?i2))"
    and at: "locate ?m ?B (indices virt) = Some (T1, PAGE_TABLE_OFFSET virt)"
    by (auto simp: indices_def points_def present_def T3_def T2_def T1_def split: if_splits)
  have B: "L ?B = 4" using wf by (simp add: pt_wf_def table_frames_def)
  have L3: "L T3 = 3"
    using pt_wf_next [OF wf _ _ pts(1)] B slot lt by (simp add: regular_def T3_def)
  have L2: "L T2 = 2" using pt_wf_next [OF wf _ _ pts(2)] L3 lt by (simp add: regular_def T2_def)
  have L1: "L T1 = 1" using pt_wf_next [OF wf _ _ pts(3)] L2 lt by (simp add: regular_def T1_def)
  have tables: "frame_addr T \<and> T \<noteq> 0" if "T \<in> {?B, T3, T2, T1}" for T
    using pt_wf_table(2,3) [OF wf, of T] that B L3 L2 L1 by auto
  have run: "map_level fill n (ent T i) s = Inr s" if "T \<in> {?B, T3, T2}" "unat i < 512" "present (?m (ent T i))" for n T i
    using map_level_present [OF ent_nonzero] tables that by blast
  show ?thesis
    using vmmgr_map_page_steps [OF run T3_def run T2_def run T1_def tables phys] pts lt
    by (intro that [OF L1 at]) simp
qed

text \<open>The effect of setting the last-level entry of \<open>virt\<close> on every translation.\<close>

lemma map_page_last:
  assumes wf: "pt_wf L s" and slot: "PAGE_PML4_OFFSET virt \<noteq> 510" and phys: "frame_addr phys" and T1: "L T1 = 1"
    and loc: "locate (phys_mem s) (cur_pml4_base_pointer s) (indices virt) = Some (T1, PAGE_TABLE_OFFSET virt)"
    and s': "s' = s\<lparr>phys_mem := (phys_mem s)(ent T1 (PAGE_TABLE_OFFSET virt) :=
               fill (phys_mem s (ent T1 (PAGE_TABLE_OFFSET virt))) phys False)\<rparr>"
  shows "pt_wf L s'"
    and "locate (phys_mem s') (cur_pml4_base_pointer s) (indices virt) \<noteq> None"
    and "phys_mem s' (ent (cur_pml4_base_pointer s) 510) = phys_mem s (ent (cur_pml4_base_pointer s) 510)"
    and "PAGE_PML4_OFFSET v \<noteq> 510 \<Longrightarrow> walk (phys_mem s') (cur_pml4_base_pointer s) v =
      (if indices v = indices virt then Some (phys + (v AND 0xFFF))
       else walk (phys_mem s) (cur_pml4_base_pointer s) v)"
proof -
  let ?B = "cur_pml4_base_pointer s" and ?i1 = "PAGE_TABLE_OFFSET virt"
  have r1: "regular L T1 ?i1" using T1 offset_less [of virt] by (simp add: regular_def)
  note e = fill_entry [OF pt_wf_plain [OF wf r1] phys, of False]
  have B: "L ?B = 4" using wf by (simp add: pt_wf_def table_frames_def)
  have virt: "path L ?B (indices virt)" using path_indices [of L ?B, OF B slot] .
  show "pt_wf L s'" unfolding s' by (rule set_page_wf [OF wf r1 T1 e(3)])
  show "locate (phys_mem s') ?B (indices virt) \<noteq> None"
    using set_page_locate [OF pt_wf_tables [OF wf] r1 T1 virt] loc by (simp add: s')
  have "ent ?B 510 \<noteq> ent T1 ?i1"
    using ent_eq_iff [of ?B T1 510 ?i1] pt_wf_table(2) [OF wf, of ?B] pt_wf_table(2) [OF wf, of T1] B T1
      offset_less [of virt] by auto
  then show "phys_mem s' (ent ?B 510) = phys_mem s (ent ?B 510)" by (simp add: s')
  assume "PAGE_PML4_OFFSET v \<noteq> 510"
  then have p: "path L ?B (indices v)" using path_indices [of L ?B, OF B] by blast
  have iff: "locate (phys_mem s) ?B (indices v) = Some (T1, ?i1) \<longleftrightarrow> indices v = indices virt"
    using locate_inj [OF pt_wf_tables [OF wf] p virt refl _ loc] loc by auto
  have "present (fill (phys_mem s (ent T1 ?i1)) phys False)" using e(2) by (simp add: points_def present_def)
  from set_page_lookup [OF pt_wf_tables [OF wf] r1 T1 p this] iff e(1)
  show "walk (phys_mem s') ?B v =
      (if indices v = indices virt then Some (phys + (v AND 0xFFF)) else walk (phys_mem s) ?B v)"
    by (simp add: walk_lookup s')
qed

text \<open>
  The refinement: given three frames, or none when the page table exists, \<open>vmmgr_map_page\<close> returns,
  sets the translation of one page, keeps every other (outside the recursive slot) and leaves
  well-formed tables.
\<close>

definition maps_page :: "u64 \<Rightarrow> u64 \<Rightarrow> vm_state \<Rightarrow> vm_state \<Rightarrow> bool" where
  "maps_page phys virt s s' \<longleftrightarrow>
     cur_pml4_base_pointer s' = cur_pml4_base_pointer s \<and>
     phys_mem s' (ent (cur_pml4_base_pointer s) 510) = phys_mem s (ent (cur_pml4_base_pointer s) 510) \<and>
     locate (phys_mem s') (cur_pml4_base_pointer s) (indices virt) \<noteq> None \<and>
     (\<forall>v. PAGE_PML4_OFFSET v \<noteq> 510 \<longrightarrow>
        walk (phys_mem s') (cur_pml4_base_pointer s) v =
          (if indices v = indices virt then Some (phys + (v AND 0xFFF))
           else walk (phys_mem s) (cur_pml4_base_pointer s) v))"

lemma map_page_refines:
  assumes wf: "pt_wf L s" and slot: "PAGE_PML4_OFFSET virt \<noteq> 510" and phys: "frame_addr phys"
    and avail: "mmgr_supply (k + 3) (phys_mgr s) \<or>
      locate (phys_mem s) (cur_pml4_base_pointer s) (indices virt) \<noteq> None \<and> mmgr_supply k (phys_mgr s)"
  obtains s' L' where "vmmgr_map_page phys virt s = Inr s'" and "pt_wf L' s'"
    and "maps_page phys virt s s'" and "mmgr_supply k (phys_mgr s')"
proof (cases "locate (phys_mem s) (cur_pml4_base_pointer s) (indices virt) \<noteq> None")
  case True
  obtain T1 where T1: "L T1 = 1"
      "locate (phys_mem s) (cur_pml4_base_pointer s) (indices virt) = Some (T1, PAGE_TABLE_OFFSET virt)"
    and run: "vmmgr_map_page phys virt s =
      Inr (s\<lparr>phys_mem := (phys_mem s)(ent T1 (PAGE_TABLE_OFFSET virt) :=
              fill (phys_mem s (ent T1 (PAGE_TABLE_OFFSET virt))) phys False)\<rparr>)"
    by (rule map_levels_located [OF wf slot True phys])
  note last = map_page_last [OF wf slot phys T1 refl]
  show ?thesis
  proof (rule that [OF run last(1)])
    show "maps_page phys virt s (s\<lparr>phys_mem := (phys_mem s)(ent T1 (PAGE_TABLE_OFFSET virt) :=
              fill (phys_mem s (ent T1 (PAGE_TABLE_OFFSET virt))) phys False)\<rparr>)"
      unfolding maps_page_def using last(2-4) by simp
  qed (use avail mmgr_supply_mono [of "k + 3" "phys_mgr s" k] in auto)
next
  case False
  with avail have av: "mmgr_supply (k + 3) (phys_mgr s)" by blast
  obtain s3 L3 T1 where l: "pt_wf L3 s3" "extends L L3" "same_lookups L s s3"
      "mmgr_supply k (phys_mgr s3)" "L3 T1 = 1"
      "locate (phys_mem s3) (cur_pml4_base_pointer s) (indices virt) = Some (T1, PAGE_TABLE_OFFSET virt)"
    and run: "vmmgr_map_page phys virt s =
      Inr (s3\<lparr>phys_mem := (phys_mem s3)(ent T1 (PAGE_TABLE_OFFSET virt) :=
               fill (phys_mem s3 (ent T1 (PAGE_TABLE_OFFSET virt))) phys False)\<rparr>)"
    by (rule map_levels [OF wf slot av phys])
  have B: "cur_pml4_base_pointer s3 = cur_pml4_base_pointer s" "L (cur_pml4_base_pointer s) = 4"
    using l(3) wf by (auto simp: same_lookups_def pt_wf_def table_frames_def)
  have same: "walk (phys_mem s3) (cur_pml4_base_pointer s) v = walk (phys_mem s) (cur_pml4_base_pointer s) v"
    if "PAGE_PML4_OFFSET v \<noteq> 510" for v
    using l(3) path_indices [of L "cur_pml4_base_pointer s", OF B(2) that]
    by (simp add: walk_lookup same_lookups_def)
  have "phys_mem s3 (ent (cur_pml4_base_pointer s) 510) = phys_mem s (ent (cur_pml4_base_pointer s) 510)"
    using l(3) B(2) by (simp add: same_lookups_def)
  note slot510 = this
  note last = map_page_last [OF l(1) slot phys l(5) l(6) [folded B(1)] refl, unfolded B(1)]
  show ?thesis
  proof (rule that [OF run last(1)])
    show "maps_page phys virt s (s3\<lparr>phys_mem := (phys_mem s3)(ent T1 (PAGE_TABLE_OFFSET virt) :=
              fill (phys_mem s3 (ent T1 (PAGE_TABLE_OFFSET virt))) phys False)\<rparr>)"
      unfolding maps_page_def using last(2-4) same slot510 B(1) by simp
  qed (use l(4) in simp)
qed

end
