(* ===== verification/Kernel_Map.thy ===== *)
theory Kernel_Map
  imports Page_Walk
begin

text \<open>
  What \<open>vmmgr_init\<close> of \<open>sys/mm/vmmgr_virtual.c\<close> establishes: the kernel's addresses from
  \<open>VIRT_BASE + physbase\<close> on are translated page by page to the frames from 2 MB on, the screen to its
  frame, and the recursive slot to the level-4 table itself.
\<close>

section \<open>Addresses of the kernel\<close>

text \<open>The top 2 GB of the address space.\<close>

definition kern :: "nat \<Rightarrow> u64" where
  "kern t = VIRT_BASE + of_nat t"

lemma unat_kern: "t < 2 ^ 31 \<Longrightarrow> unat (kern t) = 0xFFFFFFFF80000000 + t"
proof -
  assume t: "t < 2 ^ 31"
  then have "unat (of_nat t :: u64) = t" by (simp add: unat_of_nat)
  with t show ?thesis unfolding kern_def VIRT_BASE_def by (subst unat_plus) simp_all
qed

lemma kern_offsets:
  assumes "t < 2 ^ 31"
  shows "unat (PAGE_PML4_OFFSET (kern t)) = 511"
    and "unat (PAGE_POINTER_OFFSET (kern t)) = 510 + t div 2 ^ 30"
    and "unat (PAGE_DIRECTORY_OFFSET (kern t)) = t div 2 ^ 21 mod 512"
    and "unat (PAGE_TABLE_OFFSET (kern t)) = t div 2 ^ 12 mod 512"
proof -
  note u = unat_kern [OF assms]
  have "unat (kern t) div 2 ^ 39 = 0x1FFFFFF" by (rule div_nat_eqI) (use u assms in simp_all)
  then show "unat (PAGE_PML4_OFFSET (kern t)) = 511" by (simp add: unat_offset)
  have "unat (kern t) div 2 ^ 30 = 0x3FFFFFFFE + t div 2 ^ 30" unfolding u by simp
  moreover have "t div 2 ^ 30 < 2" using assms by (simp add: div_less_iff_less_mult)
  ultimately show "unat (PAGE_POINTER_OFFSET (kern t)) = 510 + t div 2 ^ 30"
    by (auto simp: unat_offset less_2_cases_iff)
  have "unat (kern t) div 2 ^ 21 = 0xFFFFFFFF80000000 div 2 ^ 21 + t div 2 ^ 21"
    unfolding u by (rule div_plus_div_distrib_dvd_left) simp
  then have "unat (kern t) div 2 ^ 21 = 512 * 0x3FFFFFFFE + t div 2 ^ 21" by simp
  then show "unat (PAGE_DIRECTORY_OFFSET (kern t)) = t div 2 ^ 21 mod 512"
    by (simp only: unat_offset mod_mult_self4)
  have "unat (kern t) div 2 ^ 12 = 0xFFFFFFFF80000000 div 2 ^ 12 + t div 2 ^ 12"
    unfolding u by (rule div_plus_div_distrib_dvd_left) simp
  then have "unat (kern t) div 2 ^ 12 = 512 * 0x7FFFFFFFC00 + t div 2 ^ 12" by simp
  then show "unat (PAGE_TABLE_OFFSET (kern t)) = t div 2 ^ 12 mod 512"
    by (simp only: unat_offset mod_mult_self4)
qed

lemma kern_slot: "t < 2 ^ 31 \<Longrightarrow> PAGE_PML4_OFFSET (kern t) \<noteq> 510"
  using kern_offsets(1) [of t] by auto

lemma kern_add: "kern t + 4096 * of_nat n = kern (t + 4096 * n)"
  by (simp add: kern_def)

text \<open>Pages of the kernel have different indices; pages of one 2 MB region share their page table.\<close>

lemma div_levels: "x div 2 ^ 21 div 512 = x div 2 ^ 30" "x div 2 ^ 12 div 512 = (x :: nat) div 2 ^ 21"
  by (simp_all add: div_mult2_eq [symmetric])

lemma kern_indices_eq:
  assumes "t < 2 ^ 31" and "u < 2 ^ 31"
  shows "indices (kern t) = indices (kern u) \<longleftrightarrow> t div 4096 = u div 4096"
proof
  assume "indices (kern t) = indices (kern u)"
  then have "t div 2 ^ 30 = u div 2 ^ 30" "t div 2 ^ 21 mod 512 = u div 2 ^ 21 mod 512"
    "t div 2 ^ 12 mod 512 = u div 2 ^ 12 mod 512"
    using kern_offsets [OF assms(1)] kern_offsets [OF assms(2)] by (simp_all add: indices_def)
  note off = this
  have join: "x = y" if "x div 512 = y div 512" "x mod 512 = y mod 512" for x y :: nat
  proof -
    have "x div 512 * 512 + x mod 512 = y div 512 * 512 + y mod 512" using that by (simp only:)
    then show ?thesis by (simp only: div_mult_mod_eq)
  qed
  have d: "t div 2 ^ 21 = u div 2 ^ 21" by (rule join) (simp_all only: div_levels off)
  have "t div 2 ^ 12 = u div 2 ^ 12" by (rule join) (simp_all only: div_levels off d)
  then show "t div 4096 = u div 4096" by simp
next
  assume eq: "t div 4096 = u div 4096"
  then have "t div 2 ^ 12 = u div 2 ^ 12" by simp
  then have "t div 2 ^ 21 = u div 2 ^ 21" "t div 2 ^ 30 = u div 2 ^ 30" "t div 2 ^ 12 = u div 2 ^ 12"
    by (simp_all only: div_levels [symmetric])
  then show "indices (kern t) = indices (kern u)"
    using kern_offsets [OF assms(1)] kern_offsets [OF assms(2)]
    by (simp add: indices_def word_unat_eq_iff)
qed

lemma locate_same_table:
  assumes "t < 2 ^ 31" and "u < 2 ^ 31" and "t div 2 ^ 21 = u div 2 ^ 21"
  shows "locate m B (indices (kern t)) \<noteq> None \<longleftrightarrow> locate m B (indices (kern u)) \<noteq> None"
proof -
  have "t div 2 ^ 21 div 512 = u div 2 ^ 21 div 512" using assms(3) by simp
  then have "t div 2 ^ 30 = u div 2 ^ 30" by (simp add: div_mult2_eq [symmetric])
  then have "PAGE_PML4_OFFSET (kern t) = PAGE_PML4_OFFSET (kern u)"
      "PAGE_POINTER_OFFSET (kern t) = PAGE_POINTER_OFFSET (kern u)"
      "PAGE_DIRECTORY_OFFSET (kern t) = PAGE_DIRECTORY_OFFSET (kern u)"
    using kern_offsets [OF assms(1)] kern_offsets [OF assms(2)] assms(3) by (simp_all add: word_unat_eq_iff)
  then show ?thesis by (simp add: indices_def)
qed

section \<open>Mapping a range\<close>

text \<open>The effect of mapping \<open>n\<close> pages from \<open>kern t\<close> on to the frames from \<open>f\<close> on.\<close>

definition maps_range :: "nat \<Rightarrow> u64 \<Rightarrow> nat \<Rightarrow> vm_state \<Rightarrow> vm_state \<Rightarrow> bool" where
  "maps_range n f t s s' \<longleftrightarrow>
     cur_pml4_base_pointer s' = cur_pml4_base_pointer s \<and>
     phys_mem s' (ent (cur_pml4_base_pointer s) 510) = phys_mem s (ent (cur_pml4_base_pointer s) 510) \<and>
     (\<forall>j<n. \<forall>v. indices v = indices (kern (t + 4096 * j)) \<longrightarrow>
        walk (phys_mem s') (cur_pml4_base_pointer s) v = Some (f + 4096 * of_nat j + (v AND 0xFFF))) \<and>
     (\<forall>v. PAGE_PML4_OFFSET v \<noteq> 510 \<and> (\<forall>j<n. indices v \<noteq> indices (kern (t + 4096 * j))) \<longrightarrow>
        walk (phys_mem s') (cur_pml4_base_pointer s) v = walk (phys_mem s) (cur_pml4_base_pointer s) v)"

lemma maps_page_range:
  assumes "maps_page f (kern t) s s'" and "t < 2 ^ 31"
  shows "maps_range 1 f t s s'"
proof -
  have "PAGE_PML4_OFFSET v \<noteq> 510" if "indices v = indices (kern t)" for v
    using that kern_slot [OF assms(2)] by (simp add: indices_def)
  with assms(1) show ?thesis by (auto simp: maps_page_def maps_range_def)
qed

lemma maps_range_trans:
  assumes 1: "maps_range n f t r s" and 2: "maps_range k (f + 4096 * of_nat n) (t + 4096 * n) s s'"
    and t: "t + 4096 * (n + k) \<le> 2 ^ 31" "4096 dvd t"
  shows "maps_range (n + k) f t r s'"
proof -
  let ?B = "cur_pml4_base_pointer r"
  have B: "cur_pml4_base_pointer s = ?B" using 1 by (simp add: maps_range_def)
  have neq: "indices (kern (t + 4096 * i)) \<noteq> indices (kern (t + 4096 * j))"
    if "i < n + k" "j < n + k" "i \<noteq> j" for i j
  proof -
    have "(t + 4096 * i) div 4096 \<noteq> (t + 4096 * j) div 4096" using that(3) t(2) by (simp add: div_plus_div_distrib_dvd_left)
    then show ?thesis using kern_indices_eq [of "t + 4096 * i" "t + 4096 * j"] that t(1) by simp
  qed
  have slot: "PAGE_PML4_OFFSET v \<noteq> 510" if "indices v = indices (kern (t + 4096 * j))" "j < n + k" for v j
    using that kern_slot [of "t + 4096 * j"] t(1) by (simp add: indices_def)
  have old: "walk (phys_mem s') ?B v = walk (phys_mem s) ?B v"
    if "PAGE_PML4_OFFSET v \<noteq> 510" "\<And>j. j < k \<Longrightarrow> indices v \<noteq> indices (kern (t + 4096 * (n + j)))" for v
    using 2 that unfolding maps_range_def B by (simp add: add.assoc distrib_left)
  show ?thesis unfolding maps_range_def
  proof (intro conjI allI impI)
    show "cur_pml4_base_pointer s' = ?B" "phys_mem s' (ent ?B 510) = phys_mem r (ent ?B 510)"
      using 1 2 by (simp_all add: maps_range_def)
  next
    fix j v assume j: "j < n + k" and v: "indices v = indices (kern (t + 4096 * j))"
    show "walk (phys_mem s') ?B v = Some (f + 4096 * of_nat j + (v AND 0xFFF))"
    proof (cases "j < n")
      case True
      have "indices v \<noteq> indices (kern (t + 4096 * (n + i)))" if "i < k" for i
        using neq [OF j, of "n + i"] True that v by simp
      then have "walk (phys_mem s') ?B v = walk (phys_mem s) ?B v" by (rule old [OF slot [OF v j]])
      then show ?thesis using 1 True v by (simp add: maps_range_def)
    next
      case False
      then obtain i where i: "j = n + i" "i < k" using j by (metis add_less_cancel_left le_Suc_ex not_less)
      then show ?thesis using 2 v unfolding maps_range_def B by (simp add: add.assoc distrib_left)
    qed
  next
    fix v assume v: "PAGE_PML4_OFFSET v \<noteq> 510 \<and> (\<forall>j<n + k. indices v \<noteq> indices (kern (t + 4096 * j)))"
    have "indices v \<noteq> indices (kern (t + 4096 * (n + j)))" if "j < k" for j
      using conjunct2 [OF v, rule_format, of "n + j"] that by simp
    then have "walk (phys_mem s') ?B v = walk (phys_mem s) ?B v" by (rule old [OF conjunct1 [OF v]])
    then show "walk (phys_mem s') ?B v = walk (phys_mem r) ?B v"
      using v 1 unfolding maps_range_def by simp
  qed
qed

text \<open>
  A range within one 2 MB region whose page table exists takes no frame; a whole region takes at
  most three.
\<close>

definition frames_fit :: "nat \<Rightarrow> u64 \<Rightarrow> bool" where
  "frames_fit n f \<longleftrightarrow> (\<forall>j<n. frame_addr (f + 4096 * of_nat j))"

lemma frames_fit_shift: "frames_fit (n + k) f \<Longrightarrow> frames_fit n f \<and> frames_fit k (f + 4096 * of_nat n)"
proof -
  assume "frames_fit (n + k) f"
  then have "frame_addr (f + 4096 * of_nat (n + j))" if "j < k" for j
    using that by (simp only: frames_fit_def)
  with \<open>frames_fit (n + k) f\<close> show ?thesis by (simp add: frames_fit_def algebra_simps)
qed

lemma map_range_located:
  "pt_wf L s \<Longrightarrow> frames_fit n f \<Longrightarrow> 4096 dvd t \<Longrightarrow> t + 4096 * n \<le> 2 ^ 31 \<Longrightarrow>
   (\<And>j. j < n \<Longrightarrow> (t + 4096 * j) div 2 ^ 21 = t div 2 ^ 21) \<Longrightarrow>
   0 < n \<longrightarrow> locate (phys_mem s) (cur_pml4_base_pointer s) (indices (kern t)) \<noteq> None \<Longrightarrow>
   mmgr_supply k (phys_mgr s) \<Longrightarrow>
   \<exists>s' L'. map_range n f (kern t) s = Inr s' \<and> pt_wf L' s' \<and> maps_range n f t s s' \<and>
     mmgr_supply k (phys_mgr s')"
proof (induction n arbitrary: L s f t)
  case 0
  then show ?case by (auto simp: maps_range_def)
next
  case (Suc n)
  have t: "t < 2 ^ 31" and f: "frame_addr f" using Suc.prems(2,4) by (auto simp: frames_fit_def)
  have "mmgr_supply (k + 3) (phys_mgr s) \<or> locate (phys_mem s) (cur_pml4_base_pointer s) (indices (kern t)) \<noteq> None \<and>
      mmgr_supply k (phys_mgr s)" using Suc.prems(6,7) by simp
  then obtain s1 L1 where 1: "vmmgr_map_page f (kern t) s = Inr s1" "pt_wf L1 s1" "maps_page f (kern t) s s1"
      "mmgr_supply k (phys_mgr s1)"
    by (rule map_page_refines [OF Suc.prems(1) kern_slot [OF t] f])
  note r1 = maps_page_range [OF 1(3) t]
  have loc: "0 < n \<longrightarrow> locate (phys_mem s1) (cur_pml4_base_pointer s1) (indices (kern (t + 4096))) \<noteq> None"
  proof
    assume "0 < n"
    then have a: "(t + 4096) div 2 ^ 21 = t div 2 ^ 21" "t + 4096 < 2 ^ 31" using Suc.prems(4) Suc.prems(5) [of 1] by auto
    have "locate (phys_mem s1) (cur_pml4_base_pointer s1) (indices (kern t)) \<noteq> None"
      using 1(3) by (simp add: maps_page_def)
    then show "locate (phys_mem s1) (cur_pml4_base_pointer s1) (indices (kern (t + 4096))) \<noteq> None"
      using locate_same_table [OF a(2) t a(1)] by blast
  qed
  have reg: "(t + 4096 + 4096 * j) div 2 ^ 21 = (t + 4096) div 2 ^ 21" if "j < n" for j
    using Suc.prems(5) [of "Suc j"] Suc.prems(5) [of 1] that by (simp add: add.assoc)
  have fit: "frames_fit n (f + 4096)" using frames_fit_shift [of 1 n f] Suc.prems(2) by simp
  have "\<exists>s' L'. map_range n (f + 4096) (kern (t + 4096)) s1 = Inr s' \<and> pt_wf L' s' \<and>
      maps_range n (f + 4096) (t + 4096) s1 s' \<and> mmgr_supply k (phys_mgr s')"
    using Suc.prems(3,4) by (intro Suc.IH [OF 1(2) fit _ _ reg loc 1(4)]) simp_all
  then obtain s' L' where 2: "map_range n (f + 4096) (kern (t + 4096)) s1 = Inr s'" "pt_wf L' s'"
      "maps_range n (f + 4096) (t + 4096) s1 s'" "mmgr_supply k (phys_mgr s')" by blast
  have "maps_range (1 + n) f t s s'" using maps_range_trans [OF r1, of n s'] 2(3) Suc.prems(3,4) by simp
  moreover have "kern t + 4096 = kern (t + 4096)" by (simp add: kern_def)
  ultimately show ?case using 1(1) 2 by auto
qed

lemma map_range_add:
  "map_range (n + k) f v s =
     rbind (map_range n f v s) (map_range k (f + 4096 * of_nat n) (v + 4096 * of_nat n))"
proof (induction n arbitrary: f v s)
  case (Suc n)
  then show ?case by (cases "vmmgr_map_page f v s") (simp_all add: algebra_simps)
qed simp

lemma region_pages: "2 ^ 21 dvd (t :: nat) \<Longrightarrow> j < 512 \<Longrightarrow> (t + 4096 * j) div 2 ^ 21 = t div 2 ^ 21"
  by (auto simp: div_plus_div_distrib_dvd_left)

lemma map_range_region:
  assumes wf: "pt_wf L s" and fit: "frames_fit 512 f" and t: "2 ^ 21 dvd t" "t + 2 ^ 21 \<le> 2 ^ 31"
    and avail: "mmgr_supply (k + 3) (phys_mgr s)"
  obtains s' L' where "map_range 512 f (kern t) s = Inr s'" and "pt_wf L' s'"
    and "maps_range 512 f t s s'" and "mmgr_supply k (phys_mgr s')"
proof -
  have t31: "t < 2 ^ 31" using t(2) by simp
  have t4: "4096 dvd t" using t(1) by (rule dvd_trans [rotated]) simp
  have f: "frame_addr f" using fit by (auto simp: frames_fit_def dest: spec [of _ 0])
  obtain s1 L1 where 1: "vmmgr_map_page f (kern t) s = Inr s1" "pt_wf L1 s1" "maps_page f (kern t) s s1"
      "mmgr_supply k (phys_mgr s1)"
    using map_page_refines [OF wf kern_slot [OF t31] f] avail by blast
  have "locate (phys_mem s1) (cur_pml4_base_pointer s1) (indices (kern t)) \<noteq> None"
    using 1(3) by (simp add: maps_page_def)
  then have loc: "locate (phys_mem s1) (cur_pml4_base_pointer s1) (indices (kern (t + 4096))) \<noteq> None"
    using locate_same_table [of "t + 4096" t] t31 t(2) region_pages [OF t(1), of 1] by simp
  have reg: "(t + 4096 + 4096 * j) div 2 ^ 21 = (t + 4096) div 2 ^ 21" if "j < 511" for j
    using region_pages [OF t(1), of "Suc j"] region_pages [OF t(1), of 1] that by simp
  have fit': "frames_fit 511 (f + 4096)" using frames_fit_shift [of 1 511 f] fit by simp
  have "\<exists>s' L'. map_range 511 (f + 4096) (kern (t + 4096)) s1 = Inr s' \<and> pt_wf L' s' \<and>
      maps_range 511 (f + 4096) (t + 4096) s1 s' \<and> mmgr_supply k (phys_mgr s')"
    using t t4 loc by (intro map_range_located [OF 1(2) fit' _ _ reg _ 1(4)]) simp_all
  then obtain s' L' where 2: "map_range 511 (f + 4096) (kern (t + 4096)) s1 = Inr s'" "pt_wf L' s'"
      "maps_range 511 (f + 4096) (t + 4096) s1 s'" "mmgr_supply k (phys_mgr s')" by blast
  have "maps_range (1 + 511) f t s s'"
    using maps_range_trans [OF maps_page_range [OF 1(3) t31], of 511 s'] 2(3) t(2) t4 by simp
  moreover have "map_range (1 + 511) f (kern t) s = Inr s'"
    using map_range_add [of 1 511 f "kern t" s] 1(1) 2(1) by (simp add: kern_def add.assoc)
  ultimately show ?thesis using 2 by (intro that) simp_all
qed

lemma map_range_regions:
  "pt_wf L s \<Longrightarrow> frames_fit (c * 512) f \<Longrightarrow> 2 ^ 21 dvd t \<Longrightarrow> t + c * 2 ^ 21 \<le> 2 ^ 31 \<Longrightarrow>
   mmgr_supply (k + 3 * c) (phys_mgr s) \<Longrightarrow>
   \<exists>s' L'. map_range (c * 512) f (kern t) s = Inr s' \<and> pt_wf L' s' \<and> maps_range (c * 512) f t s s' \<and>
     mmgr_supply k (phys_mgr s')"
proof (induction c arbitrary: L s f t)
  case 0
  then show ?case by (auto simp: maps_range_def)
next
  case (Suc c)
  have fit: "frames_fit 512 f" "frames_fit (c * 512) (f + 4096 * of_nat 512)"
    using frames_fit_shift [of 512 "c * 512" f] Suc.prems(2) by auto
  have t: "t + 2 ^ 21 \<le> 2 ^ 31" "4096 dvd t"
    using Suc.prems(4) dvd_trans [OF _ Suc.prems(3), of 4096] by auto
  have av: "mmgr_supply ((k + 3 * c) + 3) (phys_mgr s)" using Suc.prems(5) by (simp add: algebra_simps)
  obtain s1 L1 where 1: "map_range 512 f (kern t) s = Inr s1" "pt_wf L1 s1" "maps_range 512 f t s s1"
      "mmgr_supply (k + 3 * c) (phys_mgr s1)"
    by (rule map_range_region [OF Suc.prems(1) fit(1) Suc.prems(3) t(1) av])
  have "2 ^ 21 dvd t + 4096 * 512" using Suc.prems(3) by simp
  from Suc.IH [OF 1(2) fit(2) this _ 1(4)] Suc.prems(4) obtain s' L' where
    2: "map_range (c * 512) (f + 4096 * of_nat 512) (kern (t + 4096 * 512)) s1 = Inr s'" "pt_wf L' s'"
      "maps_range (c * 512) (f + 4096 * of_nat 512) (t + 4096 * 512) s1 s'" "mmgr_supply k (phys_mgr s')"
    by auto
  have "maps_range (512 + c * 512) f t s s'"
    using maps_range_trans [OF 1(3) 2(3)] Suc.prems(4) t(2) by simp
  moreover have "map_range (512 + c * 512) f (kern t) s = Inr s'"
    using map_range_add [of 512 "c * 512" f "kern t" s] 1(1) 2(1) by (simp add: kern_def add.assoc)
  ultimately show ?case using 2(2,4) by auto
qed

section \<open>The initial tables\<close>

text \<open>Frames not in use hold zeros.\<close>

definition blank :: "vm_state \<Rightarrow> bool" where
  "blank s \<longleftrightarrow> (\<forall>p i. frame_addr p \<and> \<not> mmgr_used (phys_mgr s) p \<and> unat i < 512 \<longrightarrow> phys_mem s (ent p i) = 0)"

text \<open>The state once the level-4 table \<open>p\<close> has been set up.\<close>

definition with_pml4 :: "mmgr_state \<Rightarrow> u64 \<Rightarrow> vm_state \<Rightarrow> vm_state" where
  "with_pml4 mgr p s =
     s\<lparr>phys_mgr := mgr,
       phys_mem := (clear_qwords p 512 (phys_mem s))(ent p 510 := fill 0 p False),
       cur_pml4_base_pointer := p\<rparr>"

lemma alloc_frame:
  assumes "mmgr_inv mgr" and "mmgr_alloc_block mgr = Inr (mgr', p)" and "p \<noteq> 0"
  shows "frame_addr p" and "mgr' \<noteq> mgr"
proof -
  from assms(2) mmgr_inv_len [OF assms(1)] have "mgr' \<noteq> mgr \<and> frame_addr p"
    by (cases rule: mmgr_alloc_blockE)
       (use assms(3) in \<open>auto simp: mmgr_grant_neq intro: block_frame_addr least_freeD(2)\<close>)
  then show "frame_addr p" "mgr' \<noteq> mgr" by auto
qed

lemma with_pml4_wf:
  assumes inv: "mmgr_inv (phys_mgr s)" and "blank s"
    and alloc: "mmgr_alloc_block (phys_mgr s) = Inr (mgr, p)" and p: "p \<noteq> 0"
  shows "pt_wf ((\<lambda>_. 0)(p := 4)) (with_pml4 mgr p s)"
proof -
  let ?L = "(\<lambda>_. 0)(p := 4 :: nat)" and ?s = "with_pml4 mgr p s"
  note f = alloc_frame [OF inv alloc p]
  have m: "phys_mem ?s (ent q i) = (if q = p then if i = 510 then fill 0 p False else 0 else phys_mem s (ent q i))"
    if "frame_addr q" "unat i < 512" for q i
    using ent_eq_iff [OF that(1) f(1) that(2), of 510] clear_qwords_ent [OF f(1) that, of 512 "phys_mem s"] that(2)
    by (auto simp: with_pml4_def)
  have mgr: "phys_mgr ?s = mgr" "cur_pml4_base_pointer ?s = p" by (simp_all add: with_pml4_def)
  have used: "mmgr_used mgr p" using mm.alloc_used [OF inv alloc f(2)] .
  have "phys_mem ?s (ent q i) = 0" if "frame_addr q" "\<not> mmgr_used mgr q" "unat i < 512" for q i
  proof -
    have "q \<noteq> p" "\<not> mmgr_used (phys_mgr s) q" using that(2) used mm.alloc_keeps [OF inv alloc] by blast+
    then show ?thesis using m [OF that(1,3)] assms(2) that by (simp add: blank_def)
  qed
  then have "table_frames ?L ?s" using f p used by (simp add: table_frames_def mgr)
  moreover have "table_entries ?L (phys_mem ?s)"
  proof -
    have z: "phys_mem ?s (ent T i) = 0" if "regular ?L T i" for T i
      using that m f(1) by (auto simp: regular_def split: if_splits)
    then show ?thesis by (auto simp: table_entries_def present_def)
  qed
  moreover have "mmgr_inv (phys_mgr ?s)" using mm.alloc_inv [OF inv alloc] by (simp add: with_pml4_def)
  ultimately show ?thesis by (simp add: pt_wf_def)
qed

text \<open>Mapping the level-4 table at the recursive address changes nothing: the slot does it already.\<close>

lemma recursive_offsets_510:
  "PAGE_PML4_OFFSET RECURSIVE_ENTRY = 510" "PAGE_POINTER_OFFSET RECURSIVE_ENTRY = 510"
  "PAGE_DIRECTORY_OFFSET RECURSIVE_ENTRY = 510" "PAGE_TABLE_OFFSET RECURSIVE_ENTRY = 510"
  by (simp_all add: word_unat_eq_iff unat_offset RECURSIVE_ENTRY_def)

lemma map_recursive:
  assumes p: "frame_addr p" "p \<noteq> 0" and B: "cur_pml4_base_pointer s = p"
    and e: "phys_mem s (ent p 510) = fill 0 p False"
  shows "vmmgr_map_page p RECURSIVE_ENTRY s = Inr s" and "walk (phys_mem s) p RECURSIVE_ENTRY = Some p"
proof -
  note f = fill_entry [OF plain_0 p(1), of False]
  have pres: "present (phys_mem s (ent p 510))" using f(2) e by (simp add: points_def present_def)
  have run: "map_level fill n (ent p 510) s = Inr s" for n
    by (rule map_level_present [OF ent_nonzero [OF p] pres]) simp
  have tgt: "PAGE_PHYSICAL_ADDRESS (phys_mem s (ent p 510)) = p" using f(1) e by simp
  have idem: "fill (fill 0 p False) p False = fill 0 p False"
    by (rule bit_word_eqI) (auto simp: bit_fill [OF p(1)])
  have "vmmgr_map_page p RECURSIVE_ENTRY s =
      Inr (s\<lparr>phys_mem := (phys_mem s)(ent p (PAGE_TABLE_OFFSET RECURSIVE_ENTRY) :=
             fill (phys_mem s (ent p (PAGE_TABLE_OFFSET RECURSIVE_ENTRY))) p False)\<rparr>)"
    by (rule vmmgr_map_page_steps [where ?T3.0 = p and ?T2.0 = p and ?s1.0 = s and ?s2.0 = s])
       (use p in \<open>auto simp only: recursive_offsets_510 B run tgt insert_iff empty_iff\<close>)
  then have "vmmgr_map_page p RECURSIVE_ENTRY s =
      Inr (s\<lparr>phys_mem := (phys_mem s)(ent p 510 := fill (phys_mem s (ent p 510)) p False)\<rparr>)"
    by (simp only: recursive_offsets_510)
  then show "vmmgr_map_page p RECURSIVE_ENTRY s = Inr s" using e by (simp add: idem fun_upd_idem)
  have "RECURSIVE_ENTRY AND 0xFFF = 0"
    by (simp add: and_FFF take_bit_eq_mod word_unat_eq_iff unat_mod RECURSIVE_ENTRY_def)
  then show "walk (phys_mem s) p RECURSIVE_ENTRY = Some p"
    using f e pres by (simp add: walk_def indices_def recursive_offsets_510)
qed

section \<open>The initialisation\<close>

lemma vmmgr_init_start:
  assumes inv: "mmgr_inv (phys_mgr s)" and alloc: "mmgr_alloc_block (phys_mgr s) = Inr (mgr, p)" and p: "p \<noteq> 0"
  shows "vmmgr_init physbase kphysfree s =
    rbind (map_range (21 * 512) 0x200000 (VIRT_BASE + physbase) (with_pml4 mgr p s)) (\<lambda>s.
    rbind (vmmgr_map_page 0xB8000 (kern 0x100000) s) (\<lambda>s.
    rbind (vmmgr_map_page p RECURSIVE_ENTRY s) (\<lambda>s.
    rbind (mmgr_syncwith_kernel (phys_mgr s)) (\<lambda>mgr.
      Inr (s\<lparr>kernel_pgd := RECURSIVE_ENTRY, cur_pml4_directory := p, cr3 := p, phys_mgr := mgr,
             bump_addr := VIRT_BASE + kphysfree, bump_start := VIRT_BASE + kphysfree\<rparr>)))))"
proof -
  note f = alloc_frame [OF inv alloc p]
  have e: "p + 8 * 0x1FE = ent p 510" by (simp add: ent_def)
  have nz: "ent p 510 \<noteq> 0" by (rule ent_nonzero [OF f(1) p]) simp
  have z: "clear_qwords p 512 (phys_mem s) (ent p 510) = 0"
    using clear_qwords_ent [OF f(1) f(1), of 510 512 "phys_mem s"] by simp
  have assoc: "rbind (map_range (21 * 512) f v r) k =
      rbind (map_range 512 f v r) (\<lambda>s. rbind (map_range (20 * 512) (f + 512 * 4096) (v + 512 * 4096) s) k)"
    for f v r and k :: "vm_state \<Rightarrow> vm_state res"
    using map_range_add [of 512 "20 * 512" f v r] by (cases "map_range 512 f v r") simp_all
  have k: "kern 0x100000 = 0xFFFFFFFF80100000" by (simp add: kern_def VIRT_BASE_def)
  show ?thesis
    unfolding vmmgr_init_def Let_def alloc rbind_simps(2) prod.case assoc k e
    using p nz
    by (simp add: load_def store_def z set_entry_fill vmmgr_switch_pml4_directory_def
        init_bump_addr_def RECURSIVE_ENTRY_def with_pml4_def)
qed

lemma kernel_frames_fit: "frames_fit (21 * 512) 0x200000"
proof -
  have "frame_addr (0x200000 + 4096 * of_nat j)" if "j < 21 * 512" for j
    using block_frame_addr [of "512 + j"] that by (simp add: algebra_simps)
  then show ?thesis by (simp add: frames_fit_def)
qed

text \<open>An address of the range, split into its page and its offset.\<close>

lemma kern_in_range:
  assumes t: "4096 dvd t" "t + 4096 * n \<le> 2 ^ 31" and x: "x < 4096 * n"
  shows "indices (kern (t + x)) = indices (kern (t + 4096 * (x div 4096)))"
    and "kern (t + x) AND 0xFFF = of_nat (x mod 4096)"
proof -
  have lt: "t + x < 2 ^ 31" using t(2) x by simp
  have "4096 * (x div 4096) \<le> x" by simp
  then have le: "t + 4096 * (x div 4096) < 2 ^ 31" using lt by linarith
  have "(t + x) div 4096 = (t + 4096 * (x div 4096)) div 4096"
    using t(1) by (auto simp: div_plus_div_distrib_dvd_left)
  then show "indices (kern (t + x)) = indices (kern (t + 4096 * (x div 4096)))"
    using kern_indices_eq [OF lt le] by blast
  have "(0xFFFFFFFF80000000 + (t + x)) mod 4096 = x mod 4096"
    using t(1) by (auto simp: mod_add_left_eq [symmetric])
  then have "unat (kern (t + x) AND 0xFFF) = unat (of_nat (x mod 4096) :: u64)"
    using unat_kern [OF lt] by (simp add: and_FFF take_bit_eq_mod unat_mod unat_of_nat)
  then show "kern (t + x) AND 0xFFF = of_nat (x mod 4096)" by (simp only: word_unat_eq_iff)
qed

lemma maps_range_addr:
  assumes "maps_range n f t s s'" and t: "4096 dvd t" "t + 4096 * n \<le> 2 ^ 31" and x: "x < 4096 * n"
  shows "walk (phys_mem s') (cur_pml4_base_pointer s) (kern (t + x)) = Some (f + of_nat x)"
proof -
  have "x div 4096 < n" using x by (simp add: div_less_iff_less_mult mult.commute)
  moreover have "of_nat x = 4096 * of_nat (x div 4096) + (of_nat (x mod 4096) :: u64)"
    by (metis mult_div_mod_eq of_nat_add of_nat_mult of_nat_numeral)
  ultimately show ?thesis
    using assms(1) kern_in_range [OF t x] by (simp add: maps_range_def add.assoc)
qed

lemma syncwith_kernel_total:
  assumes "mmgr_inv mgr"
  shows "\<exists>mgr'. mmgr_syncwith_kernel mgr = Inr mgr'"
  unfolding mmgr_syncwith_kernel_def
proof (rule mmgr_reserve_loop_total, rule ballI)
  fix i :: nat assume "i \<in> set [512..<40 * 256]"
  then have "i div 64 < 160" by (simp only: set_upt atLeastLessThan_iff) (simp add: div_less_iff_less_mult)
  then show "i div 64 < length (mmgr_memory_map mgr)" using assms by (simp add: mmgr_inv_def)
qed

text \<open>A machine whose memory is all zero, with frame 0 reserved.\<close>

definition example_vm :: "u64 \<Rightarrow> vm_state" where
  "example_vm n =
     \<lparr>phys_mem = (\<lambda>_. 0), phys_mgr = example_mgr n, bump_addr = 0, bump_start = 0, kernel_pgd = 0,
      prev_no_pages = 0, cur_pml4_directory = 0, cur_pml4_base_pointer = 0, cr3 = 0\<rparr>"

lemma example_vm_blank: "blank (example_vm n)"
  by (simp add: blank_def example_vm_def)

lemma example_vm_mgr [simp]: "phys_mgr (example_vm n) = example_mgr n"
  by (simp add: example_vm_def)

section \<open>Properties\<close>

text \<open>
  C3. The initialisation of virtual memory succeeds whenever 67 frames are left and the tables'
  frames are zero, and then every byte of the kernel's 42 MB is translated to its place from 2 MB on,
  the screen's page to its frame \<open>0xB8000\<close>, and the recursive address to the level-4 table itself;
  the bump allocator starts at the kernel's first free byte.
\<close>

theorem vmmgr_init_maps:
  assumes inv: "mmgr_inv (phys_mgr s)" and "blank s" and avail: "mmgr_supply 67 (phys_mgr s)"
    and base: "2 ^ 21 dvd unat physbase" "0x200000 \<le> unat physbase" "unat physbase + 21 * 2 ^ 21 \<le> 2 ^ 31"
  shows "\<exists>s'. vmmgr_init physbase kphysfree s = Inr s' \<and>
    (\<forall>x<21 * 2 ^ 21. walk (phys_mem s') (cr3 s') (VIRT_BASE + physbase + of_nat x) = Some (0x200000 + of_nat x)) \<and>
    walk (phys_mem s') (cr3 s') 0xFFFFFFFF80100000 = Some 0xB8000 \<and>
    walk (phys_mem s') (cr3 s') RECURSIVE_ENTRY = Some (cr3 s') \<and>
    bump_addr s' = VIRT_BASE + kphysfree"
proof -
  let ?t = "unat physbase"
  have v: "VIRT_BASE + physbase = kern ?t" by (simp add: kern_def)
  have t4: "4096 dvd ?t" using base(1) by (rule dvd_trans [rotated]) simp
  obtain mgr p where a: "mmgr_alloc_block (phys_mgr s) = Inr (mgr, p)" "p \<noteq> 0" "mmgr_supply 66 mgr"
    using avail by (auto simp: eval_nat_numeral split: sum.splits)
  define s0 where "s0 = with_pml4 mgr p s"
  have B0: "cur_pml4_base_pointer s0 = p" "phys_mem s0 (ent p 510) = fill 0 p False" "phys_mgr s0 = mgr"
    by (simp_all add: s0_def with_pml4_def)
  have "\<exists>s1 L1. map_range (21 * 512) 0x200000 (kern ?t) s0 = Inr s1 \<and> pt_wf L1 s1 \<and>
      maps_range (21 * 512) 0x200000 ?t s0 s1 \<and> mmgr_supply 3 (phys_mgr s1)"
    using with_pml4_wf [OF inv assms(2) a(1,2)] kernel_frames_fit base a(3)
    by (intro map_range_regions) (simp_all add: s0_def [symmetric] B0)
  then obtain s1 L1 where 1: "map_range (21 * 512) 0x200000 (kern ?t) s0 = Inr s1" "pt_wf L1 s1"
      "maps_range (21 * 512) 0x200000 ?t s0 s1" "mmgr_supply (0 + 3) (phys_mgr s1)" by auto
  have B1: "cur_pml4_base_pointer s1 = p" "phys_mem s1 (ent p 510) = fill 0 p False"
    using 1(3) B0 by (simp_all add: maps_range_def)
  have scr: "frame_addr 0xB8000" using block_frame_addr [of "0xB8"] by simp
  have slot: "PAGE_PML4_OFFSET (kern 0x100000) \<noteq> 510" by (rule kern_slot) simp
  obtain s2 L2 where 2: "vmmgr_map_page 0xB8000 (kern 0x100000) s1 = Inr s2" "pt_wf L2 s2"
      "maps_page 0xB8000 (kern 0x100000) s1 s2"
    using map_page_refines [OF 1(2) slot scr, where k = 0] 1(4) by blast
  have B2: "cur_pml4_base_pointer s2 = p" "phys_mem s2 (ent p 510) = fill 0 p False"
    using 2(3) B1 by (simp_all add: maps_page_def)
  note rec = map_recursive [OF alloc_frame(1) [OF inv a(1,2)] a(2) B2]
  obtain mgr' where m: "mmgr_syncwith_kernel (phys_mgr s2) = Inr mgr'"
    using syncwith_kernel_total 2(2) by (auto simp: pt_wf_def)
  have "walk (phys_mem s2) p (kern ?t + of_nat x) = Some (0x200000 + of_nat x)" if "x < 21 * 2 ^ 21" for x
  proof -
    have "?t + x < 2 ^ 31" "(?t + x) div 4096 \<noteq> 0x100000 div 4096"
      using that base by (auto dest!: div_le_mono [where k = 4096])
    then have "indices (kern (?t + x)) \<noteq> indices (kern 0x100000)" "PAGE_PML4_OFFSET (kern (?t + x)) \<noteq> 510"
      using kern_indices_eq [of "?t + x" "0x100000"] kern_slot by auto
    then have "walk (phys_mem s2) p (kern (?t + x)) = walk (phys_mem s1) p (kern (?t + x))"
      using 2(3) B1 by (simp add: maps_page_def)
    also have "\<dots> = Some (0x200000 + of_nat x)"
      using maps_range_addr [OF 1(3) t4, of x] that base(3) B0 by simp
    finally show ?thesis by (simp add: kern_def add.assoc)
  qed
  moreover have "walk (phys_mem s2) p (kern 0x100000) = Some 0xB8000"
    using 2(3) B1 kern_slot [of "0x100000"] kern_in_range(2) [of 0 "2 ^ 19" "0x100000"] by (simp add: maps_page_def)
  moreover have "kern 0x100000 = 0xFFFFFFFF80100000" by (simp add: kern_def VIRT_BASE_def)
  ultimately show ?thesis
    unfolding vmmgr_init_start [OF inv a(1,2)] v s0_def [symmetric] 1(1) rbind_simps(2) 2(1) rec(1) m
    using rec(2) by simp
qed

theorem vmmgr_init_maps_witness:
  "\<exists>s'. vmmgr_init 0x200000 0x400000 (example_vm 256) = Inr s' \<and>
     walk (phys_mem s') (cr3 s') 0xFFFFFFFF80200123 = Some 0x200123 \<and>
     walk (phys_mem s') (cr3 s') RECURSIVE_ENTRY = Some (cr3 s')"
proof -
  have "mmgr_supply 67 (example_mgr 256)" by (rule example_mgr_supply) simp_all
  moreover have "mmgr_inv (example_mgr 256)" by (rule example_mgr_inv) simp
  ultimately obtain s' where s': "vmmgr_init 0x200000 0x400000 (example_vm 256) = Inr s'"
      "\<forall>x<21 * 2 ^ 21. walk (phys_mem s') (cr3 s') (VIRT_BASE + 0x200000 + of_nat x) = Some (0x200000 + of_nat x)"
      "walk (phys_mem s') (cr3 s') RECURSIVE_ENTRY = Some (cr3 s')"
    using vmmgr_init_maps [of "example_vm 256" "0x200000" "0x400000"] by (auto simp: example_vm_blank)
  from s'(2) [rule_format, of "0x123"] s'(1,3) show ?thesis by (simp add: VIRT_BASE_def)
qed

text \<open>
  C12. In a well-formed set of tables, \<open>vmmgr_map_page\<close> of a frame at an address outside the
  recursive slot succeeds when three frames are left, keeps the tables well formed, makes every
  address of that page translate into the frame, and leaves every other translation as it was.
\<close>

theorem vmmgr_map_page_correct:
  assumes "pt_wf L s" and "PAGE_PML4_OFFSET virt \<noteq> 510" and "frame_addr phys" and "mmgr_supply 3 (phys_mgr s)"
  shows "\<exists>s' L'. vmmgr_map_page phys virt s = Inr s' \<and> pt_wf L' s' \<and>
    cur_pml4_base_pointer s' = cur_pml4_base_pointer s \<and>
    (\<forall>v. PAGE_PML4_OFFSET v \<noteq> 510 \<longrightarrow>
       walk (phys_mem s') (cur_pml4_base_pointer s) v =
         (if indices v = indices virt then Some (phys + (v AND 0xFFF))
          else walk (phys_mem s) (cur_pml4_base_pointer s) v))"
proof -
  obtain s' L' where "vmmgr_map_page phys virt s = Inr s'" "pt_wf L' s'" "maps_page phys virt s s'"
    using map_page_refines [OF assms(1-3), where k = 0] assms(4) by auto
  then show ?thesis unfolding maps_page_def by blast
qed

theorem vmmgr_map_page_correct_witness:
  "\<exists>L s s'. pt_wf L s \<and> mmgr_supply 3 (phys_mgr s) \<and> vmmgr_map_page 0x5000 0x400000 s = Inr s' \<and>
     walk (phys_mem s') (cur_pml4_base_pointer s) 0x400123 = Some 0x5123"
proof -
  have "mmgr_supply 4 (example_mgr 128)" by (rule example_mgr_supply) simp_all
  then obtain mgr p where a: "mmgr_alloc_block (example_mgr 128) = Inr (mgr, p)" "p \<noteq> 0" "mmgr_supply 3 mgr"
    by (auto simp: eval_nat_numeral split: sum.splits)
  let ?L = "(\<lambda>_. 0)(p := 4)" and ?s = "with_pml4 mgr p (example_vm 128)"
  have wf: "pt_wf ?L ?s" using a example_mgr_inv [of 128] by (intro with_pml4_wf) (simp_all add: example_vm_blank)
  have offs: "PAGE_PML4_OFFSET 0x400000 \<noteq> 510" "PAGE_PML4_OFFSET 0x400123 \<noteq> 510" "frame_addr 0x5000"
    "indices 0x400123 = indices 0x400000"
    by (simp_all add: indices_def PAGE_PML4_OFFSET_def PAGE_POINTER_OFFSET_def PAGE_DIRECTORY_OFFSET_def
        PAGE_TABLE_OFFSET_def frame_addr_def)
  have av: "mmgr_supply 3 (phys_mgr ?s)" using a(3) by (simp add: with_pml4_def)
  from vmmgr_map_page_correct [OF wf offs(1,3) av] wf av offs show ?thesis by fastforce
qed

text \<open>
  The addresses that the \<open>get_*_recurse\<close> functions compute reach, through the recursive slot 510,
  the very entries of \<open>virt\<close> in the tables of the four levels.
\<close>

theorem recursive_slot_reaches_entries:
  assumes self: "points (m (ent base 510))" "PAGE_PHYSICAL_ADDRESS (m (ent base 510)) = base"
    and "points (m (ent base (PAGE_PML4_OFFSET v)))"
    and "T3 = PAGE_PHYSICAL_ADDRESS (m (ent base (PAGE_PML4_OFFSET v)))"
    and "points (m (ent T3 (PAGE_POINTER_OFFSET v)))"
    and "T2 = PAGE_PHYSICAL_ADDRESS (m (ent T3 (PAGE_POINTER_OFFSET v)))"
    and "points (m (ent T2 (PAGE_DIRECTORY_OFFSET v)))"
    and "T1 = PAGE_PHYSICAL_ADDRESS (m (ent T2 (PAGE_DIRECTORY_OFFSET v)))"
  shows "walk m base (get_pml4e_offset_recurse v) = Some (ent base (PAGE_PML4_OFFSET v)) \<and>
    walk m base (get_pdpe_offset_recurse v) = Some (ent T3 (PAGE_POINTER_OFFSET v)) \<and>
    walk m base (get_pde_offset_recurse v) = Some (ent T2 (PAGE_DIRECTORY_OFFSET v)) \<and>
    walk m base (get_pte_recurse v) = Some (ent T1 (PAGE_TABLE_OFFSET v))"
proof -
  have "present e" if "points e" for e using that by (simp add: present_def points_def)
  then show ?thesis using assms by (simp add: walk_def recursive_walks ent_def)
qed

theorem recursive_slot_reaches_entries_witness:
  "walk ((\<lambda>_. 0)(0x1FF0 := 0x1003, 0x1000 := 0x2003, 0x2000 := 0x3003, 0x3000 := 0x4003)) 0x1000
     (get_pte_recurse 0x5000) = Some 0x4028"
proof -
  let ?m = "(\<lambda>_. 0)(0x1FF0 := 0x1003, 0x1000 := 0x2003, 0x2000 := 0x3003, 0x3000 := 0x4003)"
  have "points 0x1003" "points 0x2003" "points 0x3003" "points 0x4003"
    by (simp_all add: points_def bit_iff_odd)
  then show ?thesis
    using recursive_slot_reaches_entries [of ?m "0x1000" "0x5000" "0x2000" "0x3000" "0x4000"]
    by (simp add: ent_def PAGE_PML4_OFFSET_def PAGE_POINTER_OFFSET_def PAGE_DIRECTORY_OFFSET_def
        PAGE_TABLE_OFFSET_def PAGE_PHYSICAL_ADDRESS_def)
qed

end
