(* ===== verification/Kernel_Heap.thy ===== *)
theory Kernel_Heap
  imports Virtual_Memory
begin

text \<open>
  The kernel's allocator, \<open>sys/mm/myalloc.c\<close>: \<open>sub_malloc\<close> hands out whole pages from the bump
  allocator \<open>vmmgr_alloc_page\<close> when its second argument is set, and otherwise blocks of a linked list
  of headers, first fit. The headers live in a memory of their own, indexed by address; the size of
  a header (\<open>sizeof(struct metadata_block)\<close>) is 16 bytes.
\<close>

section \<open>State and operations\<close>

record metadata_block =
  mb_next :: u64
  mb_size :: u16
  mb_free :: u16

record heap_state =
  vm :: vm_state
  heap_base :: u64
  heap_last :: u64
  blocks :: "u64 \<Rightarrow> metadata_block"

definition ALLOC_BLOCK_SIZE :: u64 where
  "ALLOC_BLOCK_SIZE = 16"

text \<open>The macro \<open>align\<close>, computed on the promoted \<open>int\<close> and stored in a \<open>uint16_t\<close>.\<close>

definition align8 :: "u16 \<Rightarrow> u16" where
  "align8 x = word_of_int ((uint x - 1) div 8 * 8 + 8)"

text \<open>
  The loop of \<open>find_block\<close> from block \<open>b\<close>, with the current value of \<open>*last\<close>; it does not end on a
  cyclic list.
\<close>

partial_function (option) find_block_loop ::
  "(u64 \<Rightarrow> metadata_block) \<Rightarrow> u16 \<Rightarrow> u64 \<Rightarrow> u64 \<Rightarrow> (u64 \<times> u64) option" where
  "find_block_loop m n l b =
     (if b \<noteq> 0 \<and> \<not> (mb_free (m b) \<noteq> 0 \<and> n \<le> mb_size (m b))
      then find_block_loop m n b (mb_next (m b))
      else Some (l, b))"

definition find_block :: "u16 \<Rightarrow> heap_state \<Rightarrow> (heap_state \<times> u64) res" where
  "find_block n s =
     (case find_block_loop (blocks s) n (heap_last s) (heap_base s) of
        None \<Rightarrow> Inl Halt
      | Some (l, b) \<Rightarrow> Inr (s\<lparr>heap_last := l\<rparr>, b))"

definition extend_heap :: "u64 \<Rightarrow> u16 \<Rightarrow> heap_state \<Rightarrow> (heap_state \<times> u64) res" where
  "extend_heap l n s =
     (let (v, b) = vmmgr_alloc_page 0 (vm s); s = s\<lparr>vm := v\<rparr>; m = blocks s in
      if b = 0 then Inl Halt
      else let m = m(b := m b\<lparr>mb_size := 0x1000, mb_next := 0\<rparr>);
               m = (if l \<noteq> 0 then m(l := m l\<lparr>mb_next := b\<rparr>) else m);
               m = m(b := m b\<lparr>mb_free := 1\<rparr>)
           in Inr (s\<lparr>blocks := m\<rparr>, b))"

definition sub_free :: "u64 \<Rightarrow> heap_state \<Rightarrow> heap_state res" where
  "sub_free p s =
     (let b = p - ALLOC_BLOCK_SIZE; m = blocks s in
      if b = 0 then Inl NullPointer else Inr (s\<lparr>blocks := m(b := m b\<lparr>mb_free := 1\<rparr>)\<rparr>))"

definition split_block :: "u64 \<Rightarrow> u16 \<Rightarrow> heap_state \<Rightarrow> heap_state" where
  "split_block b n s =
     (let m = blocks s;
          tot_size = n + 16;
          new = b + ALLOC_BLOCK_SIZE * (1 + ucast tot_size div ALLOC_BLOCK_SIZE);
          m = m(new := \<lparr>mb_next = mb_next (m b), mb_size = mb_size (m b) - tot_size, mb_free = 1\<rparr>);
          m = m(b := m b\<lparr>mb_size := n, mb_next := new\<rparr>)
      in s\<lparr>blocks := m\<rparr>)"

definition set_free :: "u64 \<Rightarrow> u16 \<Rightarrow> heap_state \<Rightarrow> heap_state" where
  "set_free b v s = s\<lparr>blocks := (blocks s)(b := blocks s b\<lparr>mb_free := v\<rparr>)\<rparr>"

definition sub_malloc :: "u16 \<Rightarrow> bool \<Rightarrow> heap_state \<Rightarrow> (heap_state \<times> u64) res" where
  "sub_malloc n align s =
     (if align then let (v, addr) = vmmgr_alloc_page n (vm s) in Inr (s\<lparr>vm := v\<rparr>, addr)
      else
        let k = align8 n in
        if heap_base s \<noteq> 0 then
          rbind (find_block k (s\<lparr>heap_last := heap_base s\<rparr>)) (\<lambda>(s, b).
            if b \<noteq> 0 then
              let s = (if ALLOC_BLOCK_SIZE + 4 \<le> u64_of_int (uint (mb_size (blocks s b)) - uint k)
                       then split_block b k s else s)
              in Inr (set_free b 0 s, b + ALLOC_BLOCK_SIZE)
            else
              rbind (extend_heap (heap_last s) k (set_free (heap_last s) 0 s)) (\<lambda>(s, b).
                Inr (split_block b k s, b + ALLOC_BLOCK_SIZE)))
        else
          rbind (extend_heap (heap_last s) k s) (\<lambda>(s, b).
            Inr (split_block b k (s\<lparr>heap_base := b\<rparr>), b + ALLOC_BLOCK_SIZE)))"

section \<open>Pages\<close>

text \<open>The pages of a sequence of requests, each with the number of extra pages it asks for.\<close>

primrec alloc_pages :: "u16 list \<Rightarrow> vm_state \<Rightarrow> vm_state \<times> u64 list" where
  "alloc_pages [] s = (s, [])"
| "alloc_pages (n # ns) s =
     (let (s, p) = vmmgr_alloc_page n s; (s, ps) = alloc_pages ns s in (s, p # ps))"

lemma alloc_pages_nth:
  assumes "i < length ns"
  shows "snd (alloc_pages ns s) ! i =
    bump_addr s + 4096 * of_nat (Suc i + unat (prev_no_pages s) + sum_list (map unat (take i ns)))"
  using assms
proof (induction ns arbitrary: i s)
  case (Cons n ns)
  show ?case
  proof (cases i)
    case 0
    then show ?thesis by (simp add: vmmgr_alloc_page_def Let_def algebra_simps split: prod.split)
  next
    case (Suc j)
    let ?t = "fst (vmmgr_alloc_page n s)"
    have "snd (alloc_pages (n # ns) s) ! i = snd (alloc_pages ns ?t) ! j"
      using Suc by (simp add: split_beta Let_def)
    then show ?thesis
      using Suc Cons.IH [of j ?t] Cons.prems
      by (simp add: vmmgr_alloc_page_def Let_def algebra_simps)
  qed
qed simp

lemma alloc_pages_length [simp]: "length (snd (alloc_pages ns s)) = length ns"
  by (induction ns arbitrary: s) (simp_all add: split_beta Let_def)

lemma unat_page:
  assumes "unat b + 4096 * k < 2 ^ 64"
  shows "unat (b + 4096 * of_nat k :: u64) = unat b + 4096 * k"
proof -
  have "b + 4096 * of_nat k = of_nat (unat b + 4096 * k)" by simp
  then show ?thesis using assms by (simp only: unat_of_nat) simp
qed

section \<open>The list of blocks\<close>

text \<open>The headers \<open>bs\<close> form the list that starts at \<open>b\<close> and ends with NULL.\<close>

fun hchain :: "(u64 \<Rightarrow> metadata_block) \<Rightarrow> u64 \<Rightarrow> u64 list \<Rightarrow> bool" where
  "hchain m b [] \<longleftrightarrow> b = 0"
| "hchain m b (c # cs) \<longleftrightarrow> b = c \<and> b \<noteq> 0 \<and> hchain m (mb_next (m b)) cs"

definition fits :: "u16 \<Rightarrow> metadata_block \<Rightarrow> bool" where
  "fits n blk \<longleftrightarrow> mb_free blk \<noteq> 0 \<and> n \<le> mb_size blk"

lemma find_block_loop_chain:
  "hchain m b bs \<Longrightarrow> find_block_loop m n l b =
     Some (last (l # takeWhile (\<lambda>c. \<not> fits n (m c)) bs),
           case find (\<lambda>c. fits n (m c)) bs of None \<Rightarrow> 0 | Some c \<Rightarrow> c)"
proof (induction bs arbitrary: b l)
  case Nil
  then show ?case by (simp add: find_block_loop.simps)
next
  case (Cons c cs)
  then show ?case by (cases "fits n (m c)") (auto simp: find_block_loop.simps [of m n l c] fits_def)
qed

lemma find_block_chain:
  assumes "hchain (blocks s) (heap_base s) bs"
  shows "find_block n s =
    Inr (s\<lparr>heap_last := last (heap_last s # takeWhile (\<lambda>c. \<not> fits n (blocks s c)) bs)\<rparr>,
         case find (\<lambda>c. fits n (blocks s c)) bs of None \<Rightarrow> 0 | Some c \<Rightarrow> c)"
  using find_block_loop_chain [OF assms] by (simp add: find_block_def)

text \<open>The header that a split creates lies behind the one it splits.\<close>

definition split_addr :: "u64 \<Rightarrow> u16 \<Rightarrow> u64" where
  "split_addr b n = b + ALLOC_BLOCK_SIZE * (1 + ucast (n + 16) div ALLOC_BLOCK_SIZE)"

lemma split_addr_neq: "split_addr b n \<noteq> b"
proof -
  let ?k = "ucast (n + 16) div 16 :: u64"
  have lt: "unat (n + 16) < 2 ^ 16" using unsigned_less [of "n + 16"] by simp
  then have "unat (ucast (n + 16) :: u64) = unat (n + 16)" by (simp add: unsigned_ucast_eq take_bit_nat_eq_self)
  then have k: "unat ?k < 2 ^ 16" using lt div_le_dividend [of "unat (n + 16)" 16] by (simp add: unat_div)
  have "unat (16 * (1 + ?k)) = 16 * (1 + unat ?k)"
    using k by (simp add: unat_word_ariths)
  then have "16 * (1 + ?k) \<noteq> 0" by (metis mult_eq_0_iff add_is_0 numeral_neq_zero one_neq_zero unat_0)
  then show ?thesis by (simp add: split_addr_def ALLOC_BLOCK_SIZE_def)
qed

lemma split_block_blocks:
  "blocks (split_block b n s) = (blocks s)
     (split_addr b n := \<lparr>mb_next = mb_next (blocks s b), mb_size = mb_size (blocks s b) - (n + 16), mb_free = 1\<rparr>,
      b := blocks s b\<lparr>mb_size := n, mb_next := split_addr b n\<rparr>)"
  using split_addr_neq [of b n] by (simp add: split_block_def Let_def split_addr_def)

lemma split_block_simps [simp]:
  "heap_base (split_block b n s) = heap_base s" "heap_last (split_block b n s) = heap_last s"
  "vm (split_block b n s) = vm s"
  by (simp_all add: split_block_def Let_def)

lemma set_free_simps [simp]:
  "heap_base (set_free b v s) = heap_base s" "heap_last (set_free b v s) = heap_last s"
  "blocks (set_free b v s) = (blocks s)(b := blocks s b\<lparr>mb_free := v\<rparr>)"
  by (simp_all add: set_free_def)

text \<open>A machine whose bump allocator is at 4 MB, for the examples.\<close>

definition example_bump :: vm_state where
  "example_bump =
     \<lparr>phys_mem = (\<lambda>_. 0), phys_mgr = mmgr_boot, bump_addr = 0x400000, bump_start = 0, kernel_pgd = 0,
      prev_no_pages = 0, cur_pml4_directory = 0, cur_pml4_base_pointer = 0, cr3 = 0\<rparr>"

lemma example_bump_simps [simp]: "bump_addr example_bump = 0x400000" "prev_no_pages example_bump = 0"
  by (simp_all add: example_bump_def)

section \<open>Properties\<close>

text \<open>
  The memory that \<open>vmmgr_alloc_page\<close> hands out in a sequence of requests never overlaps: a request
  for \<open>k\<close> extra pages gets \<open>k + 1\<close> pages that end before every later one begins, as long as the
  addresses do not wrap around.
\<close>

theorem vmmgr_alloc_page_disjoint:
  assumes "i < j" and "j < length ns"
    and "unat (bump_addr s) + 4096 * (length ns + unat (prev_no_pages s) + sum_list (map unat ns)) < 2 ^ 64"
  shows "unat (snd (alloc_pages ns s) ! i) + 4096 * (unat (ns ! i) + 1) \<le> unat (snd (alloc_pages ns s) ! j)"
proof -
  define f where "f i = sum_list (map unat (take i ns))" for i
  define g where "g i = Suc i + unat (prev_no_pages s) + f i" for i
  have mono: "f a \<le> f b" if "a \<le> b" for a b
  proof -
    have "take b ns = take a ns @ take (b - a) (drop a ns)" using that by (metis le_add_diff_inverse take_add)
    then show ?thesis by (simp add: f_def)
  qed
  have "f (Suc i) = f i + unat (ns ! i)" using assms(1,2) by (simp add: f_def take_Suc_conv_app_nth)
  with mono [of "Suc i" j] assms(1) have step: "f i + unat (ns ! i) \<le> f j" by simp
  have "f (length ns) = sum_list (map unat ns)" by (simp add: f_def)
  then have bound: "unat (bump_addr s) + 4096 * g k < 2 ^ 64" if "k < length ns" for k
    using mono [of k "length ns"] that assms(3) by (simp add: g_def)
  have val: "unat (snd (alloc_pages ns s) ! k) = unat (bump_addr s) + 4096 * g k" if "k < length ns" for k
    unfolding alloc_pages_nth [OF that] using unat_page [OF bound [OF that]] by (simp only: g_def f_def)
  have "g i + (unat (ns ! i) + 1) \<le> g j" using step assms(1) by (simp add: g_def)
  then show ?thesis using val [of i] val [of j] assms(1,2) by simp
qed

theorem vmmgr_alloc_page_disjoint_witness:
  "\<exists>s. bump_addr s = 0x400000 \<and> prev_no_pages s = 0 \<and>
     unat (snd (alloc_pages [0, 1, 0] s) ! 1) + 8192 \<le> unat (snd (alloc_pages [0, 1, 0] s) ! 2)"
proof -
  let ?s = example_bump
  show ?thesis using vmmgr_alloc_page_disjoint [of 1 2 "[0, 1, 0]" ?s] by (intro exI [of _ ?s]) simp
qed

text \<open>
  C33. First fit: when the list of headers is well formed and some free block is large enough,
  \<open>sub_malloc\<close> returns the memory behind the first such header, at least as large as the request
  rounded up to 8 bytes, and marks it used; besides it, only the header that a split creates changes.
\<close>

theorem sub_malloc_first_fit:
  assumes "hchain (blocks s) (heap_base s) bs" and "find (\<lambda>c. fits (align8 n) (blocks s c)) bs = Some b"
  shows "\<exists>s'. sub_malloc n False s = Inr (s', b + ALLOC_BLOCK_SIZE) \<and>
    mb_free (blocks s' b) = 0 \<and> align8 n \<le> mb_size (blocks s' b) \<and>
    (\<forall>c. c \<noteq> b \<and> c \<noteq> split_addr b (align8 n) \<longrightarrow> blocks s' c = blocks s c)"
proof -
  have b: "b \<in> set bs" "fits (align8 n) (blocks s b)"
    using assms(2) by (auto simp: find_Some_iff)
  have nz: "c \<noteq> 0" if "hchain m a cs" "c \<in> set cs" for m a c cs
    using that by (induction cs arbitrary: a) auto
  have base: "heap_base s \<noteq> 0" using assms(1) b(1) by (cases bs) auto
  let ?s = "s\<lparr>heap_last := heap_base s\<rparr>"
  have "hchain (blocks ?s) (heap_base ?s) bs" using assms(1) by simp
  from find_block_chain [OF this, of "align8 n"] assms(2)
  obtain l where "find_block (align8 n) ?s = Inr (?s\<lparr>heap_last := l\<rparr>, b)" by simp
  then show ?thesis
    using base nz [OF assms(1) b(1)] b(2) split_addr_neq [of b "align8 n"]
    by (simp add: sub_malloc_def Let_def split_block_blocks fits_def)
qed

theorem sub_malloc_first_fit_witness:
  "\<exists>s s'. heap_base s = 0x1000 \<and> sub_malloc 20 False s = Inr (s', 0x2010) \<and> mb_free (blocks s' 0x2000) = 0"
proof -
  let ?m = "\<lambda>c :: u64. if c = 0x1000 then \<lparr>mb_next = 0x2000, mb_size = 8, mb_free = 1\<rparr>
                 else \<lparr>mb_next = 0, mb_size = 64, mb_free = 1\<rparr>"
  let ?s = "\<lparr>vm = example_bump, heap_base = 0x1000, heap_last = 0, blocks = ?m\<rparr>"
  have "align8 20 = 24" by (simp add: align8_def)
  then have "find (\<lambda>c. fits (align8 20) (blocks ?s c)) [0x1000, 0x2000] = Some 0x2000" by (simp add: fits_def)
  then show ?thesis
    using sub_malloc_first_fit [of ?s "[0x1000, 0x2000]" 20 "0x2000"]
    by (intro exI [of "\<lambda>s. \<exists>s'. P s s'" ?s for P]) (auto simp: ALLOC_BLOCK_SIZE_def simp del: find.simps)
qed

text \<open>
  C38. The block that \<open>sub_malloc\<close> takes from a new page stays marked free: on an empty heap two
  successive requests of the same size get the same address.
\<close>

theorem sub_malloc_same_block_twice:
  assumes "heap_base s = 0" and "snd (vmmgr_alloc_page 0 (vm s)) = b" and "b \<noteq> 0"
  shows "\<exists>s1 s2. sub_malloc n False s = Inr (s1, b + ALLOC_BLOCK_SIZE) \<and>
    sub_malloc n False s1 = Inr (s2, b + ALLOC_BLOCK_SIZE)"
proof -
  let ?k = "align8 n"
  obtain v where v: "vmmgr_alloc_page 0 (vm s) = (v, b)" using assms(2) by (cases "vmmgr_alloc_page 0 (vm s)") auto
  obtain t where t: "extend_heap (heap_last s) ?k s = Inr (t, b)"
    using v assms(3) by (simp add: extend_heap_def Let_def)
  have tb: "mb_free (blocks t b) = 1"
    using t v assms(3) by (auto simp: extend_heap_def Let_def split: if_splits)
  define s1 where "s1 = split_block b ?k (t\<lparr>heap_base := b\<rparr>)"
  have 1: "sub_malloc n False s = Inr (s1, b + ALLOC_BLOCK_SIZE)"
    using assms(1) t by (simp add: sub_malloc_def Let_def s1_def)
  have s1: "heap_base s1 = b" "mb_free (blocks s1 b) = 1" "mb_size (blocks s1 b) = ?k"
    using tb by (simp_all add: s1_def split_block_blocks)
  then have "find_block_loop (blocks s1) ?k b b = Some (b, b)" by (simp add: find_block_loop.simps)
  then have "find_block ?k (s1\<lparr>heap_last := b\<rparr>) = Inr (s1\<lparr>heap_last := b\<rparr>, b)" using s1(1) by (simp add: find_block_def)
  then show ?thesis using 1 s1 assms(3) by (simp add: sub_malloc_def [of n False s1] Let_def)
qed

theorem sub_malloc_same_block_twice_witness:
  "\<exists>s s1 s2. heap_base s = 0 \<and> sub_malloc 32 False s = Inr (s1, 0x401010) \<and>
     sub_malloc 32 False s1 = Inr (s2, 0x401010)"
proof -
  let ?s = "\<lparr>vm = example_bump, heap_base = 0, heap_last = 0, blocks = (\<lambda>_. \<lparr>mb_next = 0, mb_size = 0, mb_free = 0\<rparr>)\<rparr>"
  show ?thesis
    using sub_malloc_same_block_twice [of ?s "0x401000" 32]
    by (intro exI [of "\<lambda>s. \<exists>s1 s2. P s s1 s2" ?s for P]) (auto simp: vmmgr_alloc_page_def Let_def ALLOC_BLOCK_SIZE_def)
qed

end
