(* ===== verification/Paging_On.thy ===== *)
theory Paging_On
  imports Kernel_Map Kernel_Heap
begin

text \<open>
  The part of \<open>sys/mm/vmmgr_virtual.c\<close> that changes page tables while paging is on. Every pointer is now
  a virtual address: a load or a store goes where the processor's walk of the tables under \<open>cr3\<close> leads,
  and an address without a translation is a fault. Translations are those of the tables in memory; the
  processor's cache of translations is not modelled. The tables come from \<open>sub_malloc(0,1)\<close>, which is
  \<open>vmmgr_alloc_page(0)\<close>.
\<close>

section \<open>Memory behind translated addresses\<close>

definition vload :: "u64 \<Rightarrow> vm_state \<Rightarrow> u64 res" where
  "vload a s =
     (case walk (phys_mem s) (cr3 s) a of None \<Rightarrow> Inl WildPointer | Some p \<Rightarrow> Inr (phys_mem s p))"

definition vstore :: "u64 \<Rightarrow> u64 \<Rightarrow> vm_state \<Rightarrow> vm_state res" where
  "vstore a v s =
     (case walk (phys_mem s) (cr3 s) a of
        None \<Rightarrow> Inl WildPointer
      | Some p \<Rightarrow> Inr (s\<lparr>phys_mem := (phys_mem s)(p := v)\<rparr>))"

text \<open>\<open>memset(p, 0, 8 * n)\<close>.\<close>

definition vclear :: "u64 \<Rightarrow> nat \<Rightarrow> vm_state \<Rightarrow> vm_state res" where
  "vclear p n s = rfold (\<lambda>k. vstore (p + 8 * of_nat k) 0) [0..<n] s"

text \<open>An update of the entry behind the pointer \<open>e\<close>.\<close>

definition vupdate :: "u64 \<Rightarrow> (u64 \<Rightarrow> u64) \<Rightarrow> vm_state \<Rightarrow> vm_state res" where
  "vupdate e f s = rbind (vload e s) (\<lambda>v. vstore e (f v) s)"

section \<open>Mapping a page\<close>

definition set_phys_virt_recurse :: "u64 \<Rightarrow> u64 \<Rightarrow> bool \<Rightarrow> vm_state \<Rightarrow> vm_state res" where
  "set_phys_virt_recurse phys virt is_user s =
     vupdate (get_pte_recurse virt) (\<lambda>v. set_page_entry v phys is_user) s"

text \<open>
  One level: the page for the missing table is cleared through its virtual address, of which the entry
  gets the physical one. The two directories are cleared as a whole, the page table by
  \<open>sizeof(pte_dir)\<close>, one entry.
\<close>

definition map_level_after ::
  "(u64 \<Rightarrow> u64 \<Rightarrow> bool \<Rightarrow> u64) \<Rightarrow> nat \<Rightarrow> u64 \<Rightarrow> bool \<Rightarrow> vm_state \<Rightarrow> vm_state res" where
  "map_level_after set_entry n e is_user s =
     rbind (vload e s) (\<lambda>v.
       if v AND PML4E_PRESENT = 0 then
         let (s, dir) = vmmgr_alloc_page 0 s in
         rbind (vclear dir n s) (\<lambda>s.
         let dir_phy = dir - VIRT_BASE in
         if dir = 0 then Inl Halt
         else vupdate e (\<lambda>v. set_entry v dir_phy is_user) s)
       else Inr s)"

definition vmmgr_map_page_after_paging :: "u64 \<Rightarrow> u64 \<Rightarrow> bool \<Rightarrow> vm_state \<Rightarrow> vm_state res" where
  "vmmgr_map_page_after_paging phys virt is_user s =
     rbind (map_level_after set_pml4_entry 512 (get_pml4e_offset_recurse virt) is_user s) (\<lambda>s.
     rbind (map_level_after set_pdpe_entry 512 (get_pdpe_offset_recurse virt) is_user s) (\<lambda>s.
     rbind (map_level_after set_pde_entry 1 (get_pde_offset_recurse virt) is_user s) (\<lambda>s.
     set_phys_virt_recurse phys virt is_user s)))"

section \<open>Tables under a recursive slot\<close>

definition paging :: "(u64 \<Rightarrow> nat) \<Rightarrow> vm_state \<Rightarrow> bool" where
  "paging L s \<longleftrightarrow> tables L (phys_mem s) \<and> L (cr3 s) = 4 \<and>
     points (phys_mem s (ent (cr3 s) 510)) \<and> PAGE_PHYSICAL_ADDRESS (phys_mem s (ent (cr3 s) 510)) = cr3 s"

text \<open>The walk, also through the recursive slot, reads entries of tables only.\<close>

lemma locate_tables:
  assumes "tables L m" and self: "L B = 4" "PAGE_PHYSICAL_ADDRESS (m (ent B 510)) = B"
    and same: "\<And>U j. L U \<noteq> 0 \<Longrightarrow> unat j < 512 \<Longrightarrow> m' (ent U j) = m (ent U j)"
  shows "T = B \<or> L T \<noteq> 4 \<Longrightarrow> length js \<le> L T \<Longrightarrow> \<forall>j\<in>set js. unat j < 512 \<Longrightarrow>
    locate m' T js = locate m T js \<and> (\<forall>A a. locate m T js = Some (A, a) \<longrightarrow> L A \<noteq> 0 \<and> unat a < 512)"
proof (induction T js rule: locate_induct [where m = m])
  case (3 T i j js)
  have e: "m' (ent T i) = m (ent T i)" using same [of T i] 3(3,4) by simp
  show ?case
  proof (cases "points (m (ent T i))")
    case True
    let ?N = "PAGE_PHYSICAL_ADDRESS (m (ent T i))"
    have N: "(?N = B \<or> L ?N \<noteq> 4) \<and> length (j # js) \<le> L ?N"
    proof (cases "T = B \<and> i = 510")
      case False
      then have "L ?N = L T - 1"
        using tables_next [OF assms(1), of T i] True 3(2-4) by (auto simp: regular_def points_def present_def)
      moreover have "L T \<le> 4" using tables_table(1) [OF assms(1), of T] 3(3) by simp
      ultimately show ?thesis using 3(3) by auto
    qed (use 3(3) self in auto)
    then show ?thesis using 3(1) [OF True] 3(4) e by simp
  qed (use e in simp)
qed (use assms in auto)

lemma walk_tables:
  assumes "tables L m" and "L B = 4" "PAGE_PHYSICAL_ADDRESS (m (ent B 510)) = B"
    and "\<And>U j. L U \<noteq> 0 \<Longrightarrow> unat j < 512 \<Longrightarrow> m' (ent U j) = m (ent U j)"
  shows "walk m' B v = walk m B v"
proof -
  have "locate m' B (indices v) = locate m B (indices v) \<and>
      (\<forall>A a. locate m B (indices v) = Some (A, a) \<longrightarrow> L A \<noteq> 0 \<and> unat a < 512)"
    using offset_less [of v] assms(2) by (intro locate_tables [OF assms]) (auto simp: indices_def)
  then show ?thesis using assms(4) by (auto simp: walk_def split: option.split)
qed

text \<open>The recursive addresses, as far as the tables above an entry are there.\<close>

lemma recursive_access:
  assumes self: "points (m (ent B 510))" "PAGE_PHYSICAL_ADDRESS (m (ent B 510)) = B"
  shows "walk m B (get_pml4e_offset_recurse v) = Some (ent B (PAGE_PML4_OFFSET v))"
    and "points (m (ent B (PAGE_PML4_OFFSET v))) \<Longrightarrow>
      PAGE_PHYSICAL_ADDRESS (m (ent B (PAGE_PML4_OFFSET v))) = T3 \<Longrightarrow>
      walk m B (get_pdpe_offset_recurse v) = Some (ent T3 (PAGE_POINTER_OFFSET v)) \<and>
      (points (m (ent T3 (PAGE_POINTER_OFFSET v))) \<longrightarrow>
       PAGE_PHYSICAL_ADDRESS (m (ent T3 (PAGE_POINTER_OFFSET v))) = T2 \<longrightarrow>
       walk m B (get_pde_offset_recurse v) = Some (ent T2 (PAGE_DIRECTORY_OFFSET v)) \<and>
       (points (m (ent T2 (PAGE_DIRECTORY_OFFSET v))) \<longrightarrow>
        PAGE_PHYSICAL_ADDRESS (m (ent T2 (PAGE_DIRECTORY_OFFSET v))) = T1 \<longrightarrow>
        walk m B (get_pte_recurse v) = Some (ent T1 (PAGE_TABLE_OFFSET v))))"
proof -
  have "present e" if "points e" for e using that by (simp add: present_def points_def)
  note p = this
  show "walk m B (get_pml4e_offset_recurse v) = Some (ent B (PAGE_PML4_OFFSET v))"
    using assms p by (simp add: walk_def recursive_walks ent_def)
  assume "points (m (ent B (PAGE_PML4_OFFSET v)))" "PAGE_PHYSICAL_ADDRESS (m (ent B (PAGE_PML4_OFFSET v))) = T3"
  then show "walk m B (get_pdpe_offset_recurse v) = Some (ent T3 (PAGE_POINTER_OFFSET v)) \<and>
      (points (m (ent T3 (PAGE_POINTER_OFFSET v))) \<longrightarrow>
       PAGE_PHYSICAL_ADDRESS (m (ent T3 (PAGE_POINTER_OFFSET v))) = T2 \<longrightarrow>
       walk m B (get_pde_offset_recurse v) = Some (ent T2 (PAGE_DIRECTORY_OFFSET v)) \<and>
       (points (m (ent T2 (PAGE_DIRECTORY_OFFSET v))) \<longrightarrow>
        PAGE_PHYSICAL_ADDRESS (m (ent T2 (PAGE_DIRECTORY_OFFSET v))) = T1 \<longrightarrow>
        walk m B (get_pte_recurse v) = Some (ent T1 (PAGE_TABLE_OFFSET v))))"
    using assms p by (simp add: walk_def recursive_walks ent_def)
qed

section \<open>One level\<close>

text \<open>
  A page that can become a table: its virtual address translates to its frame, which is no table, and
  does not use the recursive slot. The pages that the next requests return, and the number of tables
  that a walk to the last level lacks.
\<close>

definition spare :: "(u64 \<Rightarrow> nat) \<Rightarrow> vm_state \<Rightarrow> u64 \<Rightarrow> bool" where
  "spare L s d \<longleftrightarrow> d \<noteq> 0 \<and> frame_addr (d - VIRT_BASE) \<and> d - VIRT_BASE \<noteq> 0 \<and> L (d - VIRT_BASE) = 0 \<and>
     (\<forall>k. unat k < 512 \<longrightarrow> PAGE_PML4_OFFSET (d + 8 * k) \<noteq> 510 \<and>
        walk (phys_mem s) (cr3 s) (d + 8 * k) = Some (ent (d - VIRT_BASE) k))"

definition next_page :: "vm_state \<Rightarrow> nat \<Rightarrow> u64" where
  "next_page s k = bump_addr s + 4096 + 4096 * ucast (prev_no_pages s) + 4096 * of_nat k"

fun missing :: "(u64 \<Rightarrow> u64) \<Rightarrow> u64 \<Rightarrow> u64 list \<Rightarrow> nat" where
  "missing m T [] = 0"
| "missing m T [i] = 0"
| "missing m T (i # j # js) =
     (if points (m (ent T i)) then missing m (PAGE_PHYSICAL_ADDRESS (m (ent T i))) (j # js)
      else length (j # js))"

text \<open>
  There are \<open>k\<close> spare pages, and the last of them, which becomes the page table, holds zeros but for
  the first entry.
\<close>

definition available :: "(u64 \<Rightarrow> nat) \<Rightarrow> vm_state \<Rightarrow> nat \<Rightarrow> bool" where
  "available L s k \<longleftrightarrow> (\<forall>j<k. spare L s (next_page s j)) \<and>
     (0 < k \<longrightarrow> (\<forall>i. unat i < 512 \<and> i \<noteq> 0 \<longrightarrow> phys_mem s (ent (next_page s (k - 1) - VIRT_BASE) i) = 0))"

lemma vclear_spare:
  assumes pg: "paging L s" and d: "spare L s d"
  shows "n \<le> 512 \<Longrightarrow> vclear d n s = Inr (s\<lparr>phys_mem := clear_qwords (d - VIRT_BASE) n (phys_mem s)\<rparr>)"
proof (induction n)
  case 0
  then show ?case by (simp add: vclear_def clear_qwords_def)
next
  case (Suc n)
  let ?D = "d - VIRT_BASE" and ?m = "phys_mem s"
  have k: "unat (of_nat n :: u64) < 512" using Suc.prems unat_block [of n] by simp
  have "clear_qwords ?D n ?m (ent U j) = ?m (ent U j)" if "L U \<noteq> 0" "unat j < 512" for U j
    using clear_qwords_ent [of ?D U j n ?m] pg d that Suc.prems tables_table(2) [of L ?m U]
    by (auto simp: paging_def spare_def)
  then have "walk (clear_qwords ?D n ?m) (cr3 s) (d + 8 * of_nat n) = Some (ent ?D (of_nat n))"
    using walk_tables [of L ?m "cr3 s" "clear_qwords ?D n ?m"] pg d k by (simp add: paging_def spare_def)
  then show ?case
    using Suc by (simp add: vclear_def rfold_append vstore_def clear_qwords_def ent_def fun_upd_def)
qed

lemma adds_table_same_lookups:
  assumes new: "adds_table L (phys_mem s) T i p u (phys_mem s')"
    and "cur_pml4_base_pointer s' = cur_pml4_base_pointer s"
  shows "same_lookups L s s'"
proof -
  note d = adds_tableD [OF new]
  have "phys_mem s' (ent U 510) = phys_mem s (ent U 510)" if "L U = 4" for U
  proof -
    have "L U \<noteq> 0 \<and> unat (510 :: u64) < 512 \<and> \<not> (U = T \<and> 510 = i)" using d(2) that by (auto simp: regular_def)
    then show ?thesis using new unfolding adds_table_def by blast
  qed
  then show ?thesis
    using assms(2) adds_table_lookup [OF new] adds_table_old [OF new] d(4) unfolding same_lookups_def by blast
qed

lemma walk_same_lookups:
  assumes "same_lookups L s s'" and "L B = 4" and "PAGE_PML4_OFFSET v \<noteq> 510"
  shows "walk (phys_mem s') B v = walk (phys_mem s) B v"
  using assms path_indices [of L B v] by (simp add: walk_lookup same_lookups_def)

text \<open>The effect of a level that adds the table \<open>d\<close>.\<close>

definition table_added :: "(u64 \<Rightarrow> nat) \<Rightarrow> vm_state \<Rightarrow> u64 \<Rightarrow> u64 \<Rightarrow> u64 \<Rightarrow> bool \<Rightarrow> vm_state \<Rightarrow> bool" where
  "table_added L s T i d u s' \<longleftrightarrow>
     adds_table L (phys_mem s) T i (d - VIRT_BASE) u (phys_mem s') \<and>
     s' = s\<lparr>bump_addr := d, prev_no_pages := 0, phys_mem := phys_mem s'\<rparr> \<and>
     (\<forall>p j. frame_addr p \<and> L p = 0 \<and> p \<noteq> d - VIRT_BASE \<and> unat j < 512 \<longrightarrow>
        phys_mem s' (ent p j) = phys_mem s (ent p j))"

lemma map_level_after_new:
  assumes pg: "paging L s" and reg: "regular L T i" "2 \<le> L T" and n: "n \<le> 512"
    and e: "walk (phys_mem s) (cr3 s) e = Some (ent T i)" and empty: "\<not> present (phys_mem s (ent T i))"
    and d: "d = next_page s 0" "spare L s d"
    and rest: "\<And>j. n \<le> unat j \<Longrightarrow> unat j < 512 \<Longrightarrow> phys_mem s (ent (d - VIRT_BASE) j) = 0"
  obtains s' where "map_level_after fill n e u s = Inr s'" and "table_added L s T i d u s'"
proof -
  let ?D = "d - VIRT_BASE" and ?m = "phys_mem s"
  let ?c = "clear_qwords ?D n ?m"
  let ?m' = "?c(ent T i := fill (?m (ent T i)) ?D u)"
  let ?s = "s\<lparr>bump_addr := d, prev_no_pages := 0\<rparr>"
  have tb: "tables L ?m" using pg by (simp add: paging_def)
  note T = tables_regular [OF tb reg(1)]
  have D: "frame_addr ?D" "?D \<noteq> 0" "L ?D = 0" "d \<noteq> 0" using d(2) by (auto simp: spare_def)
  have clear: "?c (ent U j) = ?m (ent U j)" if "L U \<noteq> 0" "unat j < 512" for U j
    using clear_qwords_ent [OF D(1) tables_table(2) [OF tb that(1)] that(2) n, of ?m] D(3) that(1) by auto
  then have e': "walk ?c (cr3 s) e = Some (ent T i)"
    using walk_tables [of L ?m "cr3 s" ?c] pg e by (simp add: paging_def)
  have alloc: "vmmgr_alloc_page 0 s = (?s, d)" by (simp add: vmmgr_alloc_page_def d(1) next_page_def Let_def)
  have "vclear d n ?s = Inr (?s\<lparr>phys_mem := ?c\<rparr>)"
    using vclear_spare [of L ?s d n] pg d(2) n by (simp add: paging_def spare_def)
  moreover have "?m (ent T i) AND PML4E_PRESENT = 0"
    using empty word_and_flag(1) [of "?m (ent T i)"] by (auto simp: present_def PML4E_PRESENT_def)
  ultimately have run: "map_level_after fill n e u s = Inr (?s\<lparr>phys_mem := ?m'\<rparr>)"
    using e e' D(4) alloc clear [OF T(3,2)]
    by (simp add: map_level_after_def vload_def vstore_def vupdate_def)
  have "?m' (ent ?D j) = 0" if "unat j < 512" for j
    using clear_qwords_ent [OF D(1) D(1) that n, of ?m] rest [OF _ that] ent_eq_iff [OF D(1) T(1) that T(2)] D(3) T(3)
    by auto
  moreover have "?m' (ent U j) = ?m (ent U j)" if "L U \<noteq> 0" "unat j < 512" "\<not> (U = T \<and> j = i)" for U j
    using clear [OF that(1,2)] ent_eq_iff [OF tables_table(2) [OF tb that(1)] T(1) that(2) T(2)] that(3) by auto
  ultimately have "adds_table L ?m T i ?D u ?m'"
    using tb reg empty D unfolding adds_table_def by auto
  moreover have "?m' (ent p j) = ?m (ent p j)"
    if "frame_addr p" "L p = 0" "p \<noteq> ?D" "unat j < 512" for p j
    using clear_qwords_ent [OF D(1) that(1,4) n, of ?m] ent_eq_iff [OF that(1) T(1) that(4) T(2)] that T(3) by auto
  ultimately show ?thesis using run by (intro that [of "?s\<lparr>phys_mem := ?m'\<rparr>"]) (auto simp: table_added_def)
qed

lemma table_addedD:
  assumes pg: "paging L s" and add: "table_added L s T i d u s'"
  defines "L' \<equiv> L(d - VIRT_BASE := L T - 1)"
  shows "paging L' s'" and "extends L L'" and "same_lookups L s s'" and "cr3 s' = cr3 s"
    and "points (phys_mem s' (ent T i))" and "PAGE_PHYSICAL_ADDRESS (phys_mem s' (ent T i)) = d - VIRT_BASE"
    and "L' (d - VIRT_BASE) = L T - 1" and "next_page s' k = d + 4096 * of_nat (Suc k)"
    and "unat j < 512 \<Longrightarrow> phys_mem s' (ent (d - VIRT_BASE) j) = 0"
    and "spare L s a \<Longrightarrow> a \<noteq> d \<Longrightarrow> spare L' s' a"
proof -
  have new: "adds_table L (phys_mem s) T i (d - VIRT_BASE) u (phys_mem s')"
    and s': "s' = s\<lparr>bump_addr := d, prev_no_pages := 0, phys_mem := phys_mem s'\<rparr>"
    using add by (simp_all add: table_added_def)
  note D = adds_tableD [OF new]
  show cr: "cr3 s' = cr3 s" by (subst s') simp
  have "cur_pml4_base_pointer s' = cur_pml4_base_pointer s" by (subst s') simp
  then show same: "same_lookups L s s'" by (rule adds_table_same_lookups [OF new])
  have B: "L (cr3 s) = 4" using pg by (simp add: paging_def)
  then have "L' (cr3 s) = 4" using D(5) by (auto simp: L'_def)
  then show "paging L' s'"
    using adds_table_tables [OF new] pg same B cr by (simp add: paging_def L'_def same_lookups_def)
  show "extends L L'" using D(5) by (auto simp: extends_def L'_def)
  show "points (phys_mem s' (ent T i))" "PAGE_PHYSICAL_ADDRESS (phys_mem s' (ent T i)) = d - VIRT_BASE"
    using adds_table_entry [OF new] by simp_all
  show "L' (d - VIRT_BASE) = L T - 1" by (simp add: L'_def)
  show "next_page s' k = d + 4096 * of_nat (Suc k)" by (subst s') (simp add: next_page_def algebra_simps)
  show "phys_mem s' (ent (d - VIRT_BASE) j) = 0" if "unat j < 512" by (rule D(8) [OF that])
  show "spare L' s' a" if "spare L s a" "a \<noteq> d"
    using that walk_same_lookups [OF same B] cr by (auto simp: spare_def L'_def)
qed

lemma next_page_Suc: "next_page s (Suc k) = next_page s 0 + 4096 * of_nat (Suc k)"
  by (simp add: next_page_def algebra_simps)

lemma next_page_inj:
  assumes "k < 1000"
  shows "next_page s (Suc k) \<noteq> next_page s 0"
proof
  assume "next_page s (Suc k) = next_page s 0"
  then have "(0 :: u64) + 4096 * of_nat (Suc k) = 0" unfolding next_page_Suc by (metis add_0 add_cancel_left_right)
  moreover have "unat (0 + 4096 * of_nat (Suc k) :: u64) = 4096 * Suc k"
    using unat_page [of 0 "Suc k"] assms by simp
  ultimately show False by (metis Suc_neq_Zero mult_eq_0_iff unat_0 zero_neq_numeral)
qed

text \<open>One level: the entry then points one level down, no translation changes, and the pages for the rest remain.\<close>

lemma map_level_after_ok:
  assumes pg: "paging L s" and reg: "regular L T i" and k: "L T = k + 1" "length js + 1 = k"
    and n: "n = 512 \<or> n = 1 \<and> js = []" and j: "unat j < 512"
    and e: "walk (phys_mem s) (cr3 s) e = Some (ent T i)"
    and av: "available L s (missing (phys_mem s) T (i # j # js))"
  obtains s' L' N where "map_level_after fill n e u s = Inr s'" and "paging L' s'" and "extends L L'"
    and "same_lookups L s s'" and "cr3 s' = cr3 s" and "points (phys_mem s' (ent T i))"
    and "PAGE_PHYSICAL_ADDRESS (phys_mem s' (ent T i)) = N" and "L' N = k"
    and "available L' s' (missing (phys_mem s') N (j # js))"
proof (cases "present (phys_mem s (ent T i))")
  case True
  have tb: "tables L (phys_mem s)" using pg by (simp add: paging_def)
  have pts: "points (phys_mem s (ent T i))" using True tables_plain [OF tb reg] plain_points by blast
  have "phys_mem s (ent T i) AND PML4E_PRESENT \<noteq> 0"
    using True word_and_flag(1) [of "phys_mem s (ent T i)"] by (auto simp: present_def PML4E_PRESENT_def)
  then have "map_level_after fill n e u s = Inr s" using e by (simp add: map_level_after_def vload_def)
  then show ?thesis
    using pg pts av tables_next [OF tb reg _ True] k by (intro that [of s L]) (auto simp: extends_def same_lookups_def)
next
  case False
  let ?d = "next_page s 0" and ?k = "length js"
  have "\<not> points (phys_mem s (ent T i))" using False by (simp add: points_def present_def)
  then have av: "available L s (Suc ?k)" using av by simp
  then have d: "spare L s ?d" by (auto simp: available_def)
  have "phys_mem s (ent (?d - VIRT_BASE) l) = 0" if "n \<le> unat l" "unat l < 512" for l
    using av n that by (auto simp: available_def)
  note rest = this
  have two: "2 \<le> L T" using k by simp
  have n512: "n \<le> 512" using n by auto
  obtain s' where run: "map_level_after fill n e u s = Inr s'" and add: "table_added L s T i ?d u s'"
    by (rule map_level_after_new [OF pg reg two n512 e False refl d rest])
  note t = table_addedD [OF pg add]
  have "L T \<le> 4" using tables_table(1) [of L "phys_mem s" T] pg two by (simp add: paging_def)
  then have k1000: "?k < 1000" using k by simp
  have np: "next_page s' l = next_page s (Suc l)" for l using t(8) [of l] next_page_Suc [of s l] by simp
  have sp: "spare L s (next_page s (Suc l)) \<and> next_page s (Suc l) \<noteq> ?d" if "l < ?k" for l
    using av that next_page_inj [of l s] k1000 by (auto simp: available_def)
  have "available (L(?d - VIRT_BASE := L T - 1)) s' ?k"
    unfolding available_def
  proof (intro conjI allI impI)
    show "spare (L(?d - VIRT_BASE := L T - 1)) s' (next_page s' l)" if "l < ?k" for l
      using t(10) [of "next_page s (Suc l)"] sp [OF that] np by simp
    fix i :: u64 assume k: "0 < ?k" and i: "unat i < 512 \<and> i \<noteq> 0"
    let ?p = "next_page s (Suc (?k - 1)) - VIRT_BASE"
    have "frame_addr ?p \<and> L ?p = 0 \<and> ?p \<noteq> ?d - VIRT_BASE" using sp [of "?k - 1"] k by (auto simp: spare_def)
    then have "phys_mem s' (ent ?p i) = phys_mem s (ent ?p i)" using add i unfolding table_added_def by blast
    then show "phys_mem s' (ent (next_page s' (?k - 1) - VIRT_BASE) i) = 0"
      using av i k np by (simp add: available_def)
  qed
  moreover have "missing (phys_mem s') (?d - VIRT_BASE) (j # js) = ?k"
    using t(9) [OF j] by (cases js) (simp_all add: points_def)
  ultimately show ?thesis using that [OF run t(1-6)] t(7) k(1) by (simp only: add_diff_cancel_right')
qed

section \<open>The whole mapping\<close>

lemma tables_set_page:
  assumes tb: "tables L m" and T1: "L T1 = 1" "unat i < 512" and e: "plain e"
  shows "tables L (m(ent T1 i := e))"
    and "L U \<noteq> 0 \<Longrightarrow> unat j < 512 \<Longrightarrow> \<not> (U = T1 \<and> j = i) \<Longrightarrow> (m(ent T1 i := e)) (ent U j) = m (ent U j)"
proof -
  have other: "(m(ent T1 i := e)) (ent U j) = m (ent U j)" if "L U \<noteq> 0" "unat j < 512" "\<not> (U = T1 \<and> j = i)" for U j
    using ent_eq_iff [OF tables_table(2) [OF tb that(1)] tables_table(2) [OF tb, of T1] that(2) T1(2)] that T1 by auto
  then show "L U \<noteq> 0 \<Longrightarrow> unat j < 512 \<Longrightarrow> \<not> (U = T1 \<and> j = i) \<Longrightarrow> (m(ent T1 i := e)) (ent U j) = m (ent U j)" .
  have "table_entries L (m(ent T1 i := e))"
  proof (rule table_entries_cong)
    show "table_entries L m" using tb by (simp add: tables_def)
    show "plain ((m(ent T1 i := e)) (ent U j))" if "regular L U j" for U j
      using other [of U j] that tables_plain [OF tb that] e by (cases "U = T1 \<and> j = i") (auto simp: regular_def)
    show "(m(ent T1 i := e)) (ent U j) = m (ent U j)" if "regular L U j" "2 \<le> L U" for U j
    proof -
      have "L U \<noteq> 0" "unat j < 512" "U \<noteq> T1" using that T1 by (auto simp: regular_def)
      then show ?thesis using other [of U j] by blast
    qed
  qed
  then show "tables L (m(ent T1 i := e))" using tb by (simp add: tables_def)
qed

text \<open>Once the tables are there, the last-level entry is set.\<close>

lemma set_phys_virt_recurse_ok:
  assumes pg: "paging L s" and slot: "PAGE_PML4_OFFSET virt \<noteq> 510" and phys: "frame_addr phys"
    and T1: "L T1 = 1" and loc: "locate (phys_mem s) (cr3 s) (indices virt) = Some (T1, PAGE_TABLE_OFFSET virt)"
    and e: "walk (phys_mem s) (cr3 s) (get_pte_recurse virt) = Some (ent T1 (PAGE_TABLE_OFFSET virt))"
  obtains s' where "set_phys_virt_recurse phys virt u s = Inr s'" and "paging L s'" and "cr3 s' = cr3 s"
    and "\<And>v. PAGE_PML4_OFFSET v \<noteq> 510 \<Longrightarrow> walk (phys_mem s') (cr3 s) v =
      (if indices v = indices virt then Some (phys + (v AND 0xFFF)) else walk (phys_mem s) (cr3 s) v)"
proof -
  let ?i = "PAGE_TABLE_OFFSET virt" and ?m = "phys_mem s"
  let ?e = "fill (?m (ent T1 ?i)) phys u"
  let ?s = "s\<lparr>phys_mem := ?m(ent T1 ?i := ?e)\<rparr>"
  have tb: "tables L ?m" and B: "L (cr3 s) = 4" using pg by (simp_all add: paging_def)
  have r1: "regular L T1 ?i" using T1 offset_less [of virt] by (simp add: regular_def)
  note f = fill_entry [OF tables_plain [OF tb r1] phys, of u]
  have run: "set_phys_virt_recurse phys virt u s = Inr ?s"
    using e by (simp add: set_phys_virt_recurse_def vupdate_def vload_def vstore_def set_entry_fill)
  have virt: "path L (cr3 s) (indices virt)" using path_indices [of L "cr3 s", OF B slot] .
  note page = tables_set_page [OF tb T1 offset_less(1) f(3)]
  have "cr3 s \<noteq> T1" using B T1 by auto
  then have "(?m(ent T1 ?i := ?e)) (ent (cr3 s) 510) = ?m (ent (cr3 s) 510)" using B by (intro page(2)) simp_all
  then have "paging L ?s" using pg page(1) by (simp add: paging_def)
  moreover have "walk (?m(ent T1 ?i := ?e)) (cr3 s) v =
      (if indices v = indices virt then Some (phys + (v AND 0xFFF)) else walk ?m (cr3 s) v)"
    if "PAGE_PML4_OFFSET v \<noteq> 510" for v
  proof -
    have p: "path L (cr3 s) (indices v)" using path_indices [of L "cr3 s", OF B that] .
    have "locate ?m (cr3 s) (indices v) = Some (T1, ?i) \<longleftrightarrow> indices v = indices virt"
      using locate_inj [OF tb p virt refl _ loc] loc by auto
    moreover have "present ?e" using f(2) by (simp add: points_def present_def)
    ultimately show ?thesis using set_page_lookup [OF tb r1 T1 p, of ?e] f(1) by (simp add: walk_lookup)
  qed
  ultimately show ?thesis using run by (intro that [of ?s]) simp_all
qed

lemma map_page_after_steps:
  assumes pg: "paging L s" and slot: "PAGE_PML4_OFFSET virt \<noteq> 510"
    and av: "available L s (missing (phys_mem s) (cr3 s) (indices virt))"
  obtains s3 L3 T1 where "vmmgr_map_page_after_paging phys virt u s = set_phys_virt_recurse phys virt u s3"
    and "paging L3 s3" and "same_lookups L s s3" and "cr3 s3 = cr3 s" and "L3 T1 = 1"
    and "locate (phys_mem s3) (cr3 s) (indices virt) = Some (T1, PAGE_TABLE_OFFSET virt)"
    and "walk (phys_mem s3) (cr3 s) (get_pte_recurse virt) = Some (ent T1 (PAGE_TABLE_OFFSET virt))"
proof -
  let ?B = "cr3 s"
  let ?i4 = "PAGE_PML4_OFFSET virt" and ?i3 = "PAGE_POINTER_OFFSET virt"
    and ?i2 = "PAGE_DIRECTORY_OFFSET virt" and ?i1 = "PAGE_TABLE_OFFSET virt"
  note lt = offset_less [of virt]
  have self: "points (phys_mem t (ent ?B 510))" "PAGE_PHYSICAL_ADDRESS (phys_mem t (ent ?B 510)) = ?B"
    if "paging K t" "cr3 t = ?B" for K t using that by (auto simp: paging_def)
  have B: "L ?B = 4" using pg by (simp add: paging_def)
  then have r4: "regular L ?B ?i4" using slot lt by (simp add: regular_def)
  have av4: "available L s (missing (phys_mem s) ?B (?i4 # ?i3 # [?i2, ?i1]))" using av by (simp add: indices_def)
  have l4: "L ?B = 3 + 1" "length [?i2, ?i1] + 1 = 3" using B by simp_all
  obtain s1 L1 T3 where 1: "map_level_after fill 512 (get_pml4e_offset_recurse virt) u s = Inr s1" "paging L1 s1"
      "extends L L1" "same_lookups L s s1" "cr3 s1 = ?B" "points (phys_mem s1 (ent ?B ?i4))"
      "PAGE_PHYSICAL_ADDRESS (phys_mem s1 (ent ?B ?i4)) = T3" "L1 T3 = 3"
      "available L1 s1 (missing (phys_mem s1) T3 (?i3 # ?i2 # [?i1]))"
    by (rule map_level_after_ok [OF pg r4 l4 disjI1 [OF refl] lt(3)
          recursive_access(1) [of "phys_mem s", OF self [OF pg refl]] av4])
  have r3: "regular L1 T3 ?i3" using 1(8) lt by (simp_all add: regular_def)
  have e3: "walk (phys_mem s1) (cr3 s1) (get_pdpe_offset_recurse virt) = Some (ent T3 ?i3)"
    using recursive_access(2) [of "phys_mem s1", OF self [OF 1(2,5)] 1(6,7)] 1(5) by simp
  have l3: "L1 T3 = 2 + 1" "length [?i1] + 1 = 2" using 1(8) by simp_all
  obtain s2 L2 T2 where 2: "map_level_after fill 512 (get_pdpe_offset_recurse virt) u s1 = Inr s2" "paging L2 s2"
      "extends L1 L2" "same_lookups L1 s1 s2" "cr3 s2 = ?B" "points (phys_mem s2 (ent T3 ?i3))"
      "PAGE_PHYSICAL_ADDRESS (phys_mem s2 (ent T3 ?i3)) = T2" "L2 T2 = 2"
      "available L2 s2 (missing (phys_mem s2) T2 (?i2 # ?i1 # []))"
    unfolding 1(5) [symmetric] by (rule map_level_after_ok [OF 1(2) r3 l3 disjI1 [OF refl] lt(2) e3 1(9)])
  have r2: "regular L2 T2 ?i2" using 2(8) lt by (simp_all add: regular_def)
  have p4: "phys_mem s2 (ent ?B ?i4) = phys_mem s1 (ent ?B ?i4)"
    using 2(4) 1(6) extends_regular [OF 1(3) r4] by (auto simp: same_lookups_def points_def present_def)
  have e2: "walk (phys_mem s2) (cr3 s2) (get_pde_offset_recurse virt) = Some (ent T2 ?i2)"
    using recursive_access(2) [of "phys_mem s2", OF self [OF 2(2,5)], of virt T3 T2] 1(6,7) 2(6,7) 2(5) p4 by simp
  have l2: "L2 T2 = 1 + 1" "length ([] :: u64 list) + 1 = 1" "1 = (512 :: nat) \<or> 1 = (1 :: nat) \<and> ([] :: u64 list) = []"
    using 2(8) by simp_all
  obtain s3 L3 T1 where 3: "map_level_after fill 1 (get_pde_offset_recurse virt) u s2 = Inr s3" "paging L3 s3"
      "same_lookups L2 s2 s3" "cr3 s3 = ?B" "points (phys_mem s3 (ent T2 ?i2))"
      "PAGE_PHYSICAL_ADDRESS (phys_mem s3 (ent T2 ?i2)) = T1" "L3 T1 = 1"
    unfolding 2(5) [symmetric] by (rule map_level_after_ok [OF 2(2) r2 l2 lt(1) e2 2(9)])
  have s13: "same_lookups L1 s1 s3" using 2(4,3) 3(3) by (rule same_lookups_trans)
  have "phys_mem s3 (ent ?B ?i4) = phys_mem s1 (ent ?B ?i4)" "phys_mem s3 (ent T3 ?i3) = phys_mem s2 (ent T3 ?i3)"
    using s13 3(3) 1(6) 2(6) extends_regular [OF 1(3) r4] extends_regular [OF 2(3) r3]
    by (auto simp: same_lookups_def points_def present_def)
  note up = this
  show ?thesis
  proof (rule that [OF _ 3(2) same_lookups_trans [OF 1(4,3) s13] 3(4,7)])
    show "vmmgr_map_page_after_paging phys virt u s = set_phys_virt_recurse phys virt u s3"
      using 1(1) 2(1) 3(1) by (simp add: vmmgr_map_page_after_paging_def set_entry_fill)
    show "locate (phys_mem s3) ?B (indices virt) = Some (T1, ?i1)"
      using 1(6,7) 2(6,7) 3(5,6) up by (simp add: indices_def)
    show "walk (phys_mem s3) ?B (get_pte_recurse virt) = Some (ent T1 ?i1)"
      using recursive_access(2) [of "phys_mem s3", OF self [OF 3(2,4)], of virt T3 T2 T1] 1(6,7) 2(6,7) 3(5,6) up by simp
  qed
qed

lemma map_page_after_refines:
  assumes pg: "paging L s" and slot: "PAGE_PML4_OFFSET virt \<noteq> 510" and phys: "frame_addr phys"
    and av: "available L s (missing (phys_mem s) (cr3 s) (indices virt))"
  obtains s' L' where "vmmgr_map_page_after_paging phys virt u s = Inr s'" and "paging L' s'" and "cr3 s' = cr3 s"
    and "\<And>v. PAGE_PML4_OFFSET v \<noteq> 510 \<Longrightarrow> walk (phys_mem s') (cr3 s) v =
      (if indices v = indices virt then Some (phys + (v AND 0xFFF)) else walk (phys_mem s) (cr3 s) v)"
proof -
  obtain s3 L3 T1 where 3: "vmmgr_map_page_after_paging phys virt u s = set_phys_virt_recurse phys virt u s3"
      "paging L3 s3" "same_lookups L s s3" "cr3 s3 = cr3 s" "L3 T1 = 1"
      "locate (phys_mem s3) (cr3 s) (indices virt) = Some (T1, PAGE_TABLE_OFFSET virt)"
      "walk (phys_mem s3) (cr3 s) (get_pte_recurse virt) = Some (ent T1 (PAGE_TABLE_OFFSET virt))"
    by (rule map_page_after_steps [OF pg slot av])
  obtain s' where 4: "set_phys_virt_recurse phys virt u s3 = Inr s'" "paging L3 s'" "cr3 s' = cr3 s3"
      "\<And>v. PAGE_PML4_OFFSET v \<noteq> 510 \<Longrightarrow> walk (phys_mem s') (cr3 s3) v =
        (if indices v = indices virt then Some (phys + (v AND 0xFFF)) else walk (phys_mem s3) (cr3 s3) v)"
    using set_phys_virt_recurse_ok [OF 3(2) slot phys 3(5), of u] 3(4,6,7) by metis
  have B: "L (cr3 s) = 4" using pg by (simp add: paging_def)
  show ?thesis
    using 3(1,4) 4 walk_same_lookups [OF 3(3) B] by (intro that [of s' L3]) auto
qed

section \<open>An example\<close>

text \<open>
  A machine whose kernel addresses from \<open>VIRT_BASE + 0x5000\<close> on are mapped for three pages, and nothing
  else but the recursive slot.
\<close>

definition example_mem :: "u64 \<Rightarrow> u64" where
  "example_mem =
     ((((((((\<lambda>_. 0)(ent 0x1000 510 := fill 0 0x1000 False))(ent 0x1000 511 := fill 0 0x2000 False))
       (ent 0x2000 510 := fill 0 0x3000 False))(ent 0x3000 0 := fill 0 0x4000 False))
       (ent 0x4000 5 := fill 0 0x5000 False))(ent 0x4000 6 := fill 0 0x6000 False))(ent 0x4000 7 := fill 0 0x7000 False))"

definition example_level :: "u64 \<Rightarrow> nat" where
  "example_level = ((((\<lambda>_. 0)(0x1000 := 4))(0x2000 := 4 - 1))(0x3000 := 3 - 1))(0x4000 := 2 - 1)"

definition example_paged :: vm_state where
  "example_paged = example_vm 0\<lparr>phys_mem := example_mem, cr3 := 0x1000, bump_addr := VIRT_BASE + 0x4000\<rparr>"

lemma adds_blank_table:
  assumes "tables L m" and "L T = k" and "regular L T i" and "2 \<le> k" and "m (ent T i) = 0"
    and "frame_addr p" and "p \<noteq> 0" and "L p = 0" and "\<And>j. unat j < 512 \<Longrightarrow> m (ent p j) = 0"
  shows "tables (L(p := k - 1)) (m(ent T i := fill 0 p u))"
proof -
  define m' where "m' = m(ent T i := fill 0 p u)"
  note T = tables_regular [OF assms(1,3)]
  have same: "m' (ent U j) = m (ent U j)" if "frame_addr U" "unat j < 512" "\<not> (U = T \<and> j = i)" for U j
    using ent_eq_iff [OF that(1) T(1) that(2) T(2)] that(3) by (simp add: m'_def)
  have "T \<noteq> p" using T(3) assms(8) by auto
  then have "m' (ent p j) = 0" if "unat j < 512" for j using same [OF assms(6) that] assms(9) [OF that] by simp
  then have "adds_table L m T i p u m'"
    using assms(1-8) same tables_table(2) [OF assms(1)] unfolding adds_table_def
    by (simp add: present_def) (simp add: m'_def)
  from adds_table_tables [OF this] show ?thesis using assms(2) by (simp add: m'_def)
qed

lemma example_frames:
  "frame_addr 0x1000" "frame_addr 0x2000" "frame_addr 0x3000" "frame_addr 0x4000" "frame_addr 0x5000"
  "frame_addr 0x6000" "frame_addr 0x7000" "frame_addr 0x9000"
  by (simp_all add: frame_addr_def)

lemma example_root: "tables ((\<lambda>_. 0)(0x1000 := 4)) ((\<lambda>_. 0)(ent 0x1000 510 := fill 0 0x1000 False))"
proof -
  define m where "m = (\<lambda>_. 0)(ent 0x1000 510 := fill 0 0x1000 False)"
  have "m (ent T i) = 0" if "regular ((\<lambda>_. 0)(0x1000 := 4)) T i" for T i
    using that ent_eq_iff [of "0x1000" "0x1000" i 510] example_frames(1)
    by (auto simp: regular_def m_def split: if_splits)
  then have "plain (m (ent T i)) \<and> \<not> present (m (ent T i))" if "regular ((\<lambda>_. 0)(0x1000 := 4)) T i" for T i
    using that by (simp add: present_def)
  then have "table_entries ((\<lambda>_. 0)(0x1000 := 4)) m" unfolding table_entries_def by blast
  then show ?thesis using example_frames(1) by (simp add: tables_def m_def)
qed

lemma example_tables: "tables example_level example_mem"
proof -
  note [simp] = ent_eq_iff regular_def
  note f = example_frames
  have "tables example_level
      (((((\<lambda>_. 0)(ent 0x1000 510 := fill 0 0x1000 False))(ent 0x1000 511 := fill 0 0x2000 False))
       (ent 0x2000 510 := fill 0 0x3000 False))(ent 0x3000 0 := fill 0 0x4000 False))"
    unfolding example_level_def
    by (intro adds_blank_table example_root) (use f in simp_all)
  moreover have "plain (fill 0 0x5000 False)" "plain (fill 0 0x6000 False)" "plain (fill 0 0x7000 False)"
    using f by (auto intro: fill_entry(3))
  moreover have "example_level 0x4000 = 1" by (simp add: example_level_def)
  ultimately show ?thesis
    unfolding example_mem_def
    by - (rule tables_set_page(1), rule tables_set_page(1), rule tables_set_page(1), simp_all)
qed

lemma example_mem_eq:
  "example_mem = (\<lambda>_. 0)(0x1FF0 := 0x1003, 0x1FF8 := 0x2003, 0x2FF0 := 0x3003, 0x3000 := 0x4003,
     0x4028 := 0x5003, 0x4030 := 0x6003, 0x4038 := 0x7003)"
  by (simp add: example_mem_def ent_def fill_def)

lemma example_points: "points 0x1003" "points 0x2003" "points 0x3003" "points 0x4003"
  by (simp_all add: points_def bit_iff_odd)

lemma example_paging: "paging example_level example_paged"
  using example_tables example_points
  by (simp add: paging_def example_paged_def example_mem_eq ent_def example_level_def PAGE_PHYSICAL_ADDRESS_def)

lemma low_page_indices:
  assumes d1: "4096 dvd unat d" and low: "unat d < 2 ^ 21" and k: "unat k < 512"
  shows "indices (VIRT_BASE + d + 8 * k) = [511, 510, 0, PAGE_TABLE_OFFSET d]"
    and "(VIRT_BASE + d + 8 * k) AND 0xFFF = 8 * k"
proof -
  have k8: "8 * k = of_nat (8 * unat k)" using k by (simp add: word_unat_eq_iff unat_times8 unat_of_nat)
  then have v: "VIRT_BASE + d + 8 * k = kern (unat d + 8 * unat k)" by (simp add: kern_def algebra_simps)
  have d2: "unat d + 4096 * 1 \<le> 2 ^ 31" using low by simp
  have lt: "8 * unat k < 4096 * 1" using k by simp
  have q: "8 * unat k div 4096 = 0" "8 * unat k mod 4096 = 8 * unat k" using lt by simp_all
  have i: "indices (kern (unat d + 8 * unat k)) = indices (kern (unat d))"
      "kern (unat d + 8 * unat k) AND 0xFFF = 8 * k"
    using kern_in_range [OF d1 d2 lt] unfolding q k8 by (simp_all only: mult_0_right add_0_right)
  have "unat d < 2 ^ 31" "unat d div 2 ^ 21 = 0" "unat d div 2 ^ 30 = 0" using low by auto
  then have "indices (kern (unat d)) = [511, 510, 0, PAGE_TABLE_OFFSET d]"
    using kern_offsets [of "unat d"] unat_offset(1) [of d]
    by (simp only: indices_def word_unat_eq_iff list.inject) simp
  with i show "indices (VIRT_BASE + d + 8 * k) = [511, 510, 0, PAGE_TABLE_OFFSET d]"
    and "(VIRT_BASE + d + 8 * k) AND 0xFFF = 8 * k" unfolding v by simp_all
qed

lemma example_spare:
  assumes "d = 0x5000 \<or> d = 0x6000 \<or> d = 0x7000"
  shows "spare example_level example_paged (VIRT_BASE + d)"
proof -
  have w: "PAGE_PML4_OFFSET (VIRT_BASE + d + 8 * k) \<noteq> 510 \<and>
      walk example_mem 0x1000 (VIRT_BASE + d + 8 * k) = Some (ent d k)" if "unat k < 512" for k
  proof -
    have i: "indices (VIRT_BASE + d + 8 * k) = [511, 510, 0, PAGE_TABLE_OFFSET d]"
      "(VIRT_BASE + d + 8 * k) AND 0xFFF = 8 * k"
      using low_page_indices [of d k] assms that by auto
    then have "locate example_mem 0x1000 (indices (VIRT_BASE + d + 8 * k)) = Some (0x4000, PAGE_TABLE_OFFSET d)"
      using example_points by (simp add: example_mem_eq ent_def PAGE_PHYSICAL_ADDRESS_def)
    moreover have "example_mem (ent 0x4000 (PAGE_TABLE_OFFSET d)) = d OR 3 \<and> PAGE_PHYSICAL_ADDRESS (d OR 3) = d"
      using assms by (elim disjE) (simp_all add: example_mem_eq ent_def PAGE_TABLE_OFFSET_def PAGE_PHYSICAL_ADDRESS_def)
    moreover have "present (d OR 3)" using assms by (elim disjE) (simp_all add: present_def bit_iff_odd)
    moreover have "PAGE_PML4_OFFSET (VIRT_BASE + d + 8 * k) = 511" using i(1) by (simp add: indices_def)
    ultimately show ?thesis using i(2) by (simp add: walk_def ent_def)
  qed
  have "VIRT_BASE + d \<noteq> 0 \<and> frame_addr d \<and> d \<noteq> 0 \<and> example_level d = 0"
    using assms example_frames by (auto simp: VIRT_BASE_def example_level_def)
  then show ?thesis using w by (simp add: spare_def example_paged_def)
qed

section \<open>Properties\<close>

text \<open>
  C13. With paging on, in tables with a recursive slot, \<open>vmmgr_map_page_after_paging\<close> succeeds whenever
  the pages that the bump allocator returns for the missing tables are mapped to their frames and
  the one that becomes the page table is blank but for its first entry. It makes every address of the
  page translate into the frame, leaves every other translation (outside the recursive slot) as it was,
  and keeps the tables well formed.
\<close>

theorem vmmgr_map_page_after_paging_correct:
  assumes "paging L s" and "PAGE_PML4_OFFSET virt \<noteq> 510" and "frame_addr phys"
    and "available L s (missing (phys_mem s) (cr3 s) (indices virt))"
  shows "\<exists>s' L'. vmmgr_map_page_after_paging phys virt is_user s = Inr s' \<and> paging L' s' \<and> cr3 s' = cr3 s \<and>
    (\<forall>v. PAGE_PML4_OFFSET v \<noteq> 510 \<longrightarrow> walk (phys_mem s') (cr3 s) v =
       (if indices v = indices virt then Some (phys + (v AND 0xFFF)) else walk (phys_mem s) (cr3 s) v))"
  by (rule map_page_after_refines [OF assms, of is_user]) blast

theorem vmmgr_map_page_after_paging_correct_witness:
  "\<exists>s'. vmmgr_map_page_after_paging 0x9000 0x400000 True example_paged = Inr s' \<and>
     walk (phys_mem s') 0x1000 0x400123 = Some 0x9123 \<and>
     walk (phys_mem s') 0x1000 (VIRT_BASE + 0x6010) = Some 0x6010"
proof -
  have offs: "PAGE_PML4_OFFSET 0x400000 \<noteq> 510" "PAGE_PML4_OFFSET 0x400123 \<noteq> 510" "indices 0x400123 = indices 0x400000"
    "indices (VIRT_BASE + 0x6010) \<noteq> indices 0x400000" "PAGE_PML4_OFFSET (VIRT_BASE + 0x6010) \<noteq> 510"
    by (simp_all add: indices_def PAGE_PML4_OFFSET_def PAGE_POINTER_OFFSET_def PAGE_DIRECTORY_OFFSET_def
        PAGE_TABLE_OFFSET_def VIRT_BASE_def)
  have np: "next_page example_paged j = VIRT_BASE + 0x5000 + 4096 * of_nat j" for j
    by (simp add: next_page_def example_paged_def example_vm_def)
  have mem: "phys_mem example_paged = example_mem" by (simp add: example_paged_def)
  have "missing (phys_mem example_paged) (cr3 example_paged) (indices 0x400000) = 3"
    by (simp add: indices_def example_paged_def example_mem_eq ent_def PAGE_PML4_OFFSET_def points_def)
  moreover have "example_mem (ent 0x7000 i) = 0" if "unat i < 512" for i
    using that example_frames by (simp add: example_mem_def ent_eq_iff)
  then have "available example_level example_paged 3"
    using example_spare [of "0x5000"] example_spare [of "0x6000"] example_spare [of "0x7000"] np [of 0] np [of 1] np [of 2]
    by (auto simp: available_def less_Suc_eq numeral_3_eq_3 numeral_2_eq_2 mem add.commute)
  ultimately obtain s' where s': "vmmgr_map_page_after_paging 0x9000 0x400000 True example_paged = Inr s'"
      "\<forall>v. PAGE_PML4_OFFSET v \<noteq> 510 \<longrightarrow> walk (phys_mem s') 0x1000 v =
        (if indices v = indices 0x400000 then Some (0x9000 + (v AND 0xFFF)) else walk example_mem 0x1000 v)"
    using vmmgr_map_page_after_paging_correct [OF example_paging offs(1) example_frames(8), of True]
    by (auto simp: example_paged_def)
  have "walk example_mem 0x1000 (VIRT_BASE + 0x6000 + 8 * 2) = Some (ent 0x6000 2)"
    using example_spare [of "0x6000"] unfolding spare_def by (auto simp: example_paged_def dest: spec [of _ 2])
  then show ?thesis using s' offs by (intro exI [of _ s']) (simp add: ent_def algebra_simps)
qed

end
