(* ===== verification/Page_Copy.thy ===== *)
theory Page_Copy
  imports Paging_On
begin

text \<open>
  What \<open>fork\<close> and \<open>exec\<close> do to the tables of a process (\<open>sys/mm/vmmgr_virtual.c\<close>): the copy of the level-4
  table, the copy of the tables below it with all pages shared copy-on-write, and their removal. The
  code reaches the tables through the kernel's map of physical memory, at \<open>VIRT_BASE\<close> plus the frame.
\<close>

section \<open>Copying and clearing the tables of a process\<close>

text \<open>The table that the entry \<open>v\<close> points to, in the kernel's map of physical memory.\<close>

definition table_ptr :: "u64 \<Rightarrow> u64" where
  "table_ptr v = PAGE_PHYSICAL_ADDRESS v + VIRT_BASE"

text \<open>\<open>memcpy(dst, src, 8 * n)\<close> between tables.\<close>

definition vcopy :: "u64 \<Rightarrow> u64 \<Rightarrow> nat \<Rightarrow> vm_state \<Rightarrow> vm_state res" where
  "vcopy dst src n s =
     rfold (\<lambda>k s. rbind (vload (src + 8 * of_nat k) s) (\<lambda>v. vstore (dst + 8 * of_nat k) v s)) [0..<n] s"

text \<open>The loop copies all 512 entries, then the recursive slot is pointed at the copy itself.\<close>

definition clone_pgdir :: "u64 \<Rightarrow> u64 \<Rightarrow> vm_state \<Rightarrow> vm_state res" where
  "clone_pgdir parent_pml4 child_pml4 s =
     rbind (vcopy child_pml4 parent_pml4 512 s) (\<lambda>s.
     rbind (vstore (child_pml4 + 8 * 510) (child_pml4 - VIRT_BASE) s) (\<lambda>s.
     vupdate (child_pml4 + 8 * 510) (\<lambda>v. v OR PTE_USER OR PTE_PRESENT OR PTE_WRITABLE) s))"

text \<open>The loop over the entries of a page table, which shares its pages between parent and child.\<close>

definition share_pages :: "u64 \<Rightarrow> u64 \<Rightarrow> vm_state \<Rightarrow> vm_state res" where
  "share_pages pte_dir_beg pg s =
     rfold (\<lambda>l s.
       rbind (vupdate (pte_dir_beg + 8 * of_nat l) (\<lambda>v. pt_entry_del_attrib v PTE_WRITABLE) s) (\<lambda>s.
       rbind (vupdate (pg + 8 * of_nat l) (\<lambda>v. pt_entry_del_attrib v PTE_WRITABLE) s) (\<lambda>s.
       rbind (vupdate (pg + 8 * of_nat l) (\<lambda>v. pt_entry_add_attrib v PTE_COW) s) (\<lambda>s.
       vupdate (pte_dir_beg + 8 * of_nat l) (\<lambda>v. pt_entry_add_attrib v PTE_COW) s)))) [0..<512] s"

text \<open>
  The bodies of the loops of \<open>copy_page_table\<close>, from the innermost on. The outer two run up to the first
  entry that is zero, by \<open>for_entries\<close>; nothing bounds them by the size of a table.
\<close>

definition copy_pt :: "u64 \<Rightarrow> u64 \<Rightarrow> bool \<Rightarrow> nat \<Rightarrow> vm_state \<Rightarrow> vm_state res" where
  "copy_pt pd pde_dir_beg is_user k s =
     rbind (vload (pd + 8 * of_nat k) s) (\<lambda>v.
     if v \<noteq> 0 then
       let (s, pte_dir) = vmmgr_alloc_page 0 s in
       rbind (vclear pte_dir 1 s) (\<lambda>s.
       let pte_dir_phy = pte_dir - VIRT_BASE in
       if pte_dir = 0 then Inl Halt
       else
         rbind (vupdate (pde_dir_beg + 8 * of_nat k) (\<lambda>e. set_pde_entry e pte_dir_phy is_user) s) (\<lambda>s.
         rbind (vload (pd + 8 * of_nat k) s) (\<lambda>v.
         rbind (vcopy pte_dir (table_ptr v) 512 s) (\<lambda>s.
         rbind (vload (pd + 8 * of_nat k) s) (\<lambda>v. share_pages pte_dir (table_ptr v) s)))))
     else Inr s)"

partial_function (option) entries_loop ::
  "(u16 \<Rightarrow> vm_state \<Rightarrow> vm_state res) \<Rightarrow> u64 \<Rightarrow> u16 \<Rightarrow> vm_state \<Rightarrow> vm_state res option" where
  "entries_loop body base i s =
     (case vload (base + 8 * ucast i) s of
        Inl e \<Rightarrow> Some (Inl e)
      | Inr v \<Rightarrow>
          if v \<noteq> 0 then
            case body i s of Inl e \<Rightarrow> Some (Inl e) | Inr s \<Rightarrow> entries_loop body base (i + 1) s
          else Some (Inr s))"

definition for_entries :: "(u16 \<Rightarrow> vm_state \<Rightarrow> vm_state res) \<Rightarrow> u64 \<Rightarrow> vm_state \<Rightarrow> vm_state res" where
  "for_entries body base s = (case entries_loop body base 0 s of None \<Rightarrow> Inl Halt | Some r \<Rightarrow> r)"

definition copy_pd :: "u64 \<Rightarrow> u64 \<Rightarrow> bool \<Rightarrow> u16 \<Rightarrow> vm_state \<Rightarrow> vm_state res" where
  "copy_pd ppdpe pdpe_dir_beg is_user j s =
     (let (s, pde_dir) = vmmgr_alloc_page 0 s in
      rbind (vclear pde_dir 512 s) (\<lambda>s.
      let pde_dir_phy = pde_dir - VIRT_BASE in
      if pde_dir = 0 then Inl Halt
      else
        rbind (vupdate (pdpe_dir_beg + 8 * ucast j) (\<lambda>e. set_pdpe_entry e pde_dir_phy is_user) s) (\<lambda>s.
        rbind (vload (ppdpe + 8 * ucast j) s) (\<lambda>v.
        rfold (copy_pt (table_ptr v) pde_dir is_user) [0..<512] s))))"

definition copy_pdp :: "u64 \<Rightarrow> u64 \<Rightarrow> bool \<Rightarrow> u16 \<Rightarrow> vm_state \<Rightarrow> vm_state res" where
  "copy_pdp ppml4 cpml4 is_user i s =
     (let (s, pdpe_dir) = vmmgr_alloc_page 0 s in
      rbind (vclear pdpe_dir 512 s) (\<lambda>s.
      let pdpe_dir_phy = pdpe_dir - VIRT_BASE in
      if pdpe_dir = 0 then Inl Halt
      else
        rbind (vupdate (cpml4 + 8 * ucast i) (\<lambda>e. set_pml4_entry e pdpe_dir_phy is_user) s) (\<lambda>s.
        rbind (vload (ppml4 + 8 * ucast i) s) (\<lambda>v.
        for_entries (copy_pd (table_ptr v) pdpe_dir is_user) (table_ptr v) s))))"

definition copy_page_table :: "u64 \<Rightarrow> u64 \<Rightarrow> bool \<Rightarrow> vm_state \<Rightarrow> vm_state res" where
  "copy_page_table parent_pml4 child_pml4 is_user s =
     for_entries (copy_pdp parent_pml4 child_pml4 is_user) parent_pml4 s"

text \<open>\<open>clear_page_tables\<close>, in the same way.\<close>

definition clear_pt :: "u64 \<Rightarrow> nat \<Rightarrow> vm_state \<Rightarrow> vm_state res" where
  "clear_pt pd k s =
     rbind (vload (pd + 8 * of_nat k) s) (\<lambda>v.
     if v \<noteq> 0 then rbind (vclear (table_ptr v) 512 s) (\<lambda>s. vstore (pd + 8 * of_nat k) 0 s)
     else Inr s)"

definition clear_pd :: "u64 \<Rightarrow> u16 \<Rightarrow> vm_state \<Rightarrow> vm_state res" where
  "clear_pd ppdpe j s =
     rbind (vload (ppdpe + 8 * ucast j) s) (\<lambda>v.
     rbind (vstore (ppdpe + 8 * ucast j) 0 s) (\<lambda>s.
     rfold (clear_pt (table_ptr v)) [0..<512] s))"

definition clear_pdp :: "u64 \<Rightarrow> u16 \<Rightarrow> vm_state \<Rightarrow> vm_state res" where
  "clear_pdp ppml4 i s =
     rbind (vload (ppml4 + 8 * ucast i) s) (\<lambda>v.
     rbind (vstore (ppml4 + 8 * ucast i) 0 s) (\<lambda>s.
     for_entries (clear_pd (table_ptr v)) (table_ptr v) s))"

definition clear_page_tables :: "u64 \<Rightarrow> vm_state \<Rightarrow> vm_state res" where
  "clear_page_tables parent_pml4 s = for_entries (clear_pdp parent_pml4) parent_pml4 s"

section \<open>Tables seen through the map of physical memory\<close>

text \<open>The entries that the walk for a list of indices reads.\<close>

fun reads :: "(u64 \<Rightarrow> u64) \<Rightarrow> u64 \<Rightarrow> u64 list \<Rightarrow> u64 list" where
  "reads m T [] = []"
| "reads m T [i] = [ent T i]"
| "reads m T (i # j # js) =
     ent T i # (if points (m (ent T i)) then reads m (PAGE_PHYSICAL_ADDRESS (m (ent T i))) (j # js) else [])"

lemma locate_reads:
  "(\<forall>x\<in>set (reads m T js). m' x = m x) \<Longrightarrow>
     locate m' T js = locate m T js \<and> reads m' T js = reads m T js \<and>
     (\<forall>A a. locate m T js = Some (A, a) \<longrightarrow> m' (ent A a) = m (ent A a))"
  by (induction T js rule: locate_induct [where m = m]) auto

lemma walk_reads:
  assumes "\<forall>x\<in>set (reads m B (indices v)). m' x = m x"
  shows "walk m' B v = walk m B v" and "reads m' B (indices v) = reads m B (indices v)"
  using locate_reads [OF assms] by (auto simp: walk_def split: option.split)

definition frame_of :: "u64 \<Rightarrow> u64 set" where
  "frame_of P = {ent P i | i. unat i < 512}"

text \<open>
  The virtual address \<open>a\<close> is a window on the table in frame \<open>P\<close> whose translation does not depend on
  the addresses \<open>X\<close>.
\<close>

definition window :: "u64 set \<Rightarrow> (u64 \<Rightarrow> u64) \<Rightarrow> u64 \<Rightarrow> u64 \<Rightarrow> u64 \<Rightarrow> bool" where
  "window X m B a P \<longleftrightarrow>
     (\<forall>k<512. walk m B (a + 8 * of_nat k) = Some (ent P (of_nat k)) \<and>
        set (reads m B (indices (a + 8 * of_nat k))) \<inter> X = {})"

definition agree :: "u64 set \<Rightarrow> (u64 \<Rightarrow> u64) \<Rightarrow> (u64 \<Rightarrow> u64) \<Rightarrow> bool" where
  "agree X m m' \<longleftrightarrow> (\<forall>x. x \<notin> X \<longrightarrow> m' x = m x)"

lemma window_agree:
  assumes "window X m B a P" and "agree X m m'"
  shows "window X m' B a P"
  unfolding window_def
proof (intro allI impI)
  fix k :: nat assume k: "k < 512"
  have "\<forall>x\<in>set (reads m B (indices (a + 8 * of_nat k))). m' x = m x"
    using assms k unfolding window_def agree_def by blast
  from walk_reads [OF this] show "walk m' B (a + 8 * of_nat k) = Some (ent P (of_nat k)) \<and>
        set (reads m' B (indices (a + 8 * of_nat k))) \<inter> X = {}"
    using assms(1) k unfolding window_def by simp
qed

lemma agree_refl [simp]: "agree X m m"
  by (simp add: agree_def)

lemma agree_trans: "agree X m m' \<Longrightarrow> agree X m' m'' \<Longrightarrow> agree X m m''"
  by (simp add: agree_def)

lemma ent_of_nat_frame: "k < 512 \<Longrightarrow> ent P (of_nat k) \<in> frame_of P"
  unfolding frame_of_def using unat_block [of k] by fastforce

lemma agree_entry: "frame_of P \<subseteq> X \<Longrightarrow> k < 512 \<Longrightarrow> agree X m (m(ent P (of_nat k) := v))"
  using ent_of_nat_frame [of k P] by (auto simp: agree_def)

lemma vload_window:
  "window X m (cr3 s) a P \<Longrightarrow> k < 512 \<Longrightarrow> vload (a + 8 * of_nat k) (s\<lparr>phys_mem := m\<rparr>) = Inr (m (ent P (of_nat k)))"
  by (simp add: window_def vload_def)

lemma vstore_window:
  "window X m (cr3 s) a P \<Longrightarrow> k < 512 \<Longrightarrow>
     vstore (a + 8 * of_nat k) v (s\<lparr>phys_mem := m\<rparr>) = Inr (s\<lparr>phys_mem := m(ent P (of_nat k) := v)\<rparr>)"
  by (simp add: window_def vstore_def)

lemma vupdate_window:
  "window X m (cr3 s) a P \<Longrightarrow> k < 512 \<Longrightarrow> vupdate (a + 8 * of_nat k) f (s\<lparr>phys_mem := m\<rparr>) =
     Inr (s\<lparr>phys_mem := m(ent P (of_nat k) := f (m (ent P (of_nat k))))\<rparr>)"
  by (simp add: vupdate_def vload_window vstore_window)

text \<open>A loop over the entries of tables, as a fold over memory.\<close>

lemma rfold_memory:
  assumes step: "\<And>k m'. k < n \<Longrightarrow> agree X m m' \<Longrightarrow>
      f k (s\<lparr>phys_mem := m'\<rparr>) = Inr (s\<lparr>phys_mem := g k m'\<rparr>) \<and> agree X m' (g k m')"
  shows "rfold f [0..<n] (s\<lparr>phys_mem := m\<rparr>) = Inr (s\<lparr>phys_mem := fold g [0..<n] m\<rparr>) \<and>
    agree X m (fold g [0..<n] m)"
  using step
proof (induction n)
  case (Suc n)
  then have "rfold f [0..<n] (s\<lparr>phys_mem := m\<rparr>) = Inr (s\<lparr>phys_mem := fold g [0..<n] m\<rparr>)"
    and a: "agree X m (fold g [0..<n] m)" by auto
  with Suc.prems [OF _ a, of n] show ?case by (auto simp: rfold_append intro: agree_trans)
qed simp

lemma clear_qwords_ents: "clear_qwords P n m = fold (\<lambda>k m. m(ent P (of_nat k) := 0)) [0..<n] m"
  by (simp add: clear_qwords_def ent_def)

lemma vclear_window:
  assumes "window X m (cr3 s) a P" and "n \<le> 512" and "frame_of P \<subseteq> X"
  shows "vclear a n (s\<lparr>phys_mem := m\<rparr>) = Inr (s\<lparr>phys_mem := clear_qwords P n m\<rparr>) \<and> agree X m (clear_qwords P n m)"
  unfolding vclear_def clear_qwords_ents
  using assms by (intro rfold_memory) (auto intro!: agree_entry simp: vstore_window [OF window_agree])

definition copy_entry :: "u64 \<Rightarrow> u64 \<Rightarrow> nat \<Rightarrow> (u64 \<Rightarrow> u64) \<Rightarrow> (u64 \<Rightarrow> u64)" where
  "copy_entry D P k m = m(ent D (of_nat k) := m (ent P (of_nat k)))"

lemma vcopy_window:
  assumes "window X m (cr3 s) dst D" and "window X m (cr3 s) src P" and "n \<le> 512" and "frame_of D \<subseteq> X"
  shows "vcopy dst src n (s\<lparr>phys_mem := m\<rparr>) = Inr (s\<lparr>phys_mem := fold (copy_entry D P) [0..<n] m\<rparr>) \<and>
    agree X m (fold (copy_entry D P) [0..<n] m)"
  unfolding vcopy_def
  using assms by (intro rfold_memory)
    (auto intro!: agree_entry simp: copy_entry_def vload_window [OF window_agree] vstore_window [OF window_agree])

section \<open>Sharing a page table\<close>

text \<open>The entry that \<open>copy_page_table\<close> leaves in both tables.\<close>

definition cow :: "u64 \<Rightarrow> u64" where
  "cow e = pt_entry_add_attrib (pt_entry_del_attrib e PTE_WRITABLE) PTE_COW"

definition share_entry :: "u64 \<Rightarrow> u64 \<Rightarrow> nat \<Rightarrow> (u64 \<Rightarrow> u64) \<Rightarrow> (u64 \<Rightarrow> u64)" where
  "share_entry D P l m = m(ent D (of_nat l) := cow (m (ent D (of_nat l))), ent P (of_nat l) := cow (m (ent P (of_nat l))))"

lemma ent_of_nat_eq:
  assumes "frame_addr U" and "frame_addr P" and "unat j < 512" and "k < 512"
  shows "ent U j = ent P (of_nat k) \<longleftrightarrow> U = P \<and> unat j = k"
proof -
  have k: "unat (of_nat k :: u64) = k" using assms(4) by (intro unat_block) simp
  have "j = of_nat k \<longleftrightarrow> unat j = k" by (metis k of_nat_unat ucast_id)
  then show ?thesis using ent_eq_iff [OF assms(1-3), of "of_nat k"] k assms(4) by simp
qed

lemma share_pages_window:
  assumes w: "window X m (cr3 s) a D" "window X m (cr3 s) b P" and X: "frame_of D \<subseteq> X" "frame_of P \<subseteq> X"
    and f: "frame_addr D" "frame_addr P" "D \<noteq> P"
  shows "share_pages a b (s\<lparr>phys_mem := m\<rparr>) = Inr (s\<lparr>phys_mem := fold (share_entry D P) [0..<512] m\<rparr>)"
proof -
  let ?d = "\<lambda>l. ent D (of_nat l)" and ?p = "\<lambda>l. ent P (of_nat l)"
  have "rbind (vupdate (a + 8 * of_nat l) (\<lambda>v. pt_entry_del_attrib v PTE_WRITABLE) (s\<lparr>phys_mem := m'\<rparr>)) (\<lambda>s.
       rbind (vupdate (b + 8 * of_nat l) (\<lambda>v. pt_entry_del_attrib v PTE_WRITABLE) s) (\<lambda>s.
       rbind (vupdate (b + 8 * of_nat l) (\<lambda>v. pt_entry_add_attrib v PTE_COW) s) (\<lambda>s.
       vupdate (a + 8 * of_nat l) (\<lambda>v. pt_entry_add_attrib v PTE_COW) s))) =
      Inr (s\<lparr>phys_mem := share_entry D P l m'\<rparr>) \<and> agree X m' (share_entry D P l m')"
    if l: "l < 512" and m': "agree X m m'" for l m'
  proof -
    define m1 where "m1 = m'(?d l := pt_entry_del_attrib (m' (?d l)) PTE_WRITABLE)"
    define m2 where "m2 = m1(?p l := pt_entry_del_attrib (m1 (?p l)) PTE_WRITABLE)"
    define m3 where "m3 = m2(?p l := pt_entry_add_attrib (m2 (?p l)) PTE_COW)"
    define m4 where "m4 = m3(?d l := pt_entry_add_attrib (m3 (?d l)) PTE_COW)"
    have ag: "agree X m' m1" "agree X m1 m2" "agree X m2 m3" "agree X m3 m4"
      unfolding m1_def m2_def m3_def m4_def by (rule agree_entry [OF X(1) l] agree_entry [OF X(2) l])+
    have up: "agree X m m1" "agree X m m2" "agree X m m3" using m' ag agree_trans by blast+
    have "?d l \<noteq> ?p l" using ent_of_nat_eq [OF f(1,2) _ l, of "of_nat l"] f(3) l by (simp add: unat_block)
    then have "m4 = share_entry D P l m'"
      by (auto simp: m4_def m3_def m2_def m1_def share_entry_def cow_def fun_eq_iff)
    moreover have "agree X m' m4" using ag agree_trans by blast
    ultimately show ?thesis
      using vupdate_window [OF window_agree [OF w(1) m'] l] vupdate_window [OF window_agree [OF w(2) up(1)] l]
        vupdate_window [OF window_agree [OF w(2) up(2)] l] vupdate_window [OF window_agree [OF w(1) up(3)] l]
      by (simp add: m1_def [symmetric] m2_def [symmetric] m3_def [symmetric] m4_def [symmetric])
  qed
  then show ?thesis unfolding share_pages_def by (intro rfold_memory [THEN conjunct1]) auto
qed

lemma share_entry_apply:
  "share_entry D P l m x = (if x = ent D (of_nat l) \<or> x = ent P (of_nat l) then cow (m x) else m x)"
  by (simp add: share_entry_def)

lemma share_fold:
  assumes f: "frame_addr D" "frame_addr P" and U: "frame_addr U" "unat j < 512" and n: "n \<le> 512"
  shows "fold (share_entry D P) [0..<n] m (ent U j) =
    (if (U = D \<or> U = P) \<and> unat j < n then cow (m (ent U j)) else m (ent U j))"
  using n
proof (induction n)
  case (Suc n)
  then have n: "n < 512" by simp
  have "fold (share_entry D P) [0..<Suc n] m (ent U j) =
      (if (U = D \<or> U = P) \<and> unat j = n then cow (fold (share_entry D P) [0..<n] m (ent U j))
       else fold (share_entry D P) [0..<n] m (ent U j))"
    using ent_of_nat_eq [OF U(1) f(1) U(2) n] ent_of_nat_eq [OF U(1) f(2) U(2) n] by (auto simp: share_entry_apply)
  then show ?case using Suc.IH n by (simp add: less_Suc_eq)
qed simp

lemma copy_fold:
  assumes f: "frame_addr D" "frame_addr P" "D \<noteq> P" and n: "n \<le> 512"
  shows "frame_addr U \<Longrightarrow> unat j < 512 \<Longrightarrow>
    fold (copy_entry D P) [0..<n] m (ent U j) = (if U = D \<and> unat j < n then m (ent P j) else m (ent U j))"
  using n
proof (induction n arbitrary: U j)
  case (Suc n)
  let ?F = "fold (copy_entry D P) [0..<n] m"
  have n: "n < 512" and un: "unat (of_nat n :: u64) = n" using Suc.prems(3) by (auto intro: unat_block)
  have j: "unat j = n \<Longrightarrow> of_nat n = j" using un by (metis word_unat_eq_iff)
  have "?F (ent P (of_nat n)) = m (ent P (of_nat n))" using Suc.IH [OF f(2), of "of_nat n"] n un f(3) by simp
  then have "fold (copy_entry D P) [0..<Suc n] m (ent U j) =
      (if U = D \<and> unat j = n then m (ent P (of_nat n)) else ?F (ent U j))"
    using ent_of_nat_eq [OF Suc.prems(1) f(1) Suc.prems(2) n] by (simp add: copy_entry_def)
  moreover have "?F (ent U j) = (if U = D \<and> unat j < n then m (ent P j) else m (ent U j))"
    using Suc.IH [OF Suc.prems(1,2)] n by simp
  ultimately show ?case using j by (cases "unat j = n") (auto simp: less_Suc_eq)
qed simp

lemma cow_entry:
  "PAGE_PHYSICAL_ADDRESS (cow e) = PAGE_PHYSICAL_ADDRESS e" "present (cow e) = present e"
  "cow e AND PTE_WRITABLE = 0" "cow e AND PTE_COW \<noteq> 0"
proof -
  have w: "bit PTE_WRITABLE n \<longleftrightarrow> n = 1" for n by (simp add: PTE_WRITABLE_def bit_low_flag)
  have b: "bit (cow e) n \<longleftrightarrow> (bit e n \<and> n \<noteq> 1) \<or> n = 62" for n
    using bit_imp_le_length [of e n]
    by (auto simp: cow_def pt_entry_add_attrib_def pt_entry_del_attrib_def bit_and_iff bit_or_iff bit_not_iff w COW_bit)
  show "PAGE_PHYSICAL_ADDRESS (cow e) = PAGE_PHYSICAL_ADDRESS e" by (rule bit_word_eqI) (auto simp: bit_PHYS b)
  show "present (cow e) = present e" by (simp add: present_def b)
  show "cow e AND PTE_WRITABLE = 0" by (rule bit_word_eqI) (auto simp: bit_and_iff b w)
  have "bit (cow e AND PTE_COW) 62" by (simp add: bit_and_iff b COW_bit)
  then show "cow e AND PTE_COW \<noteq> 0" by (metis bit_0_eq bot_apply bot_bool_def)
qed

text \<open>The tables after the copy of a page table, and how \<open>copy_pt\<close> gets there.\<close>

definition copied :: "u64 \<Rightarrow> u64 \<Rightarrow> u64 \<Rightarrow> nat \<Rightarrow> bool \<Rightarrow> (u64 \<Rightarrow> u64) \<Rightarrow> (u64 \<Rightarrow> u64)" where
  "copied D P E k is_user m =
     (let m = clear_qwords D 1 m;
          m = m(ent E (of_nat k) := set_pde_entry (m (ent E (of_nat k))) D is_user);
          m = fold (copy_entry D P) [0..<512] m
      in fold (share_entry D P) [0..<512] m)"

lemma copy_pt_run:
  assumes k: "k < 512" and v: "v = phys_mem s (ent PD (of_nat k))" "v \<noteq> 0"
    and d: "d = next_page s 0" "d \<noteq> 0" and D: "D = d - VIRT_BASE"
    and X: "X = frame_of D \<union> frame_of P \<union> frame_of E"
    and w: "window X (phys_mem s) (cr3 s) pd PD" "window X (phys_mem s) (cr3 s) (table_ptr v) P"
      "window X (phys_mem s) (cr3 s) d D" "window X (phys_mem s) (cr3 s) pde_dir E"
    and f: "\<forall>T\<in>{D, P, E, PD}. frame_addr T" "distinct [D, P, E, PD]"
  shows "copy_pt pd pde_dir is_user k s =
    Inr (s\<lparr>bump_addr := d, prev_no_pages := 0, phys_mem := copied D P E k is_user (phys_mem s)\<rparr>)"
proof -
  let ?m = "phys_mem s" and ?k = "of_nat k :: u64"
  define s1 where "s1 = s\<lparr>bump_addr := d, prev_no_pages := 0\<rparr>"
  have s1: "vmmgr_alloc_page 0 s = (s1\<lparr>phys_mem := ?m\<rparr>, d)" "cr3 s1 = cr3 s"
    by (simp_all add: s1_def vmmgr_alloc_page_def d(1) next_page_def Let_def)
  have uk: "unat ?k < 512" using k by (simp add: unat_block)
  have sub: "frame_of D \<subseteq> X" "frame_of P \<subseteq> X" "frame_of E \<subseteq> X" by (auto simp: X)
  define m1 where "m1 = clear_qwords D 1 ?m"
  define m2 where "m2 = m1(ent E ?k := set_pde_entry (m1 (ent E ?k)) D is_user)"
  define m3 where "m3 = fold (copy_entry D P) [0..<512] m2"
  have c: "vclear d 1 (s1\<lparr>phys_mem := ?m\<rparr>) = Inr (s1\<lparr>phys_mem := m1\<rparr>)" and a1: "agree X ?m m1"
    using vclear_window [of X ?m s1 d D 1] w(3) sub s1(2) by (simp_all add: m1_def)
  have a2: "agree X ?m m2" unfolding m2_def by (rule agree_trans [OF a1 agree_entry [OF sub(3) k]])
  note w0 = w [folded s1(2)] and w1 = w [THEN window_agree, OF a1, folded s1(2)]
    and w2 = w [THEN window_agree, OF a2, folded s1(2)]
  have cp: "vcopy d (table_ptr v) 512 (s1\<lparr>phys_mem := m2\<rparr>) = Inr (s1\<lparr>phys_mem := m3\<rparr>)" and "agree X m2 m3"
    using vcopy_window [OF w2(3,2) order_refl sub(1)] by (simp_all add: m3_def)
  then have a3: "agree X ?m m3" using a2 agree_trans by blast
  note w3 = w [THEN window_agree, OF a3, folded s1(2)]
  have fs: "frame_addr D" "frame_addr P" "D \<noteq> P" using f by auto
  note sh = share_pages_window [OF w3(3,2) sub(1,2) fs]
  have "ent PD ?k \<notin> X" using f uk ent_eq_iff [of PD] unfolding X frame_of_def by fastforce
  then have out: "m' (ent PD ?k) = v" if "agree X ?m m'" for m' using that v by (simp add: agree_def)
  have fin: "copied D P E k is_user ?m = fold (share_entry D P) [0..<512] m3"
    by (simp add: copied_def Let_def m3_def m2_def m1_def)
  have ld: "vload (pd + 8 * of_nat k) s = Inr v" using w(1) k v by (simp add: window_def vload_def)
  show ?thesis
    using vupdate_window [OF w1(4) k, of "\<lambda>e. set_pde_entry e D is_user"] vload_window [OF w2(1) k] vload_window [OF w3(1) k]
      out [OF a2] out [OF a3] ld v(2) d(2) c cp sh
    by (simp add: copy_pt_def s1(1) D [symmetric] m2_def [symmetric] fin s1_def [symmetric] Let_def)
qed

section \<open>Properties\<close>

text \<open>
  C9. Copying a page table for a child: when the tables involved can be reached through addresses
  whose translation does not use them, the child's directory gets an entry for a new table, and parent
  and child then have the same entries: the frames of before, present as before, not writable and marked
  copy-on-write. Nothing else in any table changes.
\<close>

theorem copy_pt_shares:
  assumes k: "k < 512" and v: "v = phys_mem s (ent PD (of_nat k))" "v \<noteq> 0" and P: "P = PAGE_PHYSICAL_ADDRESS v"
    and d: "d = next_page s 0" "d \<noteq> 0" and D: "D = d - VIRT_BASE"
    and X: "X = frame_of D \<union> frame_of P \<union> frame_of E"
    and w: "window X (phys_mem s) (cr3 s) pd PD" "window X (phys_mem s) (cr3 s) (table_ptr v) P"
      "window X (phys_mem s) (cr3 s) d D" "window X (phys_mem s) (cr3 s) pde_dir E"
    and f: "\<forall>T\<in>{D, P, E, PD}. frame_addr T" "distinct [D, P, E, PD]"
  shows "\<exists>s'. copy_pt pd pde_dir is_user k s = Inr s' \<and>
    phys_mem s' (ent E (of_nat k)) = set_pde_entry (phys_mem s (ent E (of_nat k))) D is_user \<and>
    (\<forall>l. unat l < 512 \<longrightarrow> phys_mem s' (ent D l) = phys_mem s' (ent P l) \<and>
       PAGE_PHYSICAL_ADDRESS (phys_mem s' (ent P l)) = PAGE_PHYSICAL_ADDRESS (phys_mem s (ent P l)) \<and>
       present (phys_mem s' (ent P l)) = present (phys_mem s (ent P l)) \<and>
       phys_mem s' (ent P l) AND PTE_WRITABLE = 0 \<and> phys_mem s' (ent P l) AND PTE_COW \<noteq> 0) \<and>
    (\<forall>U l. frame_addr U \<and> unat l < 512 \<and> U \<notin> {D, P} \<and> \<not> (U = E \<and> l = of_nat k) \<longrightarrow>
       phys_mem s' (ent U l) = phys_mem s (ent U l))"
proof -
  let ?m = "phys_mem s" and ?k = "of_nat k :: u64"
  have fs: "frame_addr D" "frame_addr P" "frame_addr E" "D \<noteq> P" "E \<noteq> D" "E \<noteq> P" using f by auto
  have uk: "unat ?k < 512" using k by (simp add: unat_block)
  let ?s = "s\<lparr>bump_addr := d, prev_no_pages := 0, phys_mem := copied D P E k is_user ?m\<rparr>"
  have val: "copied D P E k is_user ?m (ent U l) =
      (if U \<in> {D, P} then cow (?m (ent P l))
       else if U = E \<and> l = ?k then set_pde_entry (?m (ent E ?k)) D is_user else ?m (ent U l))"
    if "frame_addr U" "unat l < 512" for U l
    using that fs uk
    by (auto simp: copied_def Let_def share_fold copy_fold clear_qwords_ent ent_eq_iff)
  have "copy_pt pd pde_dir is_user k s = Inr ?s"
    using copy_pt_run [OF k v d D X w f] .
  then show ?thesis
    using val [OF fs(3) uk] val [OF fs(1)] val [OF fs(2)] val fs cow_entry by (intro exI [of _ ?s]) auto
qed

text \<open>A parent whose directory at \<open>0x8000\<close> has a page table at \<open>0x6000\<close> with one page, and a child's directory at \<open>0x7000\<close>.\<close>

definition example_parent :: vm_state where
  "example_parent = example_paged\<lparr>phys_mem := example_mem(0x4040 := 0x8003, 0x8018 := 0x6007, 0x6010 := 0x9007)\<rparr>"

lemma example_window:
  assumes "d \<in> {0x5000, 0x6000, 0x7000, 0x8000}"
  shows "window (frame_of 0x5000 \<union> frame_of 0x6000 \<union> frame_of 0x7000) (phys_mem example_parent) 0x1000 (VIRT_BASE + d) d"
  unfolding window_def
proof (intro allI impI)
  fix k :: nat assume k: "k < 512"
  let ?m = "phys_mem example_parent" and ?v = "VIRT_BASE + d + 8 * of_nat k"
  have i: "indices ?v = [511, 510, 0, PAGE_TABLE_OFFSET d]" "?v AND 0xFFF = 8 * of_nat k"
    using low_page_indices [of d "of_nat k"] assms k by (auto simp: unat_block)
  have r: "reads ?m 0x1000 (indices ?v) = [ent 0x1000 511, ent 0x2000 510, ent 0x3000 0, ent 0x4000 (PAGE_TABLE_OFFSET d)]"
    and l: "locate ?m 0x1000 (indices ?v) = Some (0x4000, PAGE_TABLE_OFFSET d)"
    unfolding i using example_points by (simp_all add: example_parent_def example_mem_eq ent_def PAGE_PHYSICAL_ADDRESS_def)
  have "?m (ent 0x4000 (PAGE_TABLE_OFFSET d)) = d OR 3 \<and> PAGE_PHYSICAL_ADDRESS (d OR 3) = d \<and> present (d OR 3)"
    using assms by (elim insertE) (simp_all add: example_parent_def example_mem_eq ent_def PAGE_TABLE_OFFSET_def
        PAGE_PHYSICAL_ADDRESS_def present_def bit_iff_odd)
  then have "walk ?m 0x1000 ?v = Some (ent d (of_nat k))" using l i(2) by (simp add: walk_def ent_def)
  moreover have "set (reads ?m 0x1000 (indices ?v)) \<inter> (frame_of 0x5000 \<union> frame_of 0x6000 \<union> frame_of 0x7000) = {}"
    unfolding r frame_of_def using example_frames offset_less(1) [of d] by (auto simp: ent_eq_iff)
  ultimately show "walk ?m 0x1000 ?v = Some (ent d (of_nat k)) \<and>
    set (reads ?m 0x1000 (indices ?v)) \<inter> (frame_of 0x5000 \<union> frame_of 0x6000 \<union> frame_of 0x7000) = {}" by blast
qed

theorem copy_pt_shares_witness:
  "\<exists>s'. copy_pt (VIRT_BASE + 0x8000) (VIRT_BASE + 0x7000) True 3 example_parent = Inr s' \<and>
     phys_mem s' (ent 0x7000 3) = 0x5007 \<and> PAGE_PHYSICAL_ADDRESS (phys_mem s' (ent 0x5000 2)) = 0x9000 \<and>
     phys_mem s' (ent 0x5000 2) AND PTE_WRITABLE = 0 \<and> phys_mem s' (ent 0x6000 2) AND PTE_COW \<noteq> 0"
proof -
  let ?s = example_parent
  have v: "0x6007 = phys_mem ?s (ent 0x8000 (of_nat 3))" "0x6000 = PAGE_PHYSICAL_ADDRESS 0x6007"
    "table_ptr 0x6007 = VIRT_BASE + 0x6000" "VIRT_BASE + 0x5000 = next_page ?s 0" "cr3 ?s = 0x1000"
    "phys_mem ?s (ent 0x6000 2) = 0x9007" "phys_mem ?s (ent 0x7000 3) = 0"
    by (simp_all add: example_parent_def example_paged_def example_vm_def example_mem_eq ent_def next_page_def
        PAGE_PHYSICAL_ADDRESS_def table_ptr_def)
  have f: "\<forall>T\<in>{0x5000, 0x6000, 0x7000, 0x8000}. frame_addr T"
    using example_frames by (simp add: frame_addr_def)
  have "\<exists>s'. copy_pt (VIRT_BASE + 0x8000) (VIRT_BASE + 0x7000) True 3 ?s = Inr s' \<and>
      phys_mem s' (ent 0x7000 (of_nat 3)) = set_pde_entry (phys_mem ?s (ent 0x7000 (of_nat 3))) 0x5000 True \<and>
      (\<forall>l. unat l < 512 \<longrightarrow> phys_mem s' (ent 0x5000 l) = phys_mem s' (ent 0x6000 l) \<and>
       PAGE_PHYSICAL_ADDRESS (phys_mem s' (ent 0x6000 l)) = PAGE_PHYSICAL_ADDRESS (phys_mem ?s (ent 0x6000 l)) \<and>
       present (phys_mem s' (ent 0x6000 l)) = present (phys_mem ?s (ent 0x6000 l)) \<and>
       phys_mem s' (ent 0x6000 l) AND PTE_WRITABLE = 0 \<and> phys_mem s' (ent 0x6000 l) AND PTE_COW \<noteq> 0) \<and>
      (\<forall>U l. frame_addr U \<and> unat l < 512 \<and> U \<notin> {0x5000, 0x6000} \<and> \<not> (U = 0x7000 \<and> l = of_nat 3) \<longrightarrow>
       phys_mem s' (ent U l) = phys_mem ?s (ent U l))"
    by (rule copy_pt_shares [where PD = "0x8000" and v = "0x6007" and d = "VIRT_BASE + 0x5000"])
       (use v(1-5) f example_window [of "0x5000"] example_window [of "0x6000"] example_window [of "0x7000"]
         example_window [of "0x8000"] in \<open>simp_all add: VIRT_BASE_def\<close>)
  then obtain s' where s': "copy_pt (VIRT_BASE + 0x8000) (VIRT_BASE + 0x7000) True 3 ?s = Inr s'"
      "phys_mem s' (ent 0x7000 3) = set_pde_entry 0 0x5000 True"
      "phys_mem s' (ent 0x5000 2) = phys_mem s' (ent 0x6000 2)"
      "PAGE_PHYSICAL_ADDRESS (phys_mem s' (ent 0x6000 2)) = PAGE_PHYSICAL_ADDRESS 0x9007"
      "phys_mem s' (ent 0x6000 2) AND PTE_WRITABLE = 0" "phys_mem s' (ent 0x6000 2) AND PTE_COW \<noteq> 0"
    using v(6,7) by (auto dest: spec [of _ "2 :: u64"])
  moreover have "set_pde_entry 0 0x5000 True = 0x5007" by (simp add: set_entry_fill fill_def)
  ultimately show ?thesis by (auto simp: PAGE_PHYSICAL_ADDRESS_def)
qed

end
