(* ===== verification/Queue_Links.thy ===== *)
theory Queue_Links
  imports Prelude
begin

text \<open>
  Doubly linked queues with a head and a tail pointer, ended by NULL on both sides: the form of the
  run queue and of the list of all threads in \<open>sys/kthread.c\<close>. The locale states what the
  operations on such a queue do to the links; from it follows what they do to the sequence of the
  queue's members.
\<close>

section \<open>Segments of links\<close>

text \<open>
  Under the forward links \<open>n\<close> and the backward links \<open>p\<close>, the nodes \<open>xs\<close> lie between the neighbours
  \<open>a\<close> and \<open>b\<close>.
\<close>

fun dseg :: "(u64 \<Rightarrow> u64) \<Rightarrow> (u64 \<Rightarrow> u64) \<Rightarrow> u64 \<Rightarrow> u64 list \<Rightarrow> u64 \<Rightarrow> bool" where
  "dseg n p a [] b \<longleftrightarrow> True"
| "dseg n p a (x # xs) b \<longleftrightarrow> p x = a \<and> n x = hd (xs @ [b]) \<and> dseg n p x xs b"

definition dlq :: "(u64 \<Rightarrow> u64) \<Rightarrow> (u64 \<Rightarrow> u64) \<Rightarrow> u64 \<Rightarrow> u64 \<Rightarrow> u64 list \<Rightarrow> bool" where
  "dlq n p h t xs \<longleftrightarrow>
     0 \<notin> set xs \<and> distinct xs \<and> h = hd (xs @ [0]) \<and> t = last (0 # xs) \<and> dseg n p 0 xs 0"

lemma dseg_append:
  "dseg n p a (xs @ ys) b \<longleftrightarrow> dseg n p a xs (hd (ys @ [b])) \<and> dseg n p (last (a # xs)) ys b"
proof (induction xs arbitrary: a)
  case (Cons x xs)
  then show ?case by (cases xs) auto
qed simp

lemma dseg_cong:
  "(\<And>x. x \<in> set xs \<Longrightarrow> n' x = n x \<and> p' x = p x) \<Longrightarrow> dseg n' p' a xs b = dseg n p a xs b"
  by (induction xs arbitrary: a) auto

text \<open>The last forward link, and the first backward link, can be replaced.\<close>

lemma dseg_new_final:
  assumes "dseg n p a xs b" and "distinct xs" and "\<And>x. x \<in> set xs \<Longrightarrow> p' x = p x"
    and "xs \<noteq> [] \<Longrightarrow> n' (last xs) = c" and "\<And>x. x \<in> set (butlast xs) \<Longrightarrow> n' x = n x"
  shows "dseg n' p' a xs c"
proof (cases xs rule: rev_cases)
  case (snoc ys y)
  have "dseg n' p' a ys y = dseg n p a ys y" using assms snoc by (intro dseg_cong) simp
  then show ?thesis using assms snoc by (simp add: dseg_append)
qed simp

lemma dseg_new_first:
  assumes "dseg n p a xs b" and "\<And>x. x \<in> set xs \<Longrightarrow> n' x = n x"
    and "xs \<noteq> [] \<Longrightarrow> p' (hd xs) = c" and "\<And>x. x \<in> set (tl xs) \<Longrightarrow> p' x = p x"
  shows "dseg n' p' c xs b"
proof (cases xs)
  case (Cons y ys)
  have "dseg n' p' y ys b = dseg n p y ys b" using assms Cons by (intro dseg_cong) simp
  then show ?thesis using assms Cons by simp
qed simp

lemma dlq_empty [simp]: "dlq n p h t [] \<longleftrightarrow> h = 0 \<and> t = 0"
  by (simp add: dlq_def)

lemma dlq_final_0: "dlq n p h t xs \<Longrightarrow> t = 0 \<longleftrightarrow> xs = []"
  by (cases xs rule: rev_cases) (auto simp: dlq_def)

lemma dlq_first_0: "dlq n p h t xs \<Longrightarrow> h = 0 \<longleftrightarrow> xs = []"
  by (cases xs) (auto simp: dlq_def)

lemma dlq_snoc:
  assumes q: "dlq n p h t xs" and x: "x \<noteq> 0" "x \<notin> set xs" and "t \<noteq> 0"
  shows "dlq (n(x := 0, t := x)) (p(x := t)) h x (xs @ [x])"
proof -
  let ?n = "n(x := 0, t := x)" and ?p = "p(x := t)"
  obtain ys where xs: "xs = ys @ [t]"
    using q \<open>t \<noteq> 0\<close> by (cases xs rule: rev_cases) (auto simp: dlq_def)
  have "dseg ?n ?p 0 ys t = dseg n p 0 ys t" using q x by (intro dseg_cong) (auto simp: dlq_def xs)
  then have "dseg ?n ?p 0 (ys @ [t] @ [x]) 0" using q x by (auto simp: dlq_def xs dseg_append)
  then show ?thesis using q x by (auto simp: dlq_def xs hd_append)
qed

lemma dlq_cons:
  assumes q: "dlq n p h t xs" and x: "x \<noteq> 0" "x \<notin> set xs" and "h \<noteq> 0"
  shows "dlq (n(x := h)) (p(x := 0, h := x)) x t (x # xs)"
proof -
  let ?n = "n(x := h)" and ?p = "p(x := 0, h := x)"
  obtain ys where xs: "xs = h # ys" using q \<open>h \<noteq> 0\<close> by (cases xs) (auto simp: dlq_def)
  have "dseg ?n ?p h ys 0 = dseg n p h ys 0" using q x by (intro dseg_cong) (auto simp: dlq_def xs)
  then show ?thesis using q x by (auto simp: dlq_def xs)
qed

text \<open>Taking a member out.\<close>

lemma dlq_remove:
  assumes q: "dlq n p h t (ys @ r # zs)"
    and n': "n' = (if p r \<noteq> 0 then n(p r := n r) else n)" and p': "p' = (if n r \<noteq> 0 then p(n r := p r) else p)"
    and h': "h' = (if p r \<noteq> 0 then h else n r)" and t': "t' = (if n r \<noteq> 0 then t else p r)"
  shows "dlq n' p' h' t' (ys @ zs)"
proof -
  have d: "0 \<notin> set (ys @ r # zs)" "distinct (ys @ r # zs)" "h = hd ((ys @ r # zs) @ [0])"
    "t = last (0 # ys @ r # zs)" "dseg n p 0 ys r" "p r = last (0 # ys)" "n r = hd (zs @ [0])"
    "dseg n p r zs 0" using q by (auto simp: dlq_def dseg_append)
  have pr: "p r \<noteq> 0 \<longleftrightarrow> ys \<noteq> []" using d(1,6) by (cases ys rule: rev_cases) auto
  have nr: "n r \<noteq> 0 \<longleftrightarrow> zs \<noteq> []" using d(1,7) by (cases zs) auto
  have out1: "p r \<notin> set zs" using d(1,2,6) by (cases ys rule: rev_cases) auto
  have out2: "n r \<notin> set ys" using d(1,2,7) by (cases zs) auto
  have "dseg n' p' 0 ys (hd (zs @ [0]))"
  proof (rule dseg_new_final [OF d(5)])
    show "n' x = n x" if "x \<in> set (butlast ys)" for x
      using that d(2,6) n' pr by (cases ys rule: rev_cases) auto
  qed (use d pr out2 n' p' in auto)
  moreover have "dseg n' p' (last (0 # ys)) zs 0"
  proof (rule dseg_new_first [OF d(8)])
    show "p' x = p x" if "x \<in> set (tl zs)" for x
      using that d(2,7) p' nr by (cases zs) auto
  qed (use d nr out1 n' p' in auto)
  moreover have "h' = hd ((ys @ zs) @ [0])" using d(3,7) pr h' by (cases ys) auto
  moreover have "t' = last (0 # ys @ zs)" using d(4,6) nr t' by (cases zs) auto
  ultimately show ?thesis using d(1,2) by (simp add: dlq_def dseg_append)
qed

section \<open>The interface of a queue\<close>

text \<open>
  The effect of the three operations on the links, for any node that is not NULL. The laws say
  nothing about the sequence, nor do they ask that the node is, or is not, in the queue.
\<close>

locale link_queue =
  fixes nxt prv :: "'s \<Rightarrow> u64 \<Rightarrow> u64" and first final :: "'s \<Rightarrow> u64"
    and append insert remove :: "u64 \<Rightarrow> 's \<Rightarrow> 's res"
  assumes append_links: "x \<noteq> 0 \<Longrightarrow> \<exists>s'. append x s = Inr s' \<and>
      (if final s = 0
       then first s' = x \<and> final s' = x \<and> nxt s' = (nxt s)(x := 0) \<and> prv s' = (prv s)(x := 0)
       else first s' = first s \<and> final s' = x \<and> nxt s' = (nxt s)(x := 0, final s := x) \<and>
            prv s' = (prv s)(x := final s))"
    and insert_links: "x \<noteq> 0 \<Longrightarrow> \<exists>s'. insert x s = Inr s' \<and>
      (if first s = 0
       then first s' = x \<and> final s' = x \<and> nxt s' = (nxt s)(x := 0) \<and> prv s' = (prv s)(x := 0)
       else first s' = x \<and> final s' = final s \<and> nxt s' = (nxt s)(x := first s) \<and>
            prv s' = (prv s)(x := 0, first s := x))"
    and remove_links: "x \<noteq> 0 \<Longrightarrow> \<exists>s'. remove x s = Inr s' \<and>
      nxt s' = (if prv s x \<noteq> 0 then (nxt s)(prv s x := nxt s x) else nxt s) \<and>
      prv s' = (if nxt s x \<noteq> 0 then (prv s)(nxt s x := prv s x) else prv s) \<and>
      first s' = (if prv s x \<noteq> 0 then first s else nxt s x) \<and>
      final s' = (if nxt s x \<noteq> 0 then final s else prv s x)"
begin

lemma append_queue:
  assumes q: "dlq (nxt s) (prv s) (first s) (final s) xs" and x: "x \<noteq> 0" "x \<notin> set xs"
  shows "\<exists>s'. append x s = Inr s' \<and> dlq (nxt s') (prv s') (first s') (final s') (xs @ [x])"
proof (cases "final s = 0")
  case True
  then have "xs = []" using dlq_final_0 [OF q] by simp
  then show ?thesis using append_links [OF x(1), of s] True x by (auto simp: dlq_def)
next
  case False
  then show ?thesis using append_links [OF x(1), of s] dlq_snoc [OF q x False] by fastforce
qed

lemma insert_queue:
  assumes q: "dlq (nxt s) (prv s) (first s) (final s) xs" and x: "x \<noteq> 0" "x \<notin> set xs"
  shows "\<exists>s'. insert x s = Inr s' \<and> dlq (nxt s') (prv s') (first s') (final s') (x # xs)"
proof (cases "first s = 0")
  case True
  then have "xs = []" using dlq_first_0 [OF q] by simp
  then show ?thesis using insert_links [OF x(1), of s] True x by (auto simp: dlq_def)
next
  case False
  then show ?thesis using insert_links [OF x(1), of s] dlq_cons [OF q x False] by fastforce
qed

lemma remove_queue:
  assumes q: "dlq (nxt s) (prv s) (first s) (final s) xs" and x: "x \<in> set xs"
  shows "\<exists>s'. remove x s = Inr s' \<and> dlq (nxt s') (prv s') (first s') (final s') (remove1 x xs)"
proof -
  obtain ys zs where xs: "xs = ys @ x # zs" "x \<notin> set ys" using split_list_first [OF x] by blast
  have "x \<noteq> 0" using q x by (auto simp: dlq_def)
  then obtain s' where s': "remove x s = Inr s'"
      "nxt s' = (if prv s x \<noteq> 0 then (nxt s)(prv s x := nxt s x) else nxt s)"
      "prv s' = (if nxt s x \<noteq> 0 then (prv s)(nxt s x := prv s x) else prv s)"
      "first s' = (if prv s x \<noteq> 0 then first s else nxt s x)"
      "final s' = (if nxt s x \<noteq> 0 then final s else prv s x)"
    using remove_links [of x s] by blast
  have "dlq (nxt s') (prv s') (first s') (final s') (ys @ zs)"
    by (rule dlq_remove [OF _ s'(2-5)]) (use q xs in simp)
  then show ?thesis using s'(1) xs by (auto simp: remove1_append)
qed

end

end
