(* ===== verification/Kthread.thy ===== *)
theory Kthread
  imports Kernel_Heap Queue_Links
begin

text \<open>
  Kernel threads and the scheduler, \<open>sys/kthread.c\<close> and \<open>include/sys/kthread.h\<close>. Threads, the cells
  of the queues of children and the words of the thread stacks each live in a memory of their own,
  indexed by address; a dereference of NULL is a fault. \<open>PANIC\<close> and a loop that never ends are
  \<open>Halt\<close>. The addresses of functions (\<open>thread_exit\<close>, \<open>Launch_Thread\<close>, the start functions) and of
  names are numbers.
\<close>

section \<open>State\<close>

definition PRIORITY_NORMAL :: int where
  "PRIORITY_NORMAL = 5"

definition KERN_CS :: u64 where
  "KERN_CS = 0x8"

definition KERN_DS :: u64 where
  "KERN_DS = 0x10"

definition USER_DS :: u64 where
  "USER_DS = 0x23"

definition USER_CS :: u64 where
  "USER_CS = 0x1B"

record Thread_queue =
  q_head :: u64
  q_tail :: u64

record join_Queue =
  child :: u64
  jnext :: u64

record kthread =
  rsp :: u64
  kernel_thread :: u64
  krsp :: u64
  pcr3 :: u64
  thr_cr3 :: u64
  kstack :: u64
  sleeping :: int
  priority :: int
  prev_in_ThreadQ :: u64
  next_in_ThreadQ :: u64
  stackPage :: u64
  brk :: int
  no_stack_pages :: int
  owner :: u64
  parent :: u64
  joinQueue :: Thread_queue
  refCount :: int
  join_head :: join_Queue
  alive :: bool
  thr_name :: u64
  exitCode :: int
  pid :: int
  mmap_first :: u64
  mmap_cache :: u64
  prev_in_ThreadList :: u64
  next_in_ThreadList :: u64

record kernel_state =
  threads :: "u64 \<Rightarrow> kthread"
  joins :: "u64 \<Rightarrow> join_Queue"
  kmem :: "u64 \<Rightarrow> u64"
  kheap :: heap_state
  runQueue :: Thread_queue
  allThreadList :: Thread_queue
  currentThread :: u64
  ptable :: "u64 list"
  nextFreePid :: int
  is_scheduler_on :: bool
  interrupts :: bool
  tss_rsp0 :: u64

definition get_thread :: "u64 \<Rightarrow> kernel_state \<Rightarrow> kthread res" where
  "get_thread p s = (if p = 0 then Inl NullPointer else Inr (threads s p))"

definition upd_thread :: "u64 \<Rightarrow> (kthread \<Rightarrow> kthread) \<Rightarrow> kernel_state \<Rightarrow> kernel_state res" where
  "upd_thread p f s =
     (if p = 0 then Inl NullPointer else Inr (s\<lparr>threads := (threads s)(p := f (threads s p))\<rparr>))"

text \<open>A call of the allocator within the kernel's state.\<close>

definition kmalloc :: "u16 \<Rightarrow> bool \<Rightarrow> kernel_state \<Rightarrow> (kernel_state \<times> u64) res" where
  "kmalloc n align s = rbind (sub_malloc n align (kheap s)) (\<lambda>(h, p). Inr (s\<lparr>kheap := h\<rparr>, p))"

definition kfree :: "u64 \<Rightarrow> kernel_state \<Rightarrow> kernel_state res" where
  "kfree p s = rbind (sub_free p (kheap s)) (\<lambda>h. Inr (s\<lparr>kheap := h\<rparr>))"

definition get_cr3_register :: "kernel_state \<Rightarrow> u64" where
  "get_cr3_register s = cr3 (vm (kheap s))"

definition disable_interrupts :: "kernel_state \<Rightarrow> kernel_state" where
  "disable_interrupts s = s\<lparr>interrupts := False\<rparr>"

definition enable_interrupts :: "kernel_state \<Rightarrow> kernel_state" where
  "enable_interrupts s = s\<lparr>interrupts := True\<rparr>"

section \<open>Process numbers\<close>

definition add_to_ptable :: "u64 \<Rightarrow> kernel_state \<Rightarrow> kernel_state res" where
  "add_to_ptable k s =
     rbind (get_thread k s) (\<lambda>t. rbind (arr_set (ptable s) (pid t) k) (\<lambda>pt. Inr (s\<lparr>ptable := pt\<rparr>)))"

definition alloc_pid :: "kernel_state \<Rightarrow> kernel_state \<times> int" where
  "alloc_pid s = (let s = s\<lparr>nextFreePid := nextFreePid s + 1\<rparr> in (s, nextFreePid s))"

definition free_pid :: "kernel_state \<Rightarrow> kernel_state" where
  "free_pid s = s\<lparr>nextFreePid := nextFreePid s - 1\<rparr>"

section \<open>The run queue and the list of all threads\<close>

text \<open>The queue argument of the source is \<open>runQueue\<close>, or \<open>allThreadList\<close>, in every call.\<close>

definition append_run_queue :: "u64 \<Rightarrow> kernel_state \<Rightarrow> kernel_state res" where
  "append_run_queue node s =
     rbind (upd_thread node (\<lambda>t. t\<lparr>next_in_ThreadQ := 0\<rparr>) s) (\<lambda>s.
     if q_tail (runQueue s) = 0 then
       upd_thread node (\<lambda>t. t\<lparr>prev_in_ThreadQ := 0\<rparr>) (s\<lparr>runQueue := \<lparr>q_head = node, q_tail = node\<rparr>\<rparr>)
     else
       rbind (upd_thread (q_tail (runQueue s)) (\<lambda>t. t\<lparr>next_in_ThreadQ := node\<rparr>) s) (\<lambda>s.
       rbind (upd_thread node (\<lambda>t. t\<lparr>prev_in_ThreadQ := q_tail (runQueue s)\<rparr>) s) (\<lambda>s.
       Inr (s\<lparr>runQueue := (runQueue s)\<lparr>q_tail := node\<rparr>\<rparr>))))"

definition insert_run_queue :: "u64 \<Rightarrow> kernel_state \<Rightarrow> kernel_state res" where
  "insert_run_queue node s =
     rbind (upd_thread node (\<lambda>t. t\<lparr>prev_in_ThreadQ := 0\<rparr>) s) (\<lambda>s.
     if q_head (runQueue s) = 0 then
       upd_thread node (\<lambda>t. t\<lparr>next_in_ThreadQ := 0\<rparr>) (s\<lparr>runQueue := \<lparr>q_head = node, q_tail = node\<rparr>\<rparr>)
     else
       rbind (upd_thread (q_head (runQueue s)) (\<lambda>t. t\<lparr>prev_in_ThreadQ := node\<rparr>) s) (\<lambda>s.
       rbind (upd_thread node (\<lambda>t. t\<lparr>next_in_ThreadQ := q_head (runQueue s)\<rparr>) s) (\<lambda>s.
       Inr (s\<lparr>runQueue := (runQueue s)\<lparr>q_head := node\<rparr>\<rparr>))))"

definition append_global_list_queue :: "u64 \<Rightarrow> kernel_state \<Rightarrow> kernel_state res" where
  "append_global_list_queue node s =
     rbind (upd_thread node (\<lambda>t. t\<lparr>next_in_ThreadList := 0\<rparr>) s) (\<lambda>s.
     if q_tail (allThreadList s) = 0 then
       upd_thread node (\<lambda>t. t\<lparr>prev_in_ThreadList := 0\<rparr>) (s\<lparr>allThreadList := \<lparr>q_head = node, q_tail = node\<rparr>\<rparr>)
     else
       rbind (upd_thread (q_tail (allThreadList s)) (\<lambda>t. t\<lparr>next_in_ThreadList := node\<rparr>) s) (\<lambda>s.
       rbind (upd_thread node (\<lambda>t. t\<lparr>prev_in_ThreadList := q_tail (allThreadList s)\<rparr>) s) (\<lambda>s.
       Inr (s\<lparr>allThreadList := (allThreadList s)\<lparr>q_tail := node\<rparr>\<rparr>))))"

definition insert_global_list_queue :: "u64 \<Rightarrow> kernel_state \<Rightarrow> kernel_state res" where
  "insert_global_list_queue node s =
     rbind (upd_thread node (\<lambda>t. t\<lparr>prev_in_ThreadList := 0\<rparr>) s) (\<lambda>s.
     if q_head (allThreadList s) = 0 then
       upd_thread node (\<lambda>t. t\<lparr>next_in_ThreadList := 0\<rparr>) (s\<lparr>allThreadList := \<lparr>q_head = node, q_tail = node\<rparr>\<rparr>)
     else
       rbind (upd_thread (q_head (allThreadList s)) (\<lambda>t. t\<lparr>prev_in_ThreadList := node\<rparr>) s) (\<lambda>s.
       rbind (upd_thread node (\<lambda>t. t\<lparr>next_in_ThreadList := q_head (allThreadList s)\<rparr>) s) (\<lambda>s.
       Inr (s\<lparr>allThreadList := (allThreadList s)\<lparr>q_head := node\<rparr>\<rparr>))))"

definition remove_alllist_kthread :: "u64 \<Rightarrow> kernel_state \<Rightarrow> kernel_state res" where
  "remove_alllist_kthread r s =
     rbind (get_thread r s) (\<lambda>t.
     rbind (if prev_in_ThreadList t \<noteq> 0
            then upd_thread (prev_in_ThreadList t) (\<lambda>u. u\<lparr>next_in_ThreadList := next_in_ThreadList t\<rparr>) s
            else Inr (s\<lparr>allThreadList := (allThreadList s)\<lparr>q_head := next_in_ThreadList t\<rparr>\<rparr>)) (\<lambda>s.
     rbind (get_thread r s) (\<lambda>t.
     if next_in_ThreadList t \<noteq> 0
     then upd_thread (next_in_ThreadList t) (\<lambda>u. u\<lparr>prev_in_ThreadList := prev_in_ThreadList t\<rparr>) s
     else Inr (s\<lparr>allThreadList := (allThreadList s)\<lparr>q_tail := prev_in_ThreadList t\<rparr>\<rparr>))))"

definition remove_runnable_kthread :: "u64 \<Rightarrow> kernel_state \<Rightarrow> kernel_state res" where
  "remove_runnable_kthread r s =
     rbind (get_thread r s) (\<lambda>t.
     rbind (if prev_in_ThreadQ t \<noteq> 0
            then upd_thread (prev_in_ThreadQ t) (\<lambda>u. u\<lparr>next_in_ThreadQ := next_in_ThreadQ t\<rparr>) s
            else Inr (s\<lparr>runQueue := (runQueue s)\<lparr>q_head := next_in_ThreadQ t\<rparr>\<rparr>)) (\<lambda>s.
     rbind (get_thread r s) (\<lambda>t.
     if next_in_ThreadQ t \<noteq> 0
     then upd_thread (next_in_ThreadQ t) (\<lambda>u. u\<lparr>prev_in_ThreadQ := prev_in_ThreadQ t\<rparr>) s
     else Inr (s\<lparr>runQueue := (runQueue s)\<lparr>q_tail := prev_in_ThreadQ t\<rparr>\<rparr>))))"

definition runnable_kthread :: "u64 \<Rightarrow> kernel_state \<Rightarrow> kernel_state res" where
  "runnable_kthread k = append_run_queue k"

definition alllist_kthread :: "u64 \<Rightarrow> kernel_state \<Rightarrow> kernel_state res" where
  "alllist_kthread k = append_global_list_queue k"

section \<open>The children of a thread\<close>

text \<open>A \<open>joinQ\<close> pointer is the address of the cell within a thread, or of an allocated cell.\<close>

datatype join_ref = InThread u64 | InCell u64

fun join_next :: "kernel_state \<Rightarrow> join_ref \<Rightarrow> u64" where
  "join_next s (InThread t) = jnext (join_head (threads s t))"
| "join_next s (InCell c) = jnext (joins s c)"

fun set_join_next :: "join_ref \<Rightarrow> u64 \<Rightarrow> kernel_state \<Rightarrow> kernel_state" where
  "set_join_next (InThread t) v s =
     s\<lparr>threads := (threads s)(t := threads s t\<lparr>join_head := join_head (threads s t)\<lparr>jnext := v\<rparr>\<rparr>)\<rparr>"
| "set_join_next (InCell c) v s = s\<lparr>joins := (joins s)(c := joins s c\<lparr>jnext := v\<rparr>)\<rparr>"

partial_function (option) join_last :: "kernel_state \<Rightarrow> join_ref \<Rightarrow> join_ref option" where
  "join_last s crawl =
     (if join_next s crawl \<noteq> 0 then join_last s (InCell (join_next s crawl)) else Some crawl)"

definition append_join_queue :: "u64 \<Rightarrow> u64 \<Rightarrow> kernel_state \<Rightarrow> kernel_state res" where
  "append_join_queue node cthread s =
     rbind (kmalloc 16 False s) (\<lambda>(s, temp).
     if temp = 0 \<or> cthread = 0 then Inl NullPointer
     else
       let s = s\<lparr>joins := (joins s)(temp := \<lparr>child = node, jnext = 0\<rparr>)\<rparr> in
       case join_last s (InThread cthread) of
         None \<Rightarrow> Inl Halt
       | Some crawl \<Rightarrow> Inr (set_join_next crawl temp s))"

definition add_to_joinQueue :: "u64 \<Rightarrow> u64 \<Rightarrow> kernel_state \<Rightarrow> kernel_state res" where
  "add_to_joinQueue current k s = append_join_queue k current s"

partial_function (option) join_find :: "kernel_state \<Rightarrow> u64 \<Rightarrow> join_ref \<Rightarrow> join_ref option" where
  "join_find s c crawl =
     (if join_next s crawl \<noteq> 0 then
        if child (joins s (join_next s crawl)) = c then Some crawl
        else join_find s c (InCell (join_next s crawl))
      else Some crawl)"

definition remove_child :: "u64 \<Rightarrow> u64 \<Rightarrow> kernel_state \<Rightarrow> kernel_state res" where
  "remove_child par child_node s =
     (if par = 0 then Inl NullPointer
      else case join_find s child_node (InThread par) of
        None \<Rightarrow> Inl Halt
      | Some crawl \<Rightarrow>
          let tmp = join_next s crawl in
          if tmp = 0 then Inl NullPointer
          else kfree tmp (set_join_next crawl (jnext (joins s tmp)) s))"

definition thread_cleanup :: "u64 \<Rightarrow> kernel_state \<Rightarrow> kernel_state res" where
  "thread_cleanup k s =
     rbind (remove_runnable_kthread k s) (\<lambda>s.
     rbind (remove_alllist_kthread k s) (\<lambda>s.
     rbind (get_thread k s) (\<lambda>t.
     if parent t \<noteq> 0 then remove_child (parent t) k s else Inr s)))"

section \<open>The scheduler\<close>

definition ready :: "kthread \<Rightarrow> bool" where
  "ready t \<longleftrightarrow> sleeping t = 0 \<and> alive t"

partial_function (option) find_ready :: "(u64 \<Rightarrow> kthread) \<Rightarrow> u64 \<Rightarrow> u64 option" where
  "find_ready m crawl =
     (if crawl \<noteq> 0 then
        if sleeping (m crawl) = 0 \<and> alive (m crawl) then Some crawl
        else find_ready m (next_in_ThreadQ (m crawl))
      else Some crawl)"

definition next_runnable_kthread :: "kernel_state \<Rightarrow> (kernel_state \<times> u64) res" where
  "next_runnable_kthread s =
     (case find_ready (threads s) (q_head (runQueue s)) of
        None \<Rightarrow> Inl Halt
      | Some runnable \<Rightarrow>
          if runnable = 0 then Inl Halt
          else rbind (remove_runnable_kthread runnable s) (\<lambda>s. Inr (s, runnable)))"

text \<open>
  What \<open>Switch_To_Thread\<close> of \<open>sys/kthread.s\<close> does to the data of the C code: it stores the stack pointer
  below the registers it has pushed, here the argument \<open>frame\<close>, in the old thread, loads the TSS with
  the kernel stack of a user thread, and makes the new thread and its page tables current.
\<close>

definition Switch_To_Thread :: "u64 \<Rightarrow> u64 \<Rightarrow> kernel_state \<Rightarrow> kernel_state res" where
  "Switch_To_Thread frame r s =
     rbind (get_thread r s) (\<lambda>t.
     let s = (if kernel_thread t = 0 then s\<lparr>tss_rsp0 := kstack t\<rparr> else s) in
     rbind (upd_thread (currentThread s) (\<lambda>u. u\<lparr>rsp := frame\<rparr>) s) (\<lambda>s.
     let h = kheap s
     in Inr (s\<lparr>currentThread := r, kheap := h\<lparr>vm := vm h\<lparr>cr3 := pcr3 t\<rparr>\<rparr>\<rparr>)))"

definition Schedule :: "u64 \<Rightarrow> kernel_state \<Rightarrow> kernel_state res" where
  "Schedule frame s =
     rbind (next_runnable_kthread (disable_interrupts s)) (\<lambda>(s, runnable).
     if runnable = 0 then Inl Halt
     else rbind (Switch_To_Thread frame runnable s) (\<lambda>s. Inr (enable_interrupts s)))"

definition Get_Current :: "kernel_state \<Rightarrow> u64" where
  "Get_Current s = currentThread s"

definition Yield :: "u64 \<Rightarrow> kernel_state \<Rightarrow> kernel_state res" where
  "Yield frame s =
     (let s = disable_interrupts s in
      rbind (runnable_kthread (Get_Current s) s) (\<lambda>s. Schedule frame (enable_interrupts s)))"

definition is_interrupt_on :: "kernel_state \<Rightarrow> bool" where
  "is_interrupt_on s = interrupts s"

definition Exit_thread :: "u16 \<Rightarrow> u64 \<Rightarrow> kernel_state \<Rightarrow> kernel_state res" where
  "Exit_thread exit_code frame s =
     (let s = (if is_interrupt_on s then disable_interrupts s else s) in
      rbind (upd_thread (currentThread s) (\<lambda>t. t\<lparr>exitCode := uint exit_code, alive := False\<rparr>) s)
        (Schedule frame))"

definition Launch_Thread :: "kernel_state \<Rightarrow> kernel_state" where
  "Launch_Thread s = enable_interrupts s"

definition thread_exit :: "u64 \<Rightarrow> kernel_state \<Rightarrow> kernel_state res" where
  "thread_exit frame s = Exit_thread 0 frame s"

section \<open>Creating threads\<close>

definition Push :: "u64 \<Rightarrow> u64 \<Rightarrow> kernel_state \<Rightarrow> kernel_state res" where
  "Push k v s =
     rbind (upd_thread k (\<lambda>t. t\<lparr>rsp := rsp t - 8\<rparr>) s) (\<lambda>s.
     Inr (s\<lparr>kmem := (kmem s)(rsp (threads s k) := v)\<rparr>))"

definition Push_General_Registers :: "u64 \<Rightarrow> kernel_state \<Rightarrow> kernel_state res" where
  "Push_General_Registers k s = rfold (Push k) (replicate 15 0) s"

definition init_thread_queue :: "Thread_queue \<Rightarrow> Thread_queue" where
  "init_thread_queue q = \<lparr>q_head = 0, q_tail = 0\<rparr>"

definition Init_Thread :: "u64 \<Rightarrow> u64 \<Rightarrow> u64 \<Rightarrow> u16 \<Rightarrow> bool \<Rightarrow> kernel_state \<Rightarrow> kernel_state res" where
  "Init_Thread k nm stack_page prio detached s =
     (let own = (if detached then 0 else currentThread s) in
      rbind (upd_thread k (\<lambda>t. t\<lparr>
        stackPage := stack_page,
        rsp := stack_page + 4096,
        priority := uint prio,
        owner := own,
        sleeping := 0,
        refCount := (if detached then 1 else 2),
        kernel_thread := 1,
        alive := True,
        no_stack_pages := 1,
        thr_name := nm,
        pcr3 := get_cr3_register s,
        thr_cr3 := kernel_pgd (vm (kheap s)),
        joinQueue := init_thread_queue (joinQueue t)\<rparr>) s) (\<lambda>s.
      let (s, p) = alloc_pid s in upd_thread k (\<lambda>t. t\<lparr>pid := p\<rparr>) s))"

definition setup_kthread :: "u64 \<Rightarrow> u64 \<Rightarrow> u64 \<Rightarrow> u64 \<Rightarrow> u16 \<Rightarrow> kernel_state \<Rightarrow> kernel_state res" where
  "setup_kthread exit_fun launch_fun k startFunc arg s =
     rbind (Push k (ucast arg) s) (\<lambda>s.
     rbind (Push k exit_fun s) (\<lambda>s.
     rbind (Push k startFunc s) (\<lambda>s.
     rbind (Push k KERN_DS s) (\<lambda>s.
     rbind (Push k (rsp (threads s k) + 8) s) (\<lambda>s.
     rbind (Push k 0 s) (\<lambda>s.
     rbind (Push k KERN_CS s) (\<lambda>s.
     rbind (Push k launch_fun s) (\<lambda>s.
     rbind (Push k 0 s) (\<lambda>s.
     rbind (Push k 0 s) (\<lambda>s.
     Push_General_Registers k s))))))))))"

definition create_kthread :: "u64 \<Rightarrow> u16 \<Rightarrow> bool \<Rightarrow> kernel_state \<Rightarrow> (kernel_state \<times> u64) res" where
  "create_kthread nm prio detached s =
     rbind (kmalloc 0 True s) (\<lambda>(s, k).
     if k = 0 then Inr (s, 0)
     else rbind (kmalloc 0 True s) (\<lambda>(s, stack_page).
       if stack_page = 0 then rbind (kfree stack_page s) (\<lambda>s. Inr (s, 0))
       else
         rbind (Init_Thread k nm stack_page prio detached s) (\<lambda>s.
         rbind (append_global_list_queue k s) (\<lambda>s. Inr (s, k)))))"

definition start_kthread ::
  "u64 \<Rightarrow> u64 \<Rightarrow> u64 \<Rightarrow> u64 \<Rightarrow> u16 \<Rightarrow> u16 \<Rightarrow> bool \<Rightarrow> kernel_state \<Rightarrow> (kernel_state \<times> u64) res" where
  "start_kthread exit_fun launch_fun startFunc nm arg prio detached s =
     rbind (create_kthread nm prio detached s) (\<lambda>(s, k).
     rbind (add_to_ptable k s) (\<lambda>s.
     if k = 0 then Inr (s, 0)
     else
       rbind (setup_kthread exit_fun launch_fun k startFunc arg s) (\<lambda>s.
       rbind (runnable_kthread k (disable_interrupts s)) (\<lambda>s. Inr (enable_interrupts s, k)))))"

definition scheduler_init ::
  "u64 \<Rightarrow> u64 \<Rightarrow> u64 \<Rightarrow> u64 \<Rightarrow> u64 \<Rightarrow> u64 \<Rightarrow> u64 \<Rightarrow> kernel_state \<Rightarrow> kernel_state res" where
  "scheduler_init exit_fun launch_fun start stack main_name start_name frame s =
     rbind (kmalloc 0 True s) (\<lambda>(s, main_thread).
     rbind (Init_Thread main_thread main_name stack 5 True s) (\<lambda>s.
     let s = s\<lparr>currentThread := main_thread\<rparr> in
     rbind (append_global_list_queue main_thread s) (\<lambda>s.
     rbind (start_kthread exit_fun launch_fun start start_name 0 5 True s) (\<lambda>(s, _).
     Schedule frame (s\<lparr>is_scheduler_on := True\<rparr>)))))"

section \<open>The queues as sequences\<close>

text \<open>The sequences of threads in the run queue and in the list of all threads.\<close>

definition run_next :: "kernel_state \<Rightarrow> u64 \<Rightarrow> u64" where
  "run_next s p = next_in_ThreadQ (threads s p)"

definition run_prev :: "kernel_state \<Rightarrow> u64 \<Rightarrow> u64" where
  "run_prev s p = prev_in_ThreadQ (threads s p)"

definition all_next :: "kernel_state \<Rightarrow> u64 \<Rightarrow> u64" where
  "all_next s p = next_in_ThreadList (threads s p)"

definition all_prev :: "kernel_state \<Rightarrow> u64 \<Rightarrow> u64" where
  "all_prev s p = prev_in_ThreadList (threads s p)"

definition run_queue :: "kernel_state \<Rightarrow> u64 list \<Rightarrow> bool" where
  "run_queue s xs \<longleftrightarrow> dlq (run_next s) (run_prev s) (q_head (runQueue s)) (q_tail (runQueue s)) xs"

definition all_list :: "kernel_state \<Rightarrow> u64 list \<Rightarrow> bool" where
  "all_list s xs \<longleftrightarrow> dlq (all_next s) (all_prev s) (q_head (allThreadList s)) (q_tail (allThreadList s)) xs"

lemmas queue_ops = append_run_queue_def insert_run_queue_def remove_runnable_kthread_def
  append_global_list_queue_def insert_global_list_queue_def remove_alllist_kthread_def

lemmas link_defs = run_next_def run_prev_def all_next_def all_prev_def

interpretation rq: link_queue run_next run_prev "\<lambda>s. q_head (runQueue s)" "\<lambda>s. q_tail (runQueue s)"
  append_run_queue insert_run_queue remove_runnable_kthread
proof
  fix x :: u64 and s :: kernel_state
  assume x: "x \<noteq> 0"
  show "\<exists>s'. append_run_queue x s = Inr s' \<and>
      (if q_tail (runQueue s) = 0
       then q_head (runQueue s') = x \<and> q_tail (runQueue s') = x \<and> run_next s' = (run_next s)(x := 0) \<and>
            run_prev s' = (run_prev s)(x := 0)
       else q_head (runQueue s') = q_head (runQueue s) \<and> q_tail (runQueue s') = x \<and>
            run_next s' = (run_next s)(x := 0, q_tail (runQueue s) := x) \<and>
            run_prev s' = (run_prev s)(x := q_tail (runQueue s)))"
    using x by (auto simp: queue_ops upd_thread_def fun_eq_iff link_defs)
  show "\<exists>s'. insert_run_queue x s = Inr s' \<and>
      (if q_head (runQueue s) = 0
       then q_head (runQueue s') = x \<and> q_tail (runQueue s') = x \<and> run_next s' = (run_next s)(x := 0) \<and>
            run_prev s' = (run_prev s)(x := 0)
       else q_head (runQueue s') = x \<and> q_tail (runQueue s') = q_tail (runQueue s) \<and>
            run_next s' = (run_next s)(x := q_head (runQueue s)) \<and>
            run_prev s' = (run_prev s)(x := 0, q_head (runQueue s) := x))"
    using x by (auto simp: queue_ops upd_thread_def fun_eq_iff link_defs)
  show "\<exists>s'. remove_runnable_kthread x s = Inr s' \<and>
      run_next s' = (if run_prev s x \<noteq> 0 then (run_next s)(run_prev s x := run_next s x) else run_next s) \<and>
      run_prev s' = (if run_next s x \<noteq> 0 then (run_prev s)(run_next s x := run_prev s x) else run_prev s) \<and>
      q_head (runQueue s') = (if run_prev s x \<noteq> 0 then q_head (runQueue s) else run_next s x) \<and>
      q_tail (runQueue s') = (if run_next s x \<noteq> 0 then q_tail (runQueue s) else run_prev s x)"
    using x by (auto simp: queue_ops upd_thread_def get_thread_def fun_eq_iff link_defs)
qed

interpretation al: link_queue all_next all_prev "\<lambda>s. q_head (allThreadList s)" "\<lambda>s. q_tail (allThreadList s)"
  append_global_list_queue insert_global_list_queue remove_alllist_kthread
proof
  fix x :: u64 and s :: kernel_state
  assume x: "x \<noteq> 0"
  show "\<exists>s'. append_global_list_queue x s = Inr s' \<and>
      (if q_tail (allThreadList s) = 0
       then q_head (allThreadList s') = x \<and> q_tail (allThreadList s') = x \<and> all_next s' = (all_next s)(x := 0) \<and>
            all_prev s' = (all_prev s)(x := 0)
       else q_head (allThreadList s') = q_head (allThreadList s) \<and> q_tail (allThreadList s') = x \<and>
            all_next s' = (all_next s)(x := 0, q_tail (allThreadList s) := x) \<and>
            all_prev s' = (all_prev s)(x := q_tail (allThreadList s)))"
    using x by (auto simp: queue_ops upd_thread_def fun_eq_iff link_defs)
  show "\<exists>s'. insert_global_list_queue x s = Inr s' \<and>
      (if q_head (allThreadList s) = 0
       then q_head (allThreadList s') = x \<and> q_tail (allThreadList s') = x \<and> all_next s' = (all_next s)(x := 0) \<and>
            all_prev s' = (all_prev s)(x := 0)
       else q_head (allThreadList s') = x \<and> q_tail (allThreadList s') = q_tail (allThreadList s) \<and>
            all_next s' = (all_next s)(x := q_head (allThreadList s)) \<and>
            all_prev s' = (all_prev s)(x := 0, q_head (allThreadList s) := x))"
    using x by (auto simp: queue_ops upd_thread_def fun_eq_iff link_defs)
  show "\<exists>s'. remove_alllist_kthread x s = Inr s' \<and>
      all_next s' = (if all_prev s x \<noteq> 0 then (all_next s)(all_prev s x := all_next s x) else all_next s) \<and>
      all_prev s' = (if all_next s x \<noteq> 0 then (all_prev s)(all_next s x := all_prev s x) else all_prev s) \<and>
      q_head (allThreadList s') = (if all_prev s x \<noteq> 0 then q_head (allThreadList s) else all_next s x) \<and>
      q_tail (allThreadList s') = (if all_next s x \<noteq> 0 then q_tail (allThreadList s) else all_prev s x)"
    using x by (auto simp: queue_ops upd_thread_def get_thread_def fun_eq_iff link_defs)
qed

text \<open>The operations on one queue leave everything else as it is.\<close>

definition same_but_run :: "kernel_state \<Rightarrow> kernel_state \<Rightarrow> bool" where
  "same_but_run s s' \<longleftrightarrow>
     s' = s\<lparr>threads := \<lambda>p. threads s p\<lparr>prev_in_ThreadQ := run_prev s' p, next_in_ThreadQ := run_next s' p\<rparr>,
            runQueue := runQueue s'\<rparr>"

definition same_but_all :: "kernel_state \<Rightarrow> kernel_state \<Rightarrow> bool" where
  "same_but_all s s' \<longleftrightarrow>
     s' = s\<lparr>threads := \<lambda>p. threads s p\<lparr>prev_in_ThreadList := all_prev s' p, next_in_ThreadList := all_next s' p\<rparr>,
            allThreadList := allThreadList s'\<rparr>"

lemma append_run_queue_frame: "append_run_queue x s = Inr s' \<Longrightarrow> same_but_run s s'"
  by (auto simp: queue_ops upd_thread_def same_but_run_def fun_eq_iff link_defs split: if_splits)

lemma remove_runnable_frame: "remove_runnable_kthread x s = Inr s' \<Longrightarrow> same_but_run s s'"
  by (auto simp: queue_ops upd_thread_def get_thread_def same_but_run_def fun_eq_iff link_defs split: if_splits)

lemma append_global_frame: "append_global_list_queue x s = Inr s' \<Longrightarrow> same_but_all s s'"
  by (auto simp: queue_ops upd_thread_def same_but_all_def fun_eq_iff link_defs split: if_splits)

lemma remove_alllist_frame: "remove_alllist_kthread x s = Inr s' \<Longrightarrow> same_but_all s s'"
  by (auto simp: queue_ops upd_thread_def get_thread_def same_but_all_def fun_eq_iff link_defs split: if_splits)

lemma same_but_runE:
  assumes "same_but_run s s'"
  obtains f g q where "s' = s\<lparr>threads := \<lambda>p. threads s p\<lparr>prev_in_ThreadQ := f p, next_in_ThreadQ := g p\<rparr>, runQueue := q\<rparr>"
  using assms unfolding same_but_run_def by blast

lemma same_but_allE:
  assumes "same_but_all s s'"
  obtains f g q where "s' = s\<lparr>threads := \<lambda>p. threads s p\<lparr>prev_in_ThreadList := f p, next_in_ThreadList := g p\<rparr>,
    allThreadList := q\<rparr>"
  using assms unfolding same_but_all_def by blast

text \<open>What scheduling leaves alone: who is ready, the list of all threads and the process table.\<close>

definition sched_frame :: "kernel_state \<Rightarrow> kernel_state \<Rightarrow> bool" where
  "sched_frame s s' \<longleftrightarrow>
     (\<forall>p. ready (threads s' p) = ready (threads s p)) \<and> all_next s' = all_next s \<and> all_prev s' = all_prev s \<and>
     allThreadList s' = allThreadList s \<and> ptable s' = ptable s \<and> nextFreePid s' = nextFreePid s"

lemma sched_frame_refl [simp]: "sched_frame s s"
  by (simp add: sched_frame_def)

lemma sched_frame_trans: "sched_frame r s \<Longrightarrow> sched_frame s t \<Longrightarrow> sched_frame r t"
  by (simp add: sched_frame_def)

lemma sched_frame_run: "same_but_run s s' \<Longrightarrow> sched_frame s s' \<and> currentThread s' = currentThread s"
  by (elim same_but_runE) (simp add: sched_frame_def ready_def fun_eq_iff link_defs)

lemma find_ready_seg:
  assumes "dseg (\<lambda>q. next_in_ThreadQ (m q)) p a xs 0" and "0 \<notin> set xs"
  shows "find_ready m (hd (xs @ [0])) = Some (case find (\<lambda>q. ready (m q)) xs of None \<Rightarrow> 0 | Some q \<Rightarrow> q)"
  using assms
proof (induction xs arbitrary: a)
  case Nil
  then show ?case by (simp add: find_ready.simps)
next
  case (Cons x xs)
  then show ?case using Cons.IH [of x] by (simp add: find_ready.simps [of m x] ready_def)
qed

lemma find_ready_queue:
  assumes "run_queue s xs"
  shows "find_ready (threads s) (q_head (runQueue s)) =
    Some (case find (\<lambda>q. ready (threads s q)) xs of None \<Rightarrow> 0 | Some q \<Rightarrow> q)"
  using assms find_ready_seg [of "threads s" "run_prev s" 0 xs]
  by (simp add: run_queue_def dlq_def run_next_def [abs_def])

lemma find_member: "find P xs = Some x \<Longrightarrow> x \<in> set xs \<and> P x"
  by (auto simp: find_Some_iff)

lemma next_runnable_queue:
  assumes q: "run_queue s xs" and p: "find (\<lambda>q. ready (threads s q)) xs = Some p"
  shows "\<exists>s'. next_runnable_kthread s = Inr (s', p) \<and> run_queue s' (remove1 p xs) \<and> same_but_run s s'"
proof -
  have m: "p \<in> set xs" "p \<noteq> 0" using find_member [OF p] q by (auto simp: run_queue_def dlq_def)
  obtain s' where s': "remove_runnable_kthread p s = Inr s'" "run_queue s' (remove1 p xs)"
    using rq.remove_queue [OF q [unfolded run_queue_def] m(1)] by (auto simp: run_queue_def)
  then show ?thesis
    using find_ready_queue [OF q] p m(2) remove_runnable_frame [OF s'(1)] by (simp add: next_runnable_kthread_def)
qed

lemma run_queue_cong:
  "run_next s' = run_next s \<Longrightarrow> run_prev s' = run_prev s \<Longrightarrow> runQueue s' = runQueue s \<Longrightarrow>
     run_queue s' = run_queue s"
  by (rule ext) (simp add: run_queue_def)

lemma interrupts_links [simp]:
  "run_next (s\<lparr>interrupts := b\<rparr>) = run_next s" "run_prev (s\<lparr>interrupts := b\<rparr>) = run_prev s"
  "all_next (s\<lparr>interrupts := b\<rparr>) = all_next s" "all_prev (s\<lparr>interrupts := b\<rparr>) = all_prev s"
  by (simp_all add: link_defs fun_eq_iff)

text \<open>Switching keeps the queues.\<close>

lemma Switch_To_Thread_frame:
  assumes "r \<noteq> 0" and "currentThread s \<noteq> 0"
  shows "\<exists>s'. Switch_To_Thread frame r s = Inr s' \<and> currentThread s' = r \<and> sched_frame s s' \<and>
    run_queue s' = run_queue s"
proof -
  have "\<exists>s'. Switch_To_Thread frame r s = Inr s' \<and> currentThread s' = r \<and> sched_frame s s' \<and>
      run_next s' = run_next s \<and> run_prev s' = run_prev s \<and> runQueue s' = runQueue s"
    using assms
    by (auto simp: Switch_To_Thread_def get_thread_def upd_thread_def Let_def sched_frame_def ready_def
        fun_eq_iff link_defs)
  then show ?thesis using run_queue_cong by blast
qed

lemma interrupts_frame [simp]:
  "run_queue (s\<lparr>interrupts := b\<rparr>) = run_queue s" "sched_frame r (s\<lparr>interrupts := b\<rparr>) = sched_frame r s"
  "sched_frame (s\<lparr>interrupts := b\<rparr>) r = sched_frame s r"
  by (rule run_queue_cong) (simp_all add: sched_frame_def)

lemma Schedule_queue:
  assumes q: "run_queue s xs" and p: "find (\<lambda>q. ready (threads s q)) xs = Some p" and c: "currentThread s \<noteq> 0"
  shows "\<exists>s'. Schedule frame s = Inr s' \<and> currentThread s' = p \<and> run_queue s' (remove1 p xs) \<and>
    sched_frame s s' \<and> interrupts s'"
proof -
  let ?s = "s\<lparr>interrupts := False\<rparr>"
  have p0: "p \<noteq> 0" using find_member [OF p] q by (auto simp: run_queue_def dlq_def)
  obtain t where t: "next_runnable_kthread ?s = Inr (t, p)" "run_queue t (remove1 p xs)" "same_but_run ?s t"
    using next_runnable_queue [of ?s xs p] q p by auto
  have f: "sched_frame s t" "currentThread t \<noteq> 0" using sched_frame_run [OF t(3)] c by auto
  obtain s' where s': "Switch_To_Thread frame p t = Inr s'" "currentThread s' = p" "sched_frame t s'"
      "run_queue s' = run_queue t"
    using Switch_To_Thread_frame [OF p0 f(2)] by blast
  then show ?thesis
    using t f sched_frame_trans [OF f(1) s'(3)] p0
    by (simp add: Schedule_def disable_interrupts_def enable_interrupts_def)
qed

lemma Yield_queue:
  assumes q: "run_queue s xs" and c: "currentThread s = c" "c \<noteq> 0" "c \<notin> set xs"
    and p: "find (\<lambda>q. ready (threads s q)) (xs @ [c]) = Some p"
  shows "\<exists>s'. Yield frame s = Inr s' \<and> currentThread s' = p \<and> run_queue s' (remove1 p (xs @ [c])) \<and>
    sched_frame s s'"
proof -
  let ?s = "s\<lparr>interrupts := False\<rparr>"
  have "run_queue ?s xs" using q by simp
  then obtain t where t: "append_run_queue c ?s = Inr t" "run_queue t (xs @ [c])"
    using rq.append_queue [of ?s xs c] c by (auto simp: run_queue_def)
  have f: "sched_frame s t" "currentThread t = c"
    using sched_frame_run [OF append_run_queue_frame [OF t(1)]] c(1) by auto
  have "find (\<lambda>q. ready (threads t q)) (xs @ [c]) = Some p" using f(1) p by (simp add: sched_frame_def)
  then have "\<exists>s'. Schedule frame (t\<lparr>interrupts := True\<rparr>) = Inr s' \<and> currentThread s' = p \<and>
      run_queue s' (remove1 p (xs @ [c])) \<and> sched_frame (t\<lparr>interrupts := True\<rparr>) s' \<and> interrupts s'"
    using t(2) f(2) c by (intro Schedule_queue) simp_all
  then show ?thesis
    using t(1) c(1) sched_frame_trans [OF f(1)]
    by (auto simp: Yield_def Let_def disable_interrupts_def enable_interrupts_def runnable_kthread_def Get_Current_def)
qed

text \<open>A ready thread of the run queue moves forward with every \<open>Yield\<close> until it runs.\<close>

lemma find_before:
  assumes "distinct ys" and "find P ys = Some p" and "i < length ys" and "P (ys ! i)" and "p \<noteq> ys ! i"
  shows "0 < i" and "i - 1 < length (remove1 p ys)" and "remove1 p ys ! (i - 1) = ys ! i"
proof -
  obtain j where j: "j < length ys" "P (ys ! j)" "p = ys ! j" "\<forall>k<j. \<not> P (ys ! k)"
    using assms(2) by (auto simp: find_Some_iff)
  have "j < i" using j assms(3-5) by (metis linorder_neqE_nat)
  then show "0 < i" by simp
  have ys: "ys = take j ys @ p # drop (Suc j) ys" using j by (simp add: id_take_nth_drop)
  moreover have "p \<notin> set (take j ys)" using assms(1) ys by (metis distinct_append disjoint_iff list.set_intros(1))
  ultimately have r: "remove1 p ys = take j ys @ drop (Suc j) ys" by (metis remove1.simps(2) remove1_append)
  then show "i - 1 < length (remove1 p ys)" using \<open>j < i\<close> assms(3) by simp
  show "remove1 p ys ! (i - 1) = ys ! i" unfolding r using \<open>j < i\<close> assms(3) by (auto simp: nth_append)
qed

lemma yields_reach:
  "run_queue s xs \<Longrightarrow> currentThread s = c \<Longrightarrow> c \<noteq> 0 \<Longrightarrow> c \<notin> set xs \<Longrightarrow> i < length xs \<Longrightarrow>
   ready (threads s (xs ! i)) \<Longrightarrow> i < length frames \<Longrightarrow>
   \<exists>k\<le>Suc i. \<exists>s'. rfold Yield (take k frames) s = Inr s' \<and> currentThread s' = xs ! i"
proof (induction i arbitrary: s xs c frames rule: less_induct)
  case (less i)
  let ?ys = "xs @ [c]" and ?P = "\<lambda>q. ready (threads s q)"
  have y: "i < length ?ys" "?P (?ys ! i)" "?ys ! i = xs ! i" using less.prems(5,6) by (auto simp: nth_append)
  then obtain p where p: "find ?P ?ys = Some p" by (metis find_None_iff2 not_None_eq nth_mem)
  obtain f fs where f: "frames = f # fs" using less.prems(7) by (cases frames) auto
  obtain t where t: "Yield f s = Inr t" "currentThread t = p" "run_queue t (remove1 p ?ys)" "sched_frame s t"
    using Yield_queue [OF less.prems(1-4) p] by blast
  show ?case
  proof (cases "p = xs ! i")
    case True
    then show ?thesis using t f by (intro exI [of _ 1]) simp
  next
    case False
    have d: "distinct ?ys" "0 \<notin> set ?ys" using less.prems(1,3,4) by (auto simp: run_queue_def dlq_def)
    note b = find_before [OF d(1) p y(1,2)]
    have "p \<noteq> 0" "p \<notin> set (remove1 p ?ys)" using d find_member [OF p] by auto
    moreover have "remove1 p ?ys ! (i - 1) = xs ! i" "0 < i" "i - 1 < length (remove1 p ?ys)" using b False y(3) by auto
    moreover have "ready (threads t (xs ! i))" using t(4) less.prems(6) by (simp add: sched_frame_def)
    moreover have "i - 1 < length fs" using less.prems(7) f \<open>0 < i\<close> by simp
    ultimately obtain k s' where "k \<le> Suc (i - 1)" "rfold Yield (take k fs) t = Inr s'" "currentThread s' = xs ! i"
      using less.IH [of "i - 1" t "remove1 p ?ys" p fs] t(2,3) by auto
    then show ?thesis using t(1) f \<open>0 < i\<close> by (intro exI [of _ "Suc k"]) simp
  qed
qed

section \<open>The stack of a new thread\<close>

fun pushed :: "(u64 \<Rightarrow> u64) \<Rightarrow> u64 \<Rightarrow> u64 list \<Rightarrow> (u64 \<Rightarrow> u64)" where
  "pushed m r [] = m"
| "pushed m r (v # vs) = pushed (m(r - 8 := v)) (r - 8) vs"

lemma Push_eq:
  "k \<noteq> 0 \<Longrightarrow> Push k v s =
     Inr (s\<lparr>threads := (threads s)(k := threads s k\<lparr>rsp := rsp (threads s k) - 8\<rparr>),
            kmem := (kmem s)(rsp (threads s k) - 8 := v)\<rparr>)"
  by (simp add: Push_def upd_thread_def)

lemma pushes:
  "k \<noteq> 0 \<Longrightarrow> rfold (Push k) vs s =
     Inr (s\<lparr>threads := (threads s)(k := threads s k\<lparr>rsp := rsp (threads s k) - 8 * of_nat (length vs)\<rparr>),
            kmem := pushed (kmem s) (rsp (threads s k)) vs\<rparr>)"
proof (induction vs arbitrary: s)
  case (Cons v vs)
  let ?r = "rsp (threads s k)"
  let ?t = "s\<lparr>threads := (threads s)(k := threads s k\<lparr>rsp := ?r - 8\<rparr>), kmem := (kmem s)(?r - 8 := v)\<rparr>"
  have eq: "?r - 8 - 8 * of_nat (length vs) = ?r - 8 * of_nat (length (v # vs))" by (simp add: algebra_simps)
  have "rfold (Push k) (v # vs) s = rfold (Push k) vs ?t"
    by (simp only: rfold.simps Push_eq [OF Cons.prems, of v s] rbind_simps)
  also have "\<dots> = Inr (?t\<lparr>threads := (threads ?t)(k := threads ?t k\<lparr>rsp := rsp (threads ?t k) - 8 * of_nat (length vs)\<rparr>),
      kmem := pushed (kmem ?t) (rsp (threads ?t k)) vs\<rparr>)" by (rule Cons.IH [OF Cons.prems])
  finally show ?case by (simp add: eq fun_upd_def cong: if_cong del: length_Cons)
qed simp

lemma pushed_other:
  "(\<And>i. i < length vs \<Longrightarrow> a \<noteq> r - 8 * of_nat (Suc i)) \<Longrightarrow> pushed m r vs a = m a"
proof (induction vs arbitrary: m r)
  case (Cons v vs)
  have "a \<noteq> r - 8 - 8 * of_nat (Suc i)" if "i < length vs" for i
    using Cons.prems [of "Suc i"] that by (simp add: algebra_simps)
  then show ?case using Cons.IH [of "r - 8"] Cons.prems [of 0] by simp
qed simp

lemma pushed_nth:
  "i < length vs \<Longrightarrow> length vs < 2 ^ 60 \<Longrightarrow> pushed m r vs (r - 8 * of_nat (Suc i)) = vs ! i"
proof (induction vs arbitrary: m r i)
  case (Cons v vs)
  show ?case
  proof (cases i)
    case 0
    have "r - 8 \<noteq> r - 8 - 8 * of_nat (Suc j)" if "j < length vs" for j
    proof -
      have "unat (8 * of_nat (Suc j) :: u64) = 8 * Suc j"
        using that Cons.prems(2) by (simp add: unat_word_ariths unat_of_nat del: of_nat_Suc)
      then have "8 * of_nat (Suc j) \<noteq> (0 :: u64)" by (metis mult_eq_0_iff nat.simps(3) numeral_neq_zero unsigned_0)
      then show ?thesis by (simp del: of_nat_Suc)
    qed
    then show ?thesis using 0 by (simp add: pushed_other)
  next
    case (Suc j)
    have "r - 8 * of_nat (Suc i) = r - 8 - 8 * of_nat (Suc j)" using Suc by (simp add: algebra_simps)
    then have "pushed m r (v # vs) (r - 8 * of_nat (Suc i)) = pushed (m(r - 8 := v)) (r - 8) vs (r - 8 - 8 * of_nat (Suc j))"
      by (simp only: pushed.simps)
    also have "\<dots> = vs ! j" by (rule Cons.IH) (use Suc Cons.prems in simp_all)
    finally show ?thesis using Suc by simp
  qed
qed simp

definition initial_stack :: "u64 \<Rightarrow> u64 \<Rightarrow> u64 \<Rightarrow> u16 \<Rightarrow> u64 \<Rightarrow> u64 list" where
  "initial_stack exit_fun launch_fun startFunc arg r =
     [ucast arg, exit_fun, startFunc, KERN_DS, r - 24, 0, KERN_CS, launch_fun, 0, 0] @ replicate 15 0"

lemma setup_kthread_pushes:
  assumes "k \<noteq> 0"
  shows "setup_kthread exit_fun launch_fun k startFunc arg s =
    rfold (Push k) (initial_stack exit_fun launch_fun startFunc arg (rsp (threads s k))) s"
  unfolding setup_kthread_def initial_stack_def rfold_append Push_General_Registers_def
  by (simp add: Push_eq [OF assms])

end
