(* ===== verification/Scheduling.thy ===== *)
theory Scheduling
  imports Kthread
begin

text \<open>
  The properties of the threads and the scheduler of \<open>sys/kthread.c\<close>: what the run queue and the list
  of all threads hold after every operation, which thread runs next, that a ready thread gets to run,
  and what the stack of a new thread looks like.
\<close>

section \<open>Starting a thread\<close>

definition same_links :: "kernel_state \<Rightarrow> kernel_state \<Rightarrow> bool" where
  "same_links s s' \<longleftrightarrow>
     run_next s' = run_next s \<and> run_prev s' = run_prev s \<and> all_next s' = all_next s \<and> all_prev s' = all_prev s \<and>
     runQueue s' = runQueue s \<and> allThreadList s' = allThreadList s"

lemma same_links_queues:
  "same_links s s' \<Longrightarrow> run_queue s' = run_queue s \<and> all_list s' = all_list s"
  by (intro conjI ext) (simp_all add: same_links_def run_queue_def all_list_def)

lemma same_links_trans: "same_links r s \<Longrightarrow> same_links s t \<Longrightarrow> same_links r t"
  by (simp add: same_links_def)

lemma kmalloc_page:
  "kmalloc n True s =
     Inr (s\<lparr>kheap := (kheap s)\<lparr>vm := fst (vmmgr_alloc_page n (vm (kheap s)))\<rparr>\<rparr>, snd (vmmgr_alloc_page n (vm (kheap s))))"
  by (simp add: kmalloc_def sub_malloc_def split_beta Let_def)

lemma Init_Thread_Inr:
  assumes "k \<noteq> 0"
  shows "\<exists>s'. Init_Thread k nm sp prio detached s = Inr s' \<and> same_links s s' \<and>
    ready (threads s' k) \<and> kernel_thread (threads s' k) = 1 \<and> pid (threads s' k) = nextFreePid s + 1 \<and>
    rsp (threads s' k) = sp + 4096 \<and> parent (threads s' k) = parent (threads s k) \<and>
    ptable s' = ptable s \<and> nextFreePid s' = nextFreePid s + 1 \<and> currentThread s' = currentThread s"
  using assms
  by (simp add: Init_Thread_def upd_thread_def alloc_pid_def Let_def same_links_def link_defs fun_eq_iff ready_def)

lemma create_kthread_Inr:
  assumes k: "vmmgr_alloc_page 0 (vm (kheap s)) = (v, k)" "k \<noteq> 0"
    and st: "vmmgr_alloc_page 0 v = (v', sp)" "sp \<noteq> 0" and q: "all_list s ys" "k \<notin> set ys"
  shows "\<exists>s'. create_kthread nm prio detached s = Inr (s', k) \<and> run_queue s' = run_queue s \<and> all_list s' (ys @ [k]) \<and>
    ready (threads s' k) \<and> pid (threads s' k) = nextFreePid s + 1 \<and> rsp (threads s' k) = sp + 4096 \<and>
    ptable s' = ptable s \<and> nextFreePid s' = nextFreePid s + 1 \<and> currentThread s' = currentThread s"
proof -
  let ?s1 = "s\<lparr>kheap := (kheap s)\<lparr>vm := v\<rparr>\<rparr>" let ?s2 = "?s1\<lparr>kheap := (kheap ?s1)\<lparr>vm := v'\<rparr>\<rparr>"
  have 2: "kmalloc 0 True s = Inr (?s1, k)" "kmalloc 0 True ?s1 = Inr (?s2, sp)" using k st by (simp_all add: kmalloc_page)
  obtain t where t: "Init_Thread k nm sp prio detached ?s2 = Inr t" "same_links ?s2 t" "ready (threads t k)"
      "pid (threads t k) = nextFreePid s + 1" "rsp (threads t k) = sp + 4096"
      "ptable t = ptable s" "nextFreePid t = nextFreePid s + 1" "currentThread t = currentThread s"
    using Init_Thread_Inr [OF k(2), of nm sp prio detached ?s2] by auto
  have "same_links s ?s2" by (simp add: same_links_def link_defs fun_eq_iff)
  then have links: "run_queue t = run_queue s" "all_list t ys"
    using same_links_queues [OF same_links_trans [OF _ t(2)]] q(1) by auto
  obtain s' where s': "append_global_list_queue k t = Inr s'" "all_list s' (ys @ [k])"
    using al.append_queue [of t ys k] links(2) k(2) q(2) by (auto simp: all_list_def)
  from append_global_frame [OF s'(1)] obtain f g a where
    eq: "s' = t\<lparr>threads := \<lambda>p. threads t p\<lparr>prev_in_ThreadList := f p, next_in_ThreadList := g p\<rparr>, allThreadList := a\<rparr>"
    by (rule same_but_allE)
  have "run_queue s' = run_queue t" unfolding eq by (rule run_queue_cong) (simp_all add: link_defs fun_eq_iff)
  then show ?thesis using 2 t s' links k(2) st(2) eq by (simp add: create_kthread_def ready_def)
qed

text \<open>Preparing the stack changes the stack pointer of the thread and the words of the stack only.\<close>

lemma setup_kthread_Inr:
  assumes "k \<noteq> 0"
  shows "\<exists>m. setup_kthread exit_fun launch_fun k startFunc arg s =
    Inr (s\<lparr>threads := (threads s)(k := threads s k\<lparr>rsp := rsp (threads s k) - 200\<rparr>), kmem := m\<rparr>)"
  unfolding setup_kthread_pushes [OF assms] pushes [OF assms] by (auto simp: initial_stack_def)

lemma start_kthread_Inr:
  assumes k: "vmmgr_alloc_page 0 (vm (kheap s)) = (v, k)" "k \<noteq> 0"
    and st: "vmmgr_alloc_page 0 v = (v', sp)" "sp \<noteq> 0"
    and q: "run_queue s xs" "all_list s ys" "k \<notin> set xs" "k \<notin> set ys"
    and pid: "0 \<le> nextFreePid s + 1" "nextFreePid s + 1 < int (length (ptable s))"
  shows "\<exists>s'. start_kthread exit_fun launch_fun startFunc nm arg prio detached s = Inr (s', k) \<and>
    run_queue s' (xs @ [k]) \<and> all_list s' (ys @ [k]) \<and> ready (threads s' k) \<and>
    pid (threads s' k) = nextFreePid s + 1 \<and> ptable s' = (ptable s)[nat (nextFreePid s + 1) := k] \<and>
    nextFreePid s' = nextFreePid s + 1 \<and> currentThread s' = currentThread s"
proof -
  obtain t where t: "create_kthread nm prio detached s = Inr (t, k)" "run_queue t = run_queue s" "all_list t (ys @ [k])"
      "ready (threads t k)" "pid (threads t k) = nextFreePid s + 1" "ptable t = ptable s"
      "nextFreePid t = nextFreePid s + 1" "currentThread t = currentThread s"
    using create_kthread_Inr [OF k st q(2,4)] by blast
  let ?p = "(ptable s)[nat (nextFreePid s + 1) := k]" let ?t = "t\<lparr>ptable := ?p\<rparr>"
  have ptab: "add_to_ptable k t = Inr ?t"
    using t(5,6) k(2) pid by (simp add: add_to_ptable_def get_thread_def arr_set_def)
  obtain m where m: "setup_kthread exit_fun launch_fun k startFunc arg ?t =
      Inr (?t\<lparr>threads := (threads t)(k := threads t k\<lparr>rsp := rsp (threads t k) - 200\<rparr>), kmem := m\<rparr>)"
    using setup_kthread_Inr [OF k(2), of exit_fun launch_fun startFunc arg ?t] by auto
  let ?u = "?t\<lparr>threads := (threads t)(k := threads t k\<lparr>rsp := rsp (threads t k) - 200\<rparr>), kmem := m, interrupts := False\<rparr>"
  have "same_links t ?u" by (simp add: same_links_def link_defs fun_eq_iff)
  from same_links_queues [OF this] have links: "run_queue ?u xs" "all_list ?u (ys @ [k])"
    using t(2,3) q(1) by (metis, metis)
  obtain w where w: "append_run_queue k ?u = Inr w" "run_queue w (xs @ [k])"
    using rq.append_queue [of ?u xs k] links(1) k(2) q(3) unfolding run_queue_def by blast
  from append_run_queue_frame [OF w(1)] obtain f g a where
    eq: "w = ?u\<lparr>threads := \<lambda>p. threads ?u p\<lparr>prev_in_ThreadQ := f p, next_in_ThreadQ := g p\<rparr>, runQueue := a\<rparr>"
    by (rule same_but_runE)
  have all: "all_list w (ys @ [k])" using links(2) unfolding eq by (simp add: all_list_def link_defs [abs_def])
  have rest: "ready (threads w k)" "pid (threads w k) = nextFreePid s + 1" "ptable w = ?p"
    "nextFreePid w = nextFreePid s + 1" "currentThread w = currentThread s"
    using t(4,5,7,8) unfolding eq by (simp_all add: ready_def)
  have links': "same_links w (w\<lparr>interrupts := True\<rparr>)" by (simp add: same_links_def)
  have "start_kthread exit_fun launch_fun startFunc nm arg prio detached s = Inr (w\<lparr>interrupts := True\<rparr>, k)"
    using t(1) ptab m w(1) k(2)
    by (simp add: start_kthread_def runnable_kthread_def disable_interrupts_def enable_interrupts_def)
  then show ?thesis using w(2) all rest same_links_queues [OF links'] by auto
qed

section \<open>Removing a thread\<close>

lemma all_list_frame: "same_but_run s s' \<Longrightarrow> all_list s' = all_list s"
  by (elim same_but_runE, intro ext) (simp add: all_list_def link_defs [abs_def])

lemma run_queue_frame: "same_but_all s s' \<Longrightarrow> run_queue s' = run_queue s"
  by (elim same_but_allE, intro ext) (simp add: run_queue_def link_defs [abs_def])

text \<open>Without a parent, what \<open>thread_cleanup\<close> leaves of the run queue is up to \<open>remove_runnable_kthread\<close>.\<close>

lemma thread_cleanup_orphan:
  assumes r: "remove_runnable_kthread k s = Inr t" and q: "all_list s ys" "k \<in> set ys" and "parent (threads s k) = 0"
  shows "\<exists>s'. thread_cleanup k s = Inr s' \<and> run_queue s' = run_queue t \<and> all_list s' (remove1 k ys) \<and>
    ptable s' = ptable s \<and> (\<forall>p. ready (threads s' p) = ready (threads s p))"
proof -
  have k: "k \<noteq> 0" using q by (auto simp: all_list_def dlq_def)
  note f = remove_runnable_frame [OF r]
  have "all_list t ys" using all_list_frame [OF f] q(1) by simp
  then obtain s' where s': "remove_alllist_kthread k t = Inr s'" "all_list s' (remove1 k ys)"
    using al.remove_queue [of t ys k] q(2) by (auto simp: all_list_def)
  note g = remove_alllist_frame [OF s'(1)]
  have "parent (threads s' k) = 0" "ptable s' = ptable s" "\<forall>p. ready (threads s' p) = ready (threads s p)"
    using f g assms(4) by (auto elim!: same_but_runE same_but_allE simp: ready_def)
  then show ?thesis using r s' k run_queue_frame [OF g] by (simp add: thread_cleanup_def get_thread_def)
qed

text \<open>A machine with given threads, run queue and current thread, for the examples.\<close>

definition example_thread :: kthread where
  "example_thread =
     \<lparr>rsp = 0, kernel_thread = 1, krsp = 0, pcr3 = 0, thr_cr3 = 0, kstack = 0, sleeping = 0, priority = 0,
      prev_in_ThreadQ = 0, next_in_ThreadQ = 0, stackPage = 0, brk = 0, no_stack_pages = 0, owner = 0,
      parent = 0, joinQueue = \<lparr>q_head = 0, q_tail = 0\<rparr>, refCount = 0, join_head = \<lparr>child = 0, jnext = 0\<rparr>,
      alive = True, thr_name = 0, exitCode = 0, pid = 0, mmap_first = 0, mmap_cache = 0,
      prev_in_ThreadList = 0, next_in_ThreadList = 0\<rparr>"

definition example_kernel :: "(u64 \<Rightarrow> kthread) \<Rightarrow> u64 \<Rightarrow> u64 \<Rightarrow> u64 \<Rightarrow> kernel_state" where
  "example_kernel m first final current =
     \<lparr>threads = m, joins = (\<lambda>_. \<lparr>child = 0, jnext = 0\<rparr>), kmem = (\<lambda>_. 0),
      kheap = \<lparr>vm = example_bump, heap_base = 0, heap_last = 0,
               blocks = (\<lambda>_. \<lparr>mb_next = 0, mb_size = 0, mb_free = 0\<rparr>)\<rparr>,
      runQueue = \<lparr>q_head = first, q_tail = final\<rparr>, allThreadList = \<lparr>q_head = 0, q_tail = 0\<rparr>,
      currentThread = current, ptable = replicate 100 0, nextFreePid = 0, is_scheduler_on = False,
      interrupts = True, tss_rsp0 = 0\<rparr>"

text \<open>Threads 8 (asleep) and 16 (ready) in the run queue.\<close>

definition example_threads :: "u64 \<Rightarrow> kthread" where
  "example_threads =
     (\<lambda>_. example_thread)(8 := example_thread\<lparr>sleeping := 3, next_in_ThreadQ := 16\<rparr>,
                         16 := example_thread\<lparr>prev_in_ThreadQ := 8\<rparr>)"

lemma example_queue: "run_queue (example_kernel example_threads 8 16 24) [8, 16]"
  by (simp add: run_queue_def dlq_def example_kernel_def example_threads_def link_defs example_thread_def)

section \<open>Properties\<close>

text \<open>The switch to \<open>p\<close>: the old thread keeps its stack pointer, and the stack of the TSS and the page tables are those of \<open>p\<close>.\<close>

definition switched :: "u64 \<Rightarrow> u64 \<Rightarrow> kernel_state \<Rightarrow> kernel_state" where
  "switched frame p s =
     s\<lparr>threads := (threads s)(currentThread s := threads s (currentThread s)\<lparr>rsp := frame\<rparr>), currentThread := p,
       kheap := kheap s\<lparr>vm := vm (kheap s)\<lparr>cr3 := pcr3 (threads s p)\<rparr>\<rparr>,
       tss_rsp0 := (if kernel_thread (threads s p) = 0 then kstack (threads s p) else tss_rsp0 s), interrupts := True\<rparr>"

lemma same_but_runI:
  "s' = s\<lparr>threads := \<lambda>p. threads s p\<lparr>prev_in_ThreadQ := f p, next_in_ThreadQ := g p\<rparr>, runQueue := q\<rparr> \<Longrightarrow> same_but_run s s'"
  by (simp add: same_but_run_def link_defs [abs_def])

lemma same_but_run_trans: "same_but_run r s \<Longrightarrow> same_but_run s t \<Longrightarrow> same_but_run r t"
  by (elim same_but_runE, rule same_but_runI) simp

lemma same_but_run_switched:
  assumes "same_but_run s t" and "p \<noteq> 0" and "currentThread s \<noteq> 0"
  shows "\<exists>u. Switch_To_Thread frame p t = Inr u \<and> same_but_run (switched frame p s) (enable_interrupts u)"
proof -
  obtain f g q where t: "t = s\<lparr>threads := \<lambda>p. threads s p\<lparr>prev_in_ThreadQ := f p, next_in_ThreadQ := g p\<rparr>, runQueue := q\<rparr>"
    using assms(1) by (rule same_but_runE)
  let ?c = "currentThread s"
  have "(threads t)(?c := threads t ?c\<lparr>rsp := frame\<rparr>) =
      (\<lambda>p. ((threads s)(?c := threads s ?c\<lparr>rsp := frame\<rparr>)) p\<lparr>prev_in_ThreadQ := f p, next_in_ThreadQ := g p\<rparr>)"
    by (simp add: t fun_eq_iff)
  then have "\<exists>u. Switch_To_Thread frame p t = Inr u \<and> enable_interrupts u =
      (switched frame p s)\<lparr>threads := \<lambda>q. threads (switched frame p s) q\<lparr>prev_in_ThreadQ := f q, next_in_ThreadQ := g q\<rparr>, runQueue := q\<rparr>"
    using assms(2,3)
    by (simp add: t Switch_To_Thread_def get_thread_def upd_thread_def Let_def switched_def enable_interrupts_def)
  then show ?thesis using same_but_runI by blast
qed

lemma Yield_switched:
  assumes "Yield frame s = Inr s'" and "currentThread s \<noteq> 0"
  shows "same_but_run (switched frame (currentThread s') s) s'"
proof -
  obtain t u p where t: "append_run_queue (currentThread s) (s\<lparr>interrupts := False\<rparr>) = Inr t"
    and u: "next_runnable_kthread (t\<lparr>interrupts := False\<rparr>) = Inr (u, p)" "p \<noteq> 0"
    and s': "rbind (Switch_To_Thread frame p u) (\<lambda>s. Inr (enable_interrupts s)) = Inr s'"
    using assms(1)
    by (auto simp: Yield_def Schedule_def Let_def runnable_kthread_def Get_Current_def disable_interrupts_def
        enable_interrupts_def split: if_splits elim!: rbind_InrE)
  have "same_but_run (t\<lparr>interrupts := False\<rparr>) u"
    using u(1) remove_runnable_frame by (auto simp: next_runnable_kthread_def split: option.splits if_splits elim!: rbind_InrE)
  moreover have "same_but_run (s\<lparr>interrupts := False\<rparr>) (t\<lparr>interrupts := False\<rparr>)"
    proof -
    from append_run_queue_frame [OF t] obtain f g q where
      "t = s\<lparr>interrupts := False, threads := \<lambda>p. threads s p\<lparr>prev_in_ThreadQ := f p, next_in_ThreadQ := g p\<rparr>, runQueue := q\<rparr>"
      by (elim same_but_runE) simp
    then show ?thesis by (intro same_but_runI [where f = f and g = g and q = q]) simp
  qed
  ultimately have "same_but_run (s\<lparr>interrupts := False\<rparr>) u" by (rule same_but_run_trans [rotated])
  from same_but_run_switched [OF this u(2), of frame] assms(2) s'
  have "same_but_run (switched frame p (s\<lparr>interrupts := False\<rparr>)) s'" by auto
  moreover have "switched frame p (s\<lparr>interrupts := False\<rparr>) = switched frame p s" by (simp add: switched_def)
  moreover from calculation(1) have "currentThread s' = p" by (elim same_but_runE) (simp add: switched_def)
  ultimately show ?thesis by simp
qed

text \<open>
  C4. \<open>Yield\<close> puts the running thread at the end of the run queue and runs the first thread of the queue that neither
  sleeps nor is dead: first come, first served, whatever the priorities. It saves the stack pointer of the old thread, loads the
  page tables of the new one and, for a user thread, its stack into the TSS, and enables interrupts. But for this and for the
  links of the run queue the whole state is as before: every other field of every thread, the list of all threads, the process
  table, the heap and the memory.
\<close>

theorem Yield_first_ready:
  assumes "run_queue s xs" and "currentThread s = c" "c \<noteq> 0" "c \<notin> set xs"
    and "find (\<lambda>q. ready (threads s q)) (xs @ [c]) = Some p"
  shows "\<exists>s'. Yield frame s = Inr s' \<and> currentThread s' = p \<and> run_queue s' (remove1 p (xs @ [c])) \<and>
    same_but_run (switched frame p s) s' \<and>
    (\<forall>q. ready (threads s' q) = ready (threads s q)) \<and> all_list s' = all_list s \<and> ptable s' = ptable s"
proof -
  obtain s' where s': "Yield frame s = Inr s'" "currentThread s' = p" "run_queue s' (remove1 p (xs @ [c]))"
      "sched_frame s s'" using Yield_queue [OF assms] by blast
  moreover have "same_but_run (switched frame p s) s'" using Yield_switched [OF s'(1)] s'(2) assms(2,3) by simp
  moreover have "all_list s' = all_list s" using s'(4) by (intro ext) (simp add: all_list_def sched_frame_def)
  ultimately show ?thesis by (simp add: sched_frame_def)
qed

theorem Yield_first_ready_witness:
  "\<exists>s'. Yield 0x5000 (example_kernel example_threads 8 16 24) = Inr s' \<and> currentThread s' = 16 \<and> run_queue s' [8, 24]"
proof -
  let ?s = "example_kernel example_threads 8 16 24"
  have "find (\<lambda>q. ready (threads ?s q)) ([8, 16] @ [24]) = Some 16"
    by (simp add: example_kernel_def example_threads_def example_thread_def ready_def)
  then show ?thesis
    using Yield_first_ready [OF example_queue, of 24 16 "0x5000"] by (auto simp: example_kernel_def)
qed

text \<open>
  No thread starves: a ready thread at position \<open>i\<close> of the run queue runs after at most \<open>i + 1\<close> calls of
  \<open>Yield\<close>, whatever the other threads are.
\<close>

theorem Yield_no_starvation:
  assumes "run_queue s xs" and "currentThread s = c" "c \<noteq> 0" "c \<notin> set xs"
    and "i < length xs" and "ready (threads s (xs ! i))" and "i < length frames"
  shows "\<exists>k\<le>Suc i. \<exists>s'. rfold Yield (take k frames) s = Inr s' \<and> currentThread s' = xs ! i"
  using yields_reach [OF assms] .

theorem Yield_no_starvation_witness:
  "\<exists>k\<le>Suc 1. \<exists>s'. rfold Yield (take k [0x5000, 0x6000]) (example_kernel example_threads 8 16 24) = Inr s' \<and>
     currentThread s' = 16"
  using Yield_no_starvation [OF example_queue, of 24 1 "[0x5000, 0x6000]"]
  by (auto simp: example_kernel_def example_threads_def example_thread_def ready_def)

text \<open>
  When no thread of the run queue is ready, \<open>Schedule\<close> ends in the kernel's panic: there is no idle
  thread to fall back on.
\<close>

theorem Schedule_nothing_ready:
  assumes "run_queue s xs" and "\<forall>q\<in>set xs. \<not> ready (threads s q)"
  shows "Schedule frame s = Inl Halt"
proof -
  let ?s = "s\<lparr>interrupts := False\<rparr>"
  have "find (\<lambda>q. ready (threads ?s q)) xs = None" using assms(2) by (simp add: find_None_iff)
  then have "find_ready (threads ?s) (q_head (runQueue ?s)) = Some 0"
    using find_ready_queue [of ?s xs] assms(1) by simp
  then show ?thesis by (simp add: Schedule_def disable_interrupts_def next_runnable_kthread_def)
qed

theorem Schedule_nothing_ready_witness:
  "Schedule 0x5000 (example_kernel (example_threads(16 := example_thread\<lparr>prev_in_ThreadQ := 8, alive := False\<rparr>)) 8 16 24) =
     Inl Halt"
proof -
  let ?s = "example_kernel (example_threads(16 := example_thread\<lparr>prev_in_ThreadQ := 8, alive := False\<rparr>)) 8 16 24"
  have "run_queue ?s [8, 16]"
    by (simp add: run_queue_def dlq_def example_kernel_def example_threads_def link_defs example_thread_def)
  then show ?thesis using Schedule_nothing_ready [of ?s "[8, 16]" "0x5000"]
    by (simp add: example_kernel_def example_threads_def example_thread_def ready_def)
qed

text \<open>
  C29. \<open>start_kthread\<close>, when the two pages it needs can be had, makes a thread that is ready, stands at the end
  of the run queue and of the list of all threads, and is the entry of the process table at its pid, the
  next pid in order. The order of all the other threads is kept.
\<close>

theorem start_kthread_ready:
  assumes "vmmgr_alloc_page 0 (vm (kheap s)) = (v, k)" "k \<noteq> 0" "vmmgr_alloc_page 0 v = (v', sp)" "sp \<noteq> 0"
    and "run_queue s xs" "all_list s ys" "k \<notin> set xs" "k \<notin> set ys"
    and "0 \<le> nextFreePid s + 1" "nextFreePid s + 1 < int (length (ptable s))"
  shows "\<exists>s'. start_kthread exit_fun launch_fun startFunc nm arg prio detached s = Inr (s', k) \<and>
    run_queue s' (xs @ [k]) \<and> all_list s' (ys @ [k]) \<and> ready (threads s' k) \<and>
    pid (threads s' k) = nextFreePid s + 1 \<and> ptable s' = (ptable s)[nat (nextFreePid s + 1) := k] \<and>
    nextFreePid s' = nextFreePid s + 1 \<and> currentThread s' = currentThread s"
  by (rule start_kthread_Inr [OF assms])

theorem start_kthread_ready_witness:
  "\<exists>s'. start_kthread 1 2 3 4 5 5 True (example_kernel example_threads 8 16 24) = Inr (s', 0x401000) \<and>
     run_queue s' [8, 16, 0x401000]"
proof -
  let ?s = "example_kernel example_threads 8 16 24"
  obtain v v' where "vmmgr_alloc_page 0 (vm (kheap ?s)) = (v, 0x401000)" "vmmgr_alloc_page 0 v = (v', 0x402000)"
    by (simp add: example_kernel_def vmmgr_alloc_page_def Let_def)
  moreover have "all_list ?s []" by (simp add: example_kernel_def all_list_def)
  ultimately show ?thesis
    using start_kthread_ready [of ?s v "0x401000" v' "0x402000" "[8, 16]" "[]" 1 2 3 4 5 5 True] example_queue
    by (auto simp: example_kernel_def)
qed

text \<open>
  \<open>thread_cleanup\<close> of a thread that is in the run queue and has no parent takes exactly this thread out of
  the run queue and of the list of all threads.
\<close>

theorem thread_cleanup_removes:
  assumes "run_queue s xs" "all_list s ys" "k \<in> set xs" "k \<in> set ys" "parent (threads s k) = 0"
  shows "\<exists>s'. thread_cleanup k s = Inr s' \<and> run_queue s' (remove1 k xs) \<and> all_list s' (remove1 k ys)"
proof -
  obtain t where "remove_runnable_kthread k s = Inr t" "run_queue t (remove1 k xs)"
    using rq.remove_queue [of s xs k] assms(1,3) by (auto simp: run_queue_def)
  then show ?thesis using thread_cleanup_orphan assms(2,4,5) by metis
qed

theorem thread_cleanup_removes_witness:
  "\<exists>s'. thread_cleanup 16 ((example_kernel example_threads 8 16 24)\<lparr>allThreadList := \<lparr>q_head = 16, q_tail = 16\<rparr>\<rparr>) = Inr s' \<and>
     run_queue s' [8]"
proof -
  let ?s = "(example_kernel example_threads 8 16 24)\<lparr>allThreadList := \<lparr>q_head = 16, q_tail = 16\<rparr>\<rparr>"
  have "run_queue ?s [8, 16]" "all_list ?s [16]" "parent (threads ?s 16) = 0"
    by (simp_all add: run_queue_def all_list_def dlq_def example_kernel_def example_threads_def link_defs example_thread_def)
  from thread_cleanup_removes [OF this(1,2) _ _ this(3)] show ?thesis by auto
qed

text \<open>
  \<open>thread_cleanup\<close> of the running thread can lose the run queue. The running thread is in no queue, but
  keeps the links it had when it was chosen. If it was alone in the run queue then, the threads that have
  been queued since are all dropped.
\<close>

theorem exit_drops_run_queue:
  assumes "run_queue s [c]" "ready (threads s c)" "currentThread s \<noteq> 0"
    and "all_list s ys" "c \<in> set ys" "parent (threads s c) = 0" and "n \<noteq> 0" "n \<noteq> c"
  shows "\<exists>s1 s2 s3. Schedule frame s = Inr s1 \<and> currentThread s1 = c \<and> append_run_queue n s1 = Inr s2 \<and>
    run_queue s2 [n] \<and> thread_cleanup c s2 = Inr s3 \<and> run_queue s3 []"
proof -
  have l: "next_in_ThreadQ (threads s c) = 0" "prev_in_ThreadQ (threads s c) = 0" "q_head (runQueue s) = c" "c \<noteq> 0"
    using assms(1) by (auto simp: run_queue_def dlq_def link_defs)
  have "\<exists>s1. Schedule frame s = Inr s1 \<and> currentThread s1 = c \<and> runQueue s1 = \<lparr>q_head = 0, q_tail = 0\<rparr> \<and>
      threads s1 = (threads s)(currentThread s := threads s (currentThread s)\<lparr>rsp := frame\<rparr>) \<and>
      allThreadList s1 = allThreadList s"
    using l assms(2,3)
    by (simp add: Schedule_def next_runnable_kthread_def find_ready.simps [of _ c] ready_def disable_interrupts_def
        enable_interrupts_def remove_runnable_kthread_def get_thread_def upd_thread_def Switch_To_Thread_def Let_def)
  then obtain s1 where s1: "Schedule frame s = Inr s1" "currentThread s1 = c" "runQueue s1 = \<lparr>q_head = 0, q_tail = 0\<rparr>"
      "threads s1 = (threads s)(currentThread s := threads s (currentThread s)\<lparr>rsp := frame\<rparr>)"
      "allThreadList s1 = allThreadList s" by blast
  have "all_next s1 = all_next s" "all_prev s1 = all_prev s" using s1(4) by (simp_all add: link_defs fun_eq_iff)
  then have a1: "all_list s1 ys" using assms(4) s1(5) by (simp add: all_list_def)
  let ?s2 = "s1\<lparr>threads := (threads s1)(n := threads s1 n\<lparr>next_in_ThreadQ := 0, prev_in_ThreadQ := 0\<rparr>),
    runQueue := \<lparr>q_head = n, q_tail = n\<rparr>\<rparr>"
  have s2: "append_run_queue n s1 = Inr ?s2" "run_queue ?s2 [n]"
    using s1(3) assms(7) by (simp_all add: append_run_queue_def upd_thread_def run_queue_def dlq_def link_defs)
  have c: "remove_runnable_kthread c ?s2 = Inr (?s2\<lparr>runQueue := \<lparr>q_head = 0, q_tail = 0\<rparr>\<rparr>)" "parent (threads ?s2 c) = 0"
    using l s1(4) assms(6,8) by (auto simp: remove_runnable_kthread_def get_thread_def)
  have "all_list ?s2 ys" using all_list_frame [OF append_run_queue_frame [OF s2(1)]] a1 by simp
  moreover have "run_queue (?s2\<lparr>runQueue := \<lparr>q_head = 0, q_tail = 0\<rparr>\<rparr>) []" by (simp add: run_queue_def)
  ultimately show ?thesis using thread_cleanup_orphan [OF c(1) _ assms(5) c(2)] s1(1,2) s2 by metis
qed

theorem exit_drops_run_queue_witness:
  "\<exists>s1 s2 s3. Schedule 0x5000 ((example_kernel (\<lambda>_. example_thread) 16 16 24)\<lparr>allThreadList := \<lparr>q_head = 16, q_tail = 16\<rparr>\<rparr>) = Inr s1 \<and>
     append_run_queue 32 s1 = Inr s2 \<and> run_queue s2 [32] \<and> thread_cleanup 16 s2 = Inr s3 \<and> run_queue s3 []"
proof -
  let ?s = "(example_kernel (\<lambda>_. example_thread) 16 16 24)\<lparr>allThreadList := \<lparr>q_head = 16, q_tail = 16\<rparr>\<rparr>"
  have "run_queue ?s [16]" "all_list ?s [16]" "parent (threads ?s 16) = 0" "ready (threads ?s 16)" "currentThread ?s \<noteq> 0"
    by (simp_all add: run_queue_def all_list_def dlq_def example_kernel_def link_defs example_thread_def ready_def)
  from exit_drops_run_queue [OF this(1,4,5,2) _ this(3), of 32 "0x5000"] show ?thesis by auto
qed

text \<open>
  The stack \<open>setup_kthread\<close> builds is the one \<open>Switch_To_Thread\<close> unwinds: from the saved stack pointer up, the
  fifteen general registers and two further words, all zero, then the \<open>iretq\<close> frame that enters
  \<open>launch_fun\<close> on the kernel's segments with the stack pointer at the words above the frame, and there the start
  function, to which \<open>launch_fun\<close> returns, the exit function, to which that one returns, and its argument.
\<close>

theorem setup_kthread_frame:
  assumes "k \<noteq> 0"
  shows "\<exists>s'. setup_kthread exit_fun launch_fun k startFunc arg s = Inr s' \<and>
    (let r = rsp (threads s' k) in
       r = rsp (threads s k) - 200 \<and> (\<forall>i<17. kmem s' (r + 8 * of_nat i) = 0) \<and>
       kmem s' (r + 136) = launch_fun \<and> kmem s' (r + 144) = KERN_CS \<and> kmem s' (r + 152) = 0 \<and>
       kmem s' (r + 160) = r + 176 \<and> kmem s' (r + 168) = KERN_DS \<and>
       kmem s' (r + 176) = startFunc \<and> kmem s' (r + 184) = exit_fun \<and> kmem s' (r + 192) = ucast arg)"
proof -
  let ?r = "rsp (threads s k)" let ?vs = "initial_stack exit_fun launch_fun startFunc arg ?r"
  define m where "m = pushed (kmem s) ?r ?vs"
  have len: "length ?vs = 25" by (simp add: initial_stack_def)
  have m: "m (?r - 8 * of_nat (Suc i)) = ?vs ! i" if "i < 25" for i
    unfolding m_def using that len by (intro pushed_nth) simp_all
  have zero: "m (?r - 200 + 8 * of_nat i) = 0" if "i < 17" for i
  proof -
    have "?r - 200 + 8 * of_nat i = ?r - 8 * of_nat (Suc (24 - i))"
      using that by (simp add: of_nat_diff algebra_simps)
    moreover have "?vs ! (24 - i) = 0" using that 
      by (cases "i = 16"; cases "i = 15") (simp_all add: initial_stack_def nth_append)
    ultimately show ?thesis using m [of "24 - i"] by (simp only:)
  qed
  show ?thesis
    unfolding setup_kthread_pushes [OF assms] pushes [OF assms] m_def [symmetric] Let_def len
    using zero m [of 7] m [of 6] m [of 5] m [of 4] m [of 3] m [of 2] m [of 1] m [of 0]
    by (simp add: initial_stack_def)
qed

theorem setup_kthread_frame_witness:
  "\<exists>s'. setup_kthread 1 2 16 3 5 (example_kernel (\<lambda>_. example_thread\<lparr>rsp := 0x9000\<rparr>) 16 16 24) = Inr s' \<and>
     rsp (threads s' 16) = 0x8F38 \<and> kmem s' 0x8FC0 = 2 \<and> kmem s' 0x8FD8 = 0x8FE8 \<and> kmem s' 0x8FE8 = 3"
  using setup_kthread_frame [of 16 1 2 3 5 "example_kernel (\<lambda>_. example_thread\<lparr>rsp := 0x9000\<rparr>) 16 16 24"]
  by (auto simp: example_kernel_def Let_def)

end
