(* ===== verification/Std_Fns.thy ===== *)
theory Std_Fns
  imports Prelude
begin

text \<open>
  The strings and numbers of \<open>sys/stdfns.c\<close>. A pointer to a string is the list of the bytes from there to the
  end of the object it points into, so that reading on without finding the terminator is a fault.
\<close>

section \<open>Operations\<close>

fun strlen_loop :: "u8 list \<Rightarrow> int \<Rightarrow> int res" where
  "strlen_loop [] len = Inl OutOfBounds"
| "strlen_loop (c # cs) len = (if c \<noteq> 0 then strlen_loop cs (len + 1) else Inr len)"

definition strlen :: "u8 list \<Rightarrow> int res" where
  "strlen s = strlen_loop s 0"

definition strncpy :: "u8 list \<Rightarrow> u8 list \<Rightarrow> u32 \<Rightarrow> u8 list res" where
  "strncpy dest src sz =
     rfold (\<lambda>i d. rbind (arr_get src (int i)) (\<lambda>c. arr_set d (int i) c)) [0..<unat sz] dest"

definition memcpy :: "u8 list \<Rightarrow> u8 list \<Rightarrow> u32 \<Rightarrow> u8 list res" where
  "memcpy dest src n =
     rfold (\<lambda>i d. rbind (arr_get src (int i)) (\<lambda>c. arr_set d (int i) c)) [0..<unat n] dest"

fun strcmp_loop :: "u8 list \<Rightarrow> u8 list \<Rightarrow> int res" where
  "strcmp_loop [] b = Inl OutOfBounds"
| "strcmp_loop (x # a) b =
     (if x \<noteq> 0 then
        case b of [] \<Rightarrow> Inl OutOfBounds | y # b \<Rightarrow> if x = y then strcmp_loop a b else Inr 1
      else Inr 0)"

definition strcmp :: "u8 list \<Rightarrow> u8 list \<Rightarrow> int res" where
  "strcmp a b =
     rbind (strlen a) (\<lambda>len1.
     rbind (strlen b) (\<lambda>len2.
     if len1 \<noteq> len2 then Inr 1 else strcmp_loop a b))"

text \<open>The pointer found, or NULL.\<close>

fun strchr :: "u8 list \<Rightarrow> u8 \<Rightarrow> u8 list option res" where
  "strchr [] c = Inl OutOfBounds"
| "strchr (x # s) c = (if x \<noteq> c then if x = 0 then Inr None else strchr s c else Inr (Some (x # s)))"

fun strcpsn_loop :: "u8 list \<Rightarrow> u8 list \<Rightarrow> int \<Rightarrow> int res" where
  "strcpsn_loop [] s2 ret = Inl OutOfBounds"
| "strcpsn_loop (c # s1) s2 ret =
     (if c \<noteq> 0 then
        rbind (strchr s2 c) (\<lambda>r. if r \<noteq> None then Inr ret else strcpsn_loop s1 s2 (ret + 1))
      else Inr ret)"

definition strcpsn :: "u8 list \<Rightarrow> u8 list \<Rightarrow> int res" where
  "strcpsn s1 s2 = strcpsn_loop s1 s2 0"

text \<open>
  \<open>convert\<close> fills the static buffer of 65 bytes from its end. The counter is the number of bytes left below
  \<open>ptr\<close>, the accumulator the bytes from \<open>ptr\<close> on.
\<close>

definition digit_chars :: "u8 list" where
  "digit_chars = [48, 49, 50, 51, 52, 53, 54, 55, 56, 57, 97, 98, 99, 100, 101, 102, 0]"

fun convert_loop :: "nat \<Rightarrow> u64 \<Rightarrow> u64 \<Rightarrow> u8 list \<Rightarrow> u8 list res" where
  "convert_loop 0 num b acc = Inl OutOfBounds"
| "convert_loop (Suc below) num b acc =
     (if b = 0 then Inl DivByZero
      else rbind (arr_get digit_chars (uint (num mod b))) (\<lambda>c.
        if num div b \<noteq> 0 then convert_loop below (num div b) b (c # acc) else Inr (c # acc)))"

definition convert :: "u64 \<Rightarrow> int \<Rightarrow> u8 list res" where
  "convert num b = convert_loop 64 num (u64_of_int b) [0]"

text \<open>The index of the loops of \<open>my_atoi\<close> and \<open>my_atool\<close> is a \<open>uint16_t\<close>, the characters are signed.\<close>

partial_function (option) atoi_loop :: "u32 \<Rightarrow> u8 list \<Rightarrow> u16 \<Rightarrow> u32 \<Rightarrow> u32 res option" where
  "atoi_loop b str i r =
     (case arr_get str (uint i) of
        Inl e \<Rightarrow> Some (Inl e)
      | Inr c \<Rightarrow> if c \<noteq> 0 then atoi_loop b str (i + 1) (r * b + word_of_int (sint c - 48)) else Some (Inr r))"

definition my_atoi :: "u8 list \<Rightarrow> u32 res" where
  "my_atoi str = (case atoi_loop 10 str 0 0 of None \<Rightarrow> Inl Halt | Some r \<Rightarrow> r)"

definition my_atool :: "u8 list \<Rightarrow> u32 res" where
  "my_atool str = (case atoi_loop 8 str 0 0 of None \<Rightarrow> Inl Halt | Some r \<Rightarrow> r)"

section \<open>Strings\<close>

text \<open>The text of a terminated string.\<close>

definition cstring :: "u8 list \<Rightarrow> u8 list" where
  "cstring s = takeWhile (\<lambda>c. c \<noteq> 0) s"

lemma strlen_loop_Inr: "0 \<in> set s \<Longrightarrow> strlen_loop s n = Inr (n + int (length (cstring s)))"
  by (induction s n rule: strlen_loop.induct) (auto simp: cstring_def)

lemma strlen_Inr: "0 \<in> set s \<Longrightarrow> strlen s = Inr (int (length (cstring s)))"
  by (simp add: strlen_def strlen_loop_Inr)

lemma strlen_loop_Inl: "0 \<notin> set s \<Longrightarrow> strlen_loop s n = Inl OutOfBounds"
  by (induction s n rule: strlen_loop.induct) auto

lemma strcmp_loop_Inr:
  "0 \<in> set a \<Longrightarrow> 0 \<in> set b \<Longrightarrow> length (cstring a) = length (cstring b) \<Longrightarrow>
     strcmp_loop a b = Inr (if cstring a = cstring b then 0 else 1)"
proof (induction a b rule: strcmp_loop.induct)
  case (2 x a b)
  then show ?case by (cases b) (auto simp: cstring_def split: if_splits)
qed simp

lemma strcmp_Inr:
  "0 \<in> set a \<Longrightarrow> 0 \<in> set b \<Longrightarrow> strcmp a b = Inr (if cstring a = cstring b then 0 else 1)"
  by (auto simp: strcmp_def strlen_Inr strcmp_loop_Inr)

lemma copy_loop:
  assumes "k \<le> length src" and "k \<le> length dest"
  shows "rfold (\<lambda>i d. rbind (arr_get src (int i)) (\<lambda>c. arr_set d (int i) c)) [0..<k] dest =
    Inr (take k src @ drop k dest)"
  using assms
proof (induction k)
  case (Suc k)
  have "(take k src @ drop k dest)[k := src ! k] = take (Suc k) src @ drop (Suc k) dest"
    using Suc.prems by (simp add: list_update_append take_Suc_conv_app_nth upd_conv_take_nth_drop)
  then show ?case using Suc by (simp add: rfold_append)
qed simp

lemma strncpy_Inr:
  "unat n \<le> length src \<Longrightarrow> unat n \<le> length dest \<Longrightarrow> strncpy dest src n = Inr (take (unat n) src @ drop (unat n) dest)"
  by (simp add: strncpy_def copy_loop)

lemma memcpy_Inr:
  "unat n \<le> length src \<Longrightarrow> unat n \<le> length dest \<Longrightarrow> memcpy dest src n = Inr (take (unat n) src @ drop (unat n) dest)"
  by (simp add: memcpy_def copy_loop)

lemma strchr_Inr:
  "0 \<in> set s \<Longrightarrow> c \<noteq> 0 \<Longrightarrow>
     strchr s c = Inr (if c \<in> set (cstring s) then Some (dropWhile (\<lambda>x. x \<noteq> c) s) else None)"
  by (induction s c rule: strchr.induct) (auto simp: cstring_def)

lemma strcpsn_loop_Inr:
  "0 \<in> set s1 \<Longrightarrow> 0 \<in> set s2 \<Longrightarrow>
     strcpsn_loop s1 s2 n = Inr (n + int (length (takeWhile (\<lambda>c. c \<notin> set (cstring s2)) (cstring s1))))"
proof (induction s1 s2 n rule: strcpsn_loop.induct)
  case (2 c s1 s2 ret)
  then show ?case by (cases "c = 0") (auto simp: cstring_def strchr_Inr)
qed simp

section \<open>Numbers\<close>

text \<open>The digits of a number, most significant first, and their value.\<close>

function digits :: "nat \<Rightarrow> nat \<Rightarrow> nat list" where
  "digits b n = (if n < b \<or> b < 2 then [n] else digits b (n div b) @ [n mod b])"
  by pat_completeness auto
termination by (relation "measure snd") (auto intro: div_less_dividend)

declare digits.simps [simp del]

definition digits_value :: "nat \<Rightarrow> nat list \<Rightarrow> nat" where
  "digits_value b ds = foldl (\<lambda>r d. r * b + d) 0 ds"

lemma digits_value: "2 \<le> b \<Longrightarrow> digits_value b (digits b n) = n"
proof (induction b n rule: digits.induct)
  case (1 b n)
  then show ?case
    by (cases "n < b") (simp_all add: digits.simps [of b n] digits_value_def)
qed

lemma digits_less: "2 \<le> b \<Longrightarrow> d \<in> set (digits b n) \<Longrightarrow> d < b"
proof (induction b n rule: digits.induct)
  case (1 b n)
  then show ?case by (auto simp: digits.simps [of b n] split: if_splits)
qed

lemma digits_length: "2 \<le> b \<Longrightarrow> n < b ^ k \<Longrightarrow> 0 < k \<Longrightarrow> length (digits b n) \<le> k"
proof (induction b n arbitrary: k rule: digits.induct)
  case (1 b n)
  show ?case
  proof (cases "n < b")
    case False
    then have "1 < k" using "1.prems" by (cases "k = 1") auto
    have "b ^ k = b ^ (k - 1) * b" using "1.prems"(3) by (cases k) simp_all
    then have "n div b < b ^ (k - 1)" using "1.prems" by (simp add: less_mult_imp_div_less)
    then have "length (digits b (n div b)) \<le> k - 1" using "1.prems" \<open>1 < k\<close> False by (intro "1.IH") simp_all
    then show ?thesis using "1.prems" False \<open>1 < k\<close> by (simp add: digits.simps [of b n])
  qed (use 1 in \<open>simp add: digits.simps [of b n]\<close>)
qed

definition digit_text :: "nat \<Rightarrow> nat \<Rightarrow> u8 list" where
  "digit_text b n = map (\<lambda>d. digit_chars ! d) (digits b n)"

lemma convert_loop_Inr:
  assumes "2 \<le> unat b" and "unat b \<le> 16"
  shows "length (digits (unat b) (unat num)) \<le> below \<Longrightarrow>
    convert_loop below num b acc = Inr (digit_text (unat b) (unat num) @ acc)"
proof (induction below arbitrary: num acc)
  case 0
  then show ?case by (simp add: digits.simps [of "unat b" "unat num"] split: if_splits)
next
  case (Suc below)
  have b: "b \<noteq> 0" using assms(1) by auto
  have "unat num mod unat b < unat b" using assms(1) by simp
  then have "unat (num mod b) < length digit_chars" using assms(2) by (simp add: digit_chars_def unat_mod_distrib)
  moreover have "uint (num mod b) = int (unat (num mod b))" by simp
  ultimately have get: "arr_get digit_chars (uint (num mod b)) = Inr (digit_chars ! (unat num mod unat b))"
    using arr_get_nat [of "unat (num mod b)" digit_chars] by (simp only: unat_mod_distrib)
  have z: "num div b \<noteq> 0 \<longleftrightarrow> \<not> unat num < unat b"
    using assms(1) by (auto simp: word_unat_eq_iff unat_div_distrib div_greater_zero_iff)
  show ?case
  proof (cases "unat num < unat b")
    case True
    then show ?thesis using b get z by (simp add: digit_text_def digits.simps [of "unat b" "unat num"])
  next
    case False
    then show ?thesis using Suc assms b get z
      by (simp add: digit_text_def digits.simps [of "unat b" "unat num"] unat_div_distrib)
  qed
qed

lemma convert_Inr:
  assumes "2 \<le> b" and "b \<le> 16"
  shows "convert num b = Inr (digit_text (nat b) (unat num) @ [0])"
proof -
  have b: "unat (u64_of_int b) = nat b" 
  proof -
    have "u64_of_int b = of_nat (nat b)" using u64_of_int_nat [of "nat b"] assms by (simp only: nat_0_le order_trans zero_le_numeral)
    then show ?thesis using assms by (simp only: unat_of_nat) simp
  qed
  have "unat num < 2 ^ 64" using unsigned_less [of num] by simp
  also have "\<dots> \<le> nat b ^ 64" using assms by (intro power_mono) simp_all
  finally have "length (digits (nat b) (unat num)) \<le> 64" using assms by (intro digits_length) simp_all
  then show ?thesis using convert_loop_Inr [of "u64_of_int b" num 64 "[0]"] assms b by (simp add: convert_def)
qed

lemma atoi_loop_digits:
  assumes "\<forall>d\<in>set ds. d < 10" and "length pre + length ds < 65535"
  shows "atoi_loop b (pre @ map (\<lambda>d. digit_chars ! d) ds @ 0 # rest) (of_nat (length pre)) r =
    Some (Inr (foldl (\<lambda>r d. r * b + of_nat d) r ds))"
  using assms
proof (induction ds arbitrary: pre r)
  case Nil
  have "uint (of_nat (length pre) :: u16) = int (length pre)" using Nil by (simp add: unsigned_of_nat take_bit_nat_eq_self uint_nat)
  then show ?case by (simp add: atoi_loop.simps [of b _ "of_nat (length pre)"])
next
  case (Cons d ds)
  have i: "uint (of_nat (length pre) :: u16) = int (length pre)" using Cons.prems by (simp add: unsigned_of_nat take_bit_nat_eq_self uint_nat)
  have "d < 10" using Cons.prems by simp
  then have "d = 0 \<or> d = 1 \<or> d = 2 \<or> d = 3 \<or> d = 4 \<or> d = 5 \<or> d = 6 \<or> d = 7 \<or> d = 8 \<or> d = 9" by presburger
  then have "digit_chars ! d \<noteq> 0 \<and> sint (digit_chars ! d) - 48 = int d"
    by (elim disjE) (simp_all add: digit_chars_def)
  then show ?case
    using Cons.IH [of "pre @ [digit_chars ! d]" "r * b + of_nat d"] Cons.prems i
    by (simp add: atoi_loop.simps [of b _ "of_nat (length pre)"] add.commute)
qed

lemma foldl_digits_value:
  "foldl (\<lambda>r d. r * of_nat b + of_nat d) (of_nat r :: u32) ds = of_nat (foldl (\<lambda>r d. r * b + d) r ds)"
  by (induction ds arbitrary: r) (simp_all flip: of_nat_mult of_nat_add)

lemma atoi_loop_text:
  assumes "2 \<le> b" and "b \<le> 10" and "n < 2 ^ 32"
  shows "atoi_loop (of_nat b) (digit_text b n @ [0]) 0 0 = Some (Inr (of_nat n))"
proof -
  have "n < b ^ 32" using assms(3) power_mono [OF assms(1), of 32] by simp
  then have "length (digits b n) \<le> 32" using assms by (intro digits_length) simp_all
  moreover have "\<forall>d\<in>set (digits b n). d < 10" using digits_less [OF assms(1)] assms(2) by fastforce
  ultimately show ?thesis
    using atoi_loop_digits [of "digits b n" "[]" "of_nat b" "[]" 0] foldl_digits_value [of b 0 "digits b n"] digits_value [OF assms(1), of n]
    by (simp add: digit_text_def digits_value_def)
qed

section \<open>Properties\<close>

text \<open>
  \<open>convert\<close> prints every number in every base from 2 to 16 without leaving its buffer: the result is the
  digits of the number, most significant first.
\<close>

theorem convert_digits:
  assumes "2 \<le> b" and "b \<le> 16"
  shows "convert num b = Inr (map (\<lambda>d. digit_chars ! d) (digits (nat b) (unat num)) @ [0]) \<and>
    digits_value (nat b) (digits (nat b) (unat num)) = unat num"
  using convert_Inr [OF assms] digits_value [of "nat b"] assms by (simp add: digit_text_def)

theorem convert_digits_witness:
  "convert 0xB8000 16 = Inr (map (\<lambda>d. digit_chars ! d) (digits 16 0xB8000) @ [0]) \<and>
   digits_value 16 (digits 16 0xB8000) = 0xB8000"
  using convert_digits [of 16 "0xB8000"] by simp

text \<open>
  \<open>my_atoi\<close> reads back what \<open>convert\<close> prints in base 10, and \<open>my_atool\<close> what it prints in base 8, for every
  32-bit number.
\<close>

theorem convert_atoi:
  "rbind (convert (ucast n) 10) my_atoi = Inr n \<and> rbind (convert (ucast n) 8) my_atool = Inr n"
proof -
  have "unat n < 2 ^ 32" using unsigned_less [of n] by simp
  then have "atoi_loop 10 (digit_text 10 (unat n) @ [0]) 0 0 = Some (Inr n)" "atoi_loop 8 (digit_text 8 (unat n) @ [0]) 0 0 = Some (Inr n)"
    using atoi_loop_text [of 10 "unat n"] atoi_loop_text [of 8 "unat n"] by simp_all
  moreover have "unat (ucast n :: u64) = unat n" by transfer (simp add: take_bit_eq_mod)
  ultimately show ?thesis by (simp add: convert_Inr my_atoi_def my_atool_def)
qed

end
