(* ===== verification/Console.thy ===== *)
theory Console
  imports Std_Fns
begin

text \<open>
  The text screen of \<open>sys/stdfns.c\<close>: \<open>write_char\<close>, \<open>write_string\<close>, \<open>printf\<close>, the cursor with its scrolling, the
  clock line and the line buffer of the keyboard. The video memory is the 25 rows of 80 cells of two
  bytes; \<open>video_memory\<close> is the offset of the pointer of that name from \<open>START_MEMORY\<close>. The bytes sent to the
  ports of the controller are a list.
\<close>

section \<open>State and operations\<close>

record console =
  screen :: "u8 list"
  video_memory :: int
  port_outs :: "(u16 \<times> u8) list"

definition TEXT_COLOR :: u8 where
  "TEXT_COLOR = 0x1F"

definition MAX_ROWS :: nat where
  "MAX_ROWS = 25"

definition MAX_COLUMNS :: nat where
  "MAX_COLUMNS = 80"

definition TIMER_MEMORY :: int where
  "TIMER_MEMORY = 0xF90"

text \<open>Like \<open>TIMER_MEMORY\<close> an offset from \<open>START_MEMORY\<close>, but of the physical address of the screen, outside the memory that is mapped.\<close>

definition KEYBOARD_WARMUP_MEMORY :: int where
  "KEYBOARD_WARMUP_MEMORY = 0xB8F8A - 0xFFFFFFFF80100000"

text \<open>Storing a cell: the character and its colour.\<close>

definition put_cell :: "int \<Rightarrow> u8 \<Rightarrow> u8 \<Rightarrow> u8 list \<Rightarrow> u8 list res" where
  "put_cell v c color m = rbind (arr_set m v c) (\<lambda>m. arr_set m (v + 1) color)"

definition outb :: "u16 \<Rightarrow> u8 \<Rightarrow> console \<Rightarrow> console" where
  "outb p v s = s\<lparr>port_outs := port_outs s @ [(p, v)]\<rparr>"

text \<open>\<open>memcpy\<close> within the video memory, byte by byte upwards.\<close>

definition memcpy_screen :: "int \<Rightarrow> int \<Rightarrow> u32 \<Rightarrow> u8 list \<Rightarrow> u8 list res" where
  "memcpy_screen dest src n m =
     rfold (\<lambda>i m. rbind (arr_get m (src + int i)) (\<lambda>c. arr_set m (dest + int i) c)) [0..<unat n] m"

definition scroll :: "int \<Rightarrow> u8 list \<Rightarrow> u8 list res" where
  "scroll row1 m =
     (let temp_row = row1 - 24 + 1;
          pos = temp_row * 80 * 2
      in rbind (memcpy_screen 0 pos (word_of_int ((24 - temp_row) * 80 * 2)) m) (\<lambda>m.
         rfold (\<lambda>i m. put_cell (23 * 80 * 2 + 2 * int i) 0x20 0 m) [0..<80] m))"

definition set_cursor :: "int \<Rightarrow> int \<Rightarrow> console \<Rightarrow> console" where
  "set_cursor row1 col1 s =
     (let position = (word_of_int (row1 * 80 + col1) :: u16);
          s = outb 0x3D4 0x0F s;
          s = outb 0x3D5 (ucast (position AND 0xFF)) s;
          s = outb 0x3D4 0x0E s
      in outb 0x3D5 (ucast (drop_bit 8 position AND 0xFF)) s)"

definition update_cursor :: "console \<Rightarrow> console res" where
  "update_cursor s =
     (let diff = video_memory s;
          row1 = diff div 80 div 2;
          col1 = ((diff - row1 * 80 * 2) div 2) mod 80
      in if 24 \<le> row1 then
           rbind (scroll row1 (screen s)) (\<lambda>m.
           Inr (set_cursor 23 0 (s\<lparr>screen := m, video_memory := 23 * 80 * 2\<rparr>)))
         else Inr (set_cursor row1 col1 s))"

text \<open>The pointer moved to the start of the next row.\<close>

definition next_row :: "int \<Rightarrow> int" where
  "next_row v = 0xA0 * ((v + 0xA0) div 0xA0)"

definition write_char :: "u8 \<Rightarrow> u8 \<Rightarrow> console \<Rightarrow> console res" where
  "write_char color c s =
     (let video = video_memory s in
      if c = 10 \<or> c = 13 then update_cursor (s\<lparr>video_memory := next_row video\<rparr>)
      else
        rbind (put_cell video c color (screen s)) (\<lambda>m.
        update_cursor (s\<lparr>screen := m, video_memory := video + 2\<rparr>)))"

fun write_string_loop :: "u8 \<Rightarrow> u8 list \<Rightarrow> int \<Rightarrow> u8 list \<Rightarrow> (int \<times> u8 list) res" where
  "write_string_loop color [] video m = Inl OutOfBounds"
| "write_string_loop color (c # cs) video m =
     (if c = 0 then Inr (video, m)
      else if c = 10 then write_string_loop color cs (next_row video) m
      else rbind (put_cell video c color m) (write_string_loop color cs (video + 2)))"

definition write_string :: "u8 \<Rightarrow> u8 list \<Rightarrow> console \<Rightarrow> console res" where
  "write_string color str s =
     rbind (write_string_loop color str (video_memory s) (screen s)) (\<lambda>(v, m).
     update_cursor (s\<lparr>screen := m, video_memory := v\<rparr>))"

text \<open>The variable arguments of \<open>printf\<close>, in the order they are fetched.\<close>

datatype printf_arg = IntArg int | StrArg "u8 list" | AddrArg u64

fun printf_loop :: "u8 list \<Rightarrow> printf_arg list \<Rightarrow> console \<Rightarrow> console res" where
  "printf_loop [] args s = Inl OutOfBounds"
| "printf_loop (c # p) args s =
     (if c = 0 then Inr s
      else if c \<noteq> 37 then rbind (write_char 0x1F c s) (printf_loop p args)
      else case p of
        [] \<Rightarrow> Inl OutOfBounds
      | d # p \<Rightarrow>
          if d = 99 then
            (case args of IntArg i # args \<Rightarrow> rbind (write_char 0x1F (word_of_int i) s) (printf_loop p args) | _ \<Rightarrow> Inl WildPointer)
          else if d = 115 then
            (case args of StrArg t # args \<Rightarrow> rbind (write_string 0x1F t s) (printf_loop p args) | _ \<Rightarrow> Inl WildPointer)
          else if d = 100 then
            (case args of IntArg i # args \<Rightarrow>
               rbind (convert (u64_of_int i) 10) (\<lambda>t. rbind (write_string 0x1F t s) (printf_loop p args))
             | _ \<Rightarrow> Inl WildPointer)
          else if d = 120 then
            (case args of IntArg i # args \<Rightarrow>
               rbind (write_string 0x1F [48, 120, 0] s) (\<lambda>s.
               rbind (convert (u64_of_int i) 16) (\<lambda>t. rbind (write_string 0x1F t s) (printf_loop p args)))
             | _ \<Rightarrow> Inl WildPointer)
          else if d = 112 then
            (case args of AddrArg a # args \<Rightarrow>
               rbind (convert a 16) (\<lambda>t. rbind (write_string 0x1F t s) (printf_loop p args))
             | _ \<Rightarrow> Inl WildPointer)
          else printf_loop p args s)"

definition printf :: "u8 list \<Rightarrow> printf_arg list \<Rightarrow> console \<Rightarrow> (console \<times> int) res" where
  "printf fmt args s = rbind (printf_loop fmt args s) (\<lambda>s. Inr (s, 1))"

definition cls :: "console \<Rightarrow> console res" where
  "cls s =
     rbind (rfold (\<lambda>i. put_cell (2 * int i) 0x20 0) [0..<MAX_ROWS * MAX_COLUMNS] (screen s)) (\<lambda>m.
     update_cursor (s\<lparr>screen := m, video_memory := 0\<rparr>))"

section \<open>The clock and the keyboard\<close>

text \<open>The first character of a printed number.\<close>

definition first_digit :: "u16 \<Rightarrow> u8 res" where
  "first_digit n = rbind (convert (ucast n) 10) (\<lambda>t. arr_get t 0)"

definition put_digit :: "int \<Rightarrow> u16 \<Rightarrow> u8 list \<Rightarrow> u8 list res" where
  "put_digit v n m = rbind (first_digit n) (\<lambda>c. put_cell v c TEXT_COLOR m)"

definition write_time :: "u16 \<Rightarrow> u16 \<Rightarrow> u16 \<Rightarrow> u16 \<Rightarrow> u16 \<Rightarrow> u16 \<Rightarrow> console \<Rightarrow> console res" where
  "write_time su st mu mt hu ht s =
     rbind (put_digit TIMER_MEMORY ht (screen s)) (\<lambda>m.
     rbind (put_digit (TIMER_MEMORY + 2) hu m) (\<lambda>m.
     rbind (put_cell (TIMER_MEMORY + 4) 58 TEXT_COLOR m) (\<lambda>m.
     rbind (put_digit (TIMER_MEMORY + 6) mt m) (\<lambda>m.
     rbind (put_digit (TIMER_MEMORY + 8) mu m) (\<lambda>m.
     rbind (put_cell (TIMER_MEMORY + 10) 58 TEXT_COLOR m) (\<lambda>m.
     rbind (put_digit (TIMER_MEMORY + 12) st m) (\<lambda>m.
     rbind (put_digit (TIMER_MEMORY + 14) su m) (\<lambda>m.
     Inr (s\<lparr>screen := m\<rparr>)))))))))"

definition write_key :: "u8 \<Rightarrow> u8 \<Rightarrow> console \<Rightarrow> console res" where
  "write_key color c s =
     rbind (put_cell KEYBOARD_WARMUP_MEMORY c color (screen s)) (\<lambda>m. Inr (s\<lparr>screen := m\<rparr>))"

text \<open>
  The line that is being read: the array \<open>iobuff\<close>, the pointer \<open>io_buff\<close> into it, as an offset, which is NULL until the first
  read, and the flags \<open>reading\<close> and \<open>first_char\<close>. Nothing but the length of the array bounds the pointer.
\<close>

record line_buffer =
  iobuff :: "u8 list"
  io_buff :: "int option"
  reading :: int
  first_char :: int

definition put_io_buff :: "u8 \<Rightarrow> line_buffer \<Rightarrow> line_buffer res" where
  "put_io_buff c b =
     (case io_buff b of
        None \<Rightarrow> Inl NullPointer
      | Some i \<Rightarrow> rbind (arr_set (iobuff b) i c) (\<lambda>bs. Inr (b\<lparr>iobuff := bs, io_buff := Some (i + 1)\<rparr>)))"

definition write_io_buff :: "u8 \<Rightarrow> line_buffer \<Rightarrow> line_buffer res" where
  "write_io_buff c b =
     rbind (if c = 10 \<or> c = 13
            then if first_char b \<noteq> 0 then rbind (put_io_buff c b) (\<lambda>b. Inr (b\<lparr>reading := 0\<rparr>)) else Inr b
            else put_io_buff c b) (\<lambda>b. Inr (b\<lparr>first_char := 1\<rparr>))"

section \<open>The line buffer\<close>

text \<open>Room for \<open>n\<close> more characters, as long as a line is being read.\<close>

definition line_room :: "nat \<Rightarrow> line_buffer \<Rightarrow> bool" where
  "line_room n b \<longleftrightarrow> (reading b \<noteq> 0 \<longrightarrow> (\<exists>i. io_buff b = Some (int i) \<and> i + n \<le> length (iobuff b)))"

lemma line_room_mono: "line_room n b \<Longrightarrow> m \<le> n \<Longrightarrow> line_room m b"
  by (fastforce simp: line_room_def)

lemma write_io_buff_at:
  assumes "io_buff b = Some (int i)" and "i < length (iobuff b)"
  shows "write_io_buff c b = Inr
    (if c \<in> {10, 13} then
       if first_char b \<noteq> 0
       then b\<lparr>iobuff := (iobuff b)[i := c], io_buff := Some (int (Suc i)), reading := 0, first_char := 1\<rparr>
       else b\<lparr>first_char := 1\<rparr>
     else b\<lparr>iobuff := (iobuff b)[i := c], io_buff := Some (int (Suc i)), first_char := 1\<rparr>)"
  using assms by (simp add: write_io_buff_def put_io_buff_def add.commute)

lemma write_io_buff_room:
  assumes "line_room (Suc n) b" and "reading b \<noteq> 0"
  obtains b' where "write_io_buff c b = Inr b'" and "line_room n b'"
proof -
  obtain i where i: "io_buff b = Some (int i)" "i + Suc n \<le> length (iobuff b)" using assms by (auto simp: line_room_def)
  then have "i < length (iobuff b)" by simp
  note w = write_io_buff_at [OF i(1) this, of c]
  show ?thesis by (rule that [OF w]) (use i in \<open>auto simp: line_room_def intro: exI [of _ "Suc i"]\<close>)
qed

text \<open>An array after characters have been stored one after the other.\<close>

definition filled :: "nat \<Rightarrow> u8 list \<Rightarrow> u8 list \<Rightarrow> u8 list" where
  "filled i cs arr = take i arr @ cs @ drop (i + length cs) arr"

lemma filled_Nil [simp]: "filled i [] arr = arr"
  by (simp add: filled_def)

lemma filled_Cons: "i < length arr \<Longrightarrow> filled (Suc i) cs (arr[i := c]) = filled i (c # cs) arr"
  by (simp add: filled_def take_Suc_conv_app_nth)

lemma length_filled [simp]: "i + length cs \<le> length arr \<Longrightarrow> length (filled i cs arr) = length arr"
  by (simp add: filled_def)

section \<open>The screen stays within its rows\<close>

text \<open>The cursor is on one of the first 24 rows; the last row belongs to the clock.\<close>

definition console_inv :: "console \<Rightarrow> bool" where
  "console_inv s \<longleftrightarrow> length (screen s) = 4000 \<and> 0 \<le> video_memory s \<and> video_memory s < 3840 \<and> even (video_memory s)"

lemma put_cell_Inr:
  "0 \<le> v \<Longrightarrow> v + 1 < int (length m) \<Longrightarrow> put_cell v c color m = Inr (m[nat v := c, nat (v + 1) := color])"
  by (simp add: put_cell_def arr_set_def)

lemma copy_up:
  assumes "k + d \<le> length m" and "0 < d"
  shows "rfold (\<lambda>i m. rbind (arr_get m (int d + int i)) (\<lambda>c. arr_set m (0 + int i) c)) [0..<k] m =
    Inr (take k (drop d m) @ drop k m)"
  using assms
proof (induction k)
  case (Suc k)
  let ?m = "take k (drop d m) @ drop k m"
  have l: "length (take k (drop d m)) = k" "length ?m = length m" using Suc.prems by simp_all
  have "?m ! (d + k) = m ! (d + k)" using l(1) Suc.prems by (simp add: nth_append add.commute)
  then have "arr_get ?m (int d + int k) = Inr (m ! (d + k))" using l Suc.prems by (simp add: arr_get_def nat_add_distrib)
  moreover have "arr_set ?m (0 + int k) (m ! (d + k)) = Inr (take (Suc k) (drop d m) @ drop (Suc k) m)"
    using l Suc.prems
    by (simp add: arr_set_def list_update_append take_Suc_conv_app_nth upd_conv_take_nth_drop)
  ultimately show ?case using Suc by (simp add: rfold_append)
qed simp

lemma blank_row:
  assumes "length m = 4000" and "k \<le> 80"
  shows "rfold (\<lambda>i m. put_cell (23 * 80 * 2 + 2 * int i) 0x20 0 m) [0..<k] m =
    Inr (take 3680 m @ concat (replicate k [0x20, 0]) @ drop (3680 + 2 * k) m)"
  using assms(2)
proof (induction k)
  case (Suc k)
  let ?b = "concat (replicate k [0x20, 0 :: u8])"
  let ?m = "take 3680 m @ ?b @ drop (3680 + 2 * k) m"
  have b: "length ?b = 2 * k" by (induction k) simp_all
  have "length ?m = 4000" using assms(1) Suc.prems b by simp
  then have "put_cell (23 * 80 * 2 + 2 * int k) 0x20 0 ?m = Inr (?m[3680 + 2 * k := 0x20, Suc (3680 + 2 * k) := 0])"
    using Suc.prems by (subst put_cell_Inr) (simp_all add: nat_add_distrib nat_mult_distrib)
  moreover have "?m[3680 + 2 * k := 0x20, Suc (3680 + 2 * k) := 0] =
      take 3680 m @ (?b @ [0x20, 0]) @ drop (3680 + 2 * Suc k) m"
  proof -
    have "drop (3680 + 2 * k) m = m ! (3680 + 2 * k) # m ! Suc (3680 + 2 * k) # drop (3680 + 2 * Suc k) m"
      using Cons_nth_drop_Suc [of "3680 + 2 * k" m] Cons_nth_drop_Suc [of "Suc (3680 + 2 * k)" m] assms(1) Suc.prems by simp
    then show ?thesis using assms(1) b by (simp add: list_update_append)
  qed
  moreover have "?b @ [0x20, 0] = concat (replicate (Suc k) [0x20, 0])" by (simp add: replicate_append_same [symmetric])
  ultimately show ?case using Suc by (simp add: rfold_append)
qed simp

text \<open>Scrolling by one row.\<close>

definition scrolled :: "u8 list \<Rightarrow> u8 list" where
  "scrolled m = take 3680 (drop 160 m) @ concat (replicate 80 [0x20, 0]) @ drop 3840 m"

lemma scroll_24: "length m = 4000 \<Longrightarrow> scroll 24 m = Inr (scrolled m)"
proof -
  assume m: "length m = 4000"
  have "memcpy_screen 0 160 3680 m = Inr (take 3680 (drop 160 m) @ drop 3680 m)"
    using copy_up [of 3680 160 m] m by (simp add: memcpy_screen_def)
  moreover have "rfold (\<lambda>i m. put_cell (23 * 80 * 2 + 2 * int i) 0x20 0 m) [0..<80] (take 3680 (drop 160 m) @ drop 3680 m) =
      Inr (scrolled m)"
    using blank_row [of "take 3680 (drop 160 m) @ drop 3680 m" 80] m by (simp add: scrolled_def)
  ultimately show ?thesis by (simp add: scroll_def)
qed

lemma set_cursor_simps [simp]:
  "screen (set_cursor r c s) = screen s" "video_memory (set_cursor r c s) = video_memory s"
  by (simp_all add: set_cursor_def outb_def Let_def)

lemma length_scrolled [simp]: "length m = 4000 \<Longrightarrow> length (scrolled m) = 4000"
proof -
  have "length (concat (replicate k [0x20, 0 :: u8])) = 2 * k" for k by (induction k) simp_all
  then show "length m = 4000 \<Longrightarrow> length (scrolled m) = 4000" by (simp add: scrolled_def)
qed

text \<open>From a position on one of the first 24 rows or just behind them, the cursor is brought back.\<close>

lemma update_cursor_Inr:
  assumes "length (screen s) = 4000" and "0 \<le> video_memory s" and "video_memory s \<le> 3840"
  shows "\<exists>s'. update_cursor s = Inr s' \<and>
    screen s' = (if video_memory s = 3840 then scrolled (screen s) else screen s) \<and>
    video_memory s' = (if video_memory s = 3840 then 3680 else video_memory s)"
proof (cases "video_memory s = 3840")
  case True
  then show ?thesis using scroll_24 [OF assms(1)] by (simp add: update_cursor_def Let_def)
next
  case False
  then have "video_memory s div 80 div 2 < 24" using assms by linarith
  then show ?thesis using False by (simp add: update_cursor_def Let_def)
qed

lemma next_row_bound: "0 \<le> v \<Longrightarrow> v < 3840 \<Longrightarrow> 0 \<le> next_row v \<and> next_row v \<le> 3840 \<and> even (next_row v)"
  by (auto simp: next_row_def)

definition written :: "u8 \<Rightarrow> u8 \<Rightarrow> int \<Rightarrow> u8 list \<Rightarrow> int \<times> u8 list" where
  "written color c v m = (if c = 10 \<or> c = 13 then (next_row v, m) else (v + 2, m[nat v := c, nat (v + 1) := color]))"

lemma write_char_Inr:
  assumes "console_inv s" and "written color c (video_memory s) (screen s) = (v, m)"
  shows "\<exists>s'. write_char color c s = Inr s' \<and> screen s' = (if v = 3840 then scrolled m else m) \<and>
    video_memory s' = (if v = 3840 then 3680 else v)"
proof -
  have s: "length (screen s) = 4000" "0 \<le> video_memory s" "video_memory s < 3840" "even (video_memory s)"
    using assms(1) by (auto simp: console_inv_def)
  have v: "video_memory s + 2 \<le> 3840" using s(3,4) by presburger
  let ?t = "s\<lparr>screen := m, video_memory := v\<rparr>"
  have "length m = 4000" "0 \<le> v" "v \<le> 3840"
    using assms(2) s v next_row_bound [OF s(2,3)] by (auto simp: written_def split: if_splits)
  then obtain s' where "update_cursor ?t = Inr s'" "screen s' = (if v = 3840 then scrolled m else m)"
      "video_memory s' = (if v = 3840 then 3680 else v)" using update_cursor_Inr [of ?t] by auto
  moreover have "write_char color c s = update_cursor ?t"
    using assms(2) s by (auto simp: write_char_def written_def put_cell_Inr split: if_splits)
  ultimately show ?thesis by auto
qed

lemma drop_scrolled [simp]: "length m = 4000 \<Longrightarrow> drop 3840 (scrolled m) = drop 3840 m"
  using length_scrolled [of m] by (simp add: scrolled_def)

lemma write_char_inv:
  assumes "console_inv s" and "write_char color c s = Inr s'"
  shows "console_inv s' \<and> drop 3840 (screen s') = drop 3840 (screen s)"
proof -
  obtain v m where w: "written color c (video_memory s) (screen s) = (v, m)" by fastforce
  have s: "length (screen s) = 4000" "0 \<le> video_memory s" "video_memory s < 3840" "even (video_memory s)"
    using assms(1) by (auto simp: console_inv_def)
  have "length m = 4000" "0 \<le> v" "v \<le> 3840" "even v" "drop 3840 m = drop 3840 (screen s)"
    using w s next_row_bound [OF s(2,3)] by (auto simp: written_def drop_update_cancel split: if_splits)
  then show ?thesis using write_char_Inr [OF assms(1) w] assms(2) by (auto simp: console_inv_def)
qed

section \<open>The screen as a terminal\<close>

record terminal =
  cells :: "nat \<Rightarrow> nat \<Rightarrow> u8 \<times> u8"
  row :: nat
  col :: nat

definition newline :: "terminal \<Rightarrow> terminal" where
  "newline t =
     (if row t = 23
      then t\<lparr>cells := (\<lambda>r k. if r < 23 then cells t (Suc r) k else if r = 23 \<and> k < 80 then (0x20, 0) else (0, 0)), col := 0\<rparr>
      else t\<lparr>row := Suc (row t), col := 0\<rparr>)"

definition put :: "u8 \<Rightarrow> u8 \<Rightarrow> terminal \<Rightarrow> terminal" where
  "put color c t =
     (if c = 10 \<or> c = 13 then newline t
      else
        let t = t\<lparr>cells := (cells t)(row t := (cells t (row t))(col t := (c, color)))\<rparr>
        in if col t = 79 then newline t else t\<lparr>col := Suc (col t)\<rparr>)"

definition cells_of :: "u8 list \<Rightarrow> nat \<Rightarrow> nat \<Rightarrow> u8 \<times> u8" where
  "cells_of m r k = (if r < 24 \<and> k < 80 then (m ! (160 * r + 2 * k), m ! (160 * r + 2 * k + 1)) else (0, 0))"

definition terminal_of :: "console \<Rightarrow> terminal" where
  "terminal_of s = \<lparr>cells = cells_of (screen s), row = nat (video_memory s) div 160, col = nat (video_memory s) mod 160 div 2\<rparr>"

lemma concat_replicate_nth: "i < 2 * k \<Longrightarrow> concat (replicate k [a, b]) ! i = (if even i then a else b)"
proof (induction k arbitrary: i)
  case (Suc k)
  then show ?case by (cases i; cases "i - 1") auto
qed simp

lemma cells_scrolled:
  assumes "length m = 4000"
  shows "cells_of (scrolled m) r k =
    (if r < 23 then cells_of m (Suc r) k else if r = 23 \<and> k < 80 then (0x20, 0) else (0, 0))"
proof -
  have l: "length (take 3680 (drop 160 m)) = 3680" "length (concat (replicate 80 [0x20, 0 :: u8])) = 160"
    using assms by (simp_all add: numeral_eq_Suc)
  consider "r < 23" "k < 80" | "r = 23" "k < 80" | "\<not> (r < 24 \<and> k < 80)" by linarith
  then show ?thesis
  proof cases
    case 1
    then show ?thesis using l(1) assms by (simp add: cells_of_def scrolled_def nth_append add.commute add.left_commute)
  next
    case 2
    then show ?thesis using l concat_replicate_nth [of "2 * k" 80 "0x20 :: u8" 0] concat_replicate_nth [of "2 * k + 1" 80 "0x20 :: u8" 0]
      by (simp add: cells_of_def scrolled_def nth_append)
  next
    case 3
    then show ?thesis by (auto simp: cells_of_def)
  qed
qed

lemma cell_index:
  assumes "k < 80" and "k' < 80"
  shows "160 * r + 2 * k = 160 * r' + 2 * k' \<longleftrightarrow> r = r' \<and> k = (k' :: nat)"
    and "160 * r + 2 * k \<noteq> Suc (160 * r' + 2 * k')"
proof -
  have "(160 * r + 2 * k) div 160 = r" "(160 * r + 2 * k) mod 160 = 2 * k"
    "(160 * r' + 2 * k') div 160 = r'" "(160 * r' + 2 * k') mod 160 = 2 * k'"
    using assms by simp_all
  then show "160 * r + 2 * k = 160 * r' + 2 * k' \<longleftrightarrow> r = r' \<and> k = k'" by (metis mult_left_cancel zero_neq_numeral)
  have "even (160 * r + 2 * k)" "odd (Suc (160 * r' + 2 * k'))" by simp_all
  then show "160 * r + 2 * k \<noteq> Suc (160 * r' + 2 * k')" by metis
qed

lemma cell_position: "k < 80 \<Longrightarrow> (160 * r + 2 * k) div 160 = r \<and> (160 * r + 2 * k) mod 160 div 2 = (k :: nat)"
  by simp

lemma cells_put:
  assumes "length m = 4000" and "R < 24" and "K < 80"
  shows "cells_of (m[160 * R + 2 * K := c, Suc (160 * R + 2 * K) := color]) =
    (cells_of m)(R := (cells_of m R)(K := (c, color)))"
proof (intro ext)
  fix r k
  have l: "Suc (160 * R + 2 * K) < 4000" using assms by simp
  show "cells_of (m[160 * R + 2 * K := c, Suc (160 * R + 2 * K) := color]) r k =
      ((cells_of m)(R := (cells_of m R)(K := (c, color)))) r k"
  proof (cases "r < 24 \<and> k < 80")
    case True
    then show ?thesis
      using assms l cell_index [of k K r R] cell_index(2) [of K k R r] by (auto simp: cells_of_def nth_list_update)
  next
    case False
    then show ?thesis using assms by (auto simp: cells_of_def)
  qed
qed

lemma console_coords:
  assumes "console_inv s"
  obtains R K where "R < 24" "K < 80" "video_memory s = int (160 * R + 2 * K)"
    "terminal_of s = \<lparr>cells = cells_of (screen s), row = R, col = K\<rparr>"
proof -
  define R K where "R = nat (video_memory s) div 160" and "K = nat (video_memory s) mod 160 div 2"
  have s: "0 \<le> video_memory s" "video_memory s < 3840" "even (nat (video_memory s))"
    using assms by (auto simp: console_inv_def even_nat_iff)
  have "2 * K = nat (video_memory s) mod 160" using s(3) unfolding K_def by (simp add: dvd_mod)
  then have RK: "R < 24" "K < 80" "nat (video_memory s) = 160 * R + 2 * K"
    using s(2) mult_div_mod_eq [of 160 "nat (video_memory s)"] unfolding R_def K_def by (auto simp: div_less_iff_less_mult)
  have "terminal_of s = \<lparr>cells = cells_of (screen s), row = R, col = K\<rparr>" by (simp add: terminal_of_def R_def K_def)
  moreover have "video_memory s = int (160 * R + 2 * K)" using s(1) RK(3) by linarith
  ultimately show ?thesis using that RK(1,2) by blast
qed

text \<open>What the terminal shows when the pointer has come to the start of the row after \<open>R\<close>.\<close>

lemma terminal_next_row:
  assumes "length m = 4000" and "R < 24" and "v = 160 * (1 + int R)"
    and "screen s = (if v = 3840 then scrolled m else m)" and "video_memory s = (if v = 3840 then 3680 else v)"
  shows "terminal_of s = newline \<lparr>cells = cells_of m, row = R, col = K\<rparr>"
proof (cases "R = 23")
  case True
  then show ?thesis using assms cells_scrolled [OF assms(1)] by (simp add: terminal_of_def newline_def fun_eq_iff)
next
  case False
  have "nat (160 * (1 + int R)) = 160 * Suc R" by (simp add: nat_mult_distrib nat_add_distrib)
  then show ?thesis using False assms(2-5) by (simp add: terminal_of_def newline_def)
qed

lemma write_char_terminal:
  assumes inv: "console_inv s" and w: "write_char color c s = Inr s'"
  shows "terminal_of s' = put color c (terminal_of s)"
proof -
  obtain R K where RK: "R < 24" "K < 80" "video_memory s = int (160 * R + 2 * K)"
      "terminal_of s = \<lparr>cells = cells_of (screen s), row = R, col = K\<rparr>" using console_coords [OF inv] .
  obtain v m where vm: "written color c (video_memory s) (screen s) = (v, m)" by fastforce
  have s: "length (screen s) = 4000" using inv by (simp add: console_inv_def)
  have s': "screen s' = (if v = 3840 then scrolled m else m)" "video_memory s' = (if v = 3840 then 3680 else v)"
    using write_char_Inr [OF inv vm] w by auto
  define t where "t = \<lparr>cells = cells_of m, row = R, col = K\<rparr>"
  have len: "length m = 4000" using vm s by (auto simp: written_def split: if_splits)
  have new: "terminal_of s' = newline t" if "v = 160 * (1 + int R)"
    unfolding t_def by (rule terminal_next_row [OF len RK(1) that s'])
  show ?thesis
  proof (cases "c = 10 \<or> c = 13")
    case True
    have "(160 * int R + 2 * int K + 160) div 160 = 1 + int R" using RK(2) by linarith
    then have "v = 160 * (1 + int R)" "t = terminal_of s" using True vm RK(3,4) by (auto simp: written_def t_def next_row_def)
    then show ?thesis using True new by (simp add: put_def)
  next
    case False
    then have m: "m = (screen s)[160 * R + 2 * K := c, Suc (160 * R + 2 * K) := color]" "v = int (160 * R + 2 * K) + 2"
      using vm RK(3) by (auto simp: written_def nat_add_distrib nat_mult_distrib)
    have t: "put color c (terminal_of s) = (if K = 79 then newline t else t\<lparr>col := Suc K\<rparr>)"
      unfolding t_def m(1) cells_put [OF s RK(1,2)] RK(4) using False by (simp add: put_def Let_def)
    show ?thesis
    proof (cases "K = 79")
      case True
      then show ?thesis using new m(2) t by simp
    next
      case False
      then have v: "v \<noteq> 3840" "nat v = 160 * R + 2 * Suc K" "Suc K < 80" using m(2) RK(1,2) by auto
      then have "nat v div 160 = R" "nat v mod 160 div 2 = Suc K" using cell_position [of "Suc K" R] by metis+
      then show ?thesis using t s' False v(1) by (simp add: terminal_of_def t_def)
    qed
  qed
qed

lemma write_chars_inv:
  assumes "console_inv s"
  shows "\<exists>s'. rfold (\<lambda>(color, c). write_char color c) cs s = Inr s' \<and> console_inv s' \<and>
    drop 3840 (screen s') = drop 3840 (screen s) \<and>
    terminal_of s' = fold (\<lambda>(color, c). put color c) cs (terminal_of s)"
  using assms
proof (induction cs arbitrary: s)
  case (Cons x cs)
  obtain color c where x: "x = (color, c)" by fastforce
  obtain t where t: "write_char color c s = Inr t"
    using write_char_Inr [OF Cons.prems, of color c "fst (written color c (video_memory s) (screen s))"] by (metis prod.collapse)
  show ?case
    using Cons.IH [of t] write_char_inv [OF Cons.prems t] write_char_terminal [OF Cons.prems t] t by (simp add: x)
qed simp

section \<open>Strings\<close>

lemma write_string_loop_mono: "write_string_loop color str v m = Inr (v', m') \<Longrightarrow> v \<le> v'"
proof (induction color str v m rule: write_string_loop.induct)
  case (2 color c cs video m)
  have "video \<le> next_row video" unfolding next_row_def by linarith
  then show ?case using 2 by (fastforce split: if_splits)
qed simp

lemma write_string_loop_chars:
  "write_string_loop color (t @ [0]) (video_memory s) (screen s) = Inr (v, m) \<Longrightarrow> console_inv s \<Longrightarrow>
   0 \<notin> set t \<Longrightarrow> 13 \<notin> set t \<Longrightarrow> v < 3840 \<Longrightarrow>
   \<exists>s'. rfold (write_char color) t s = Inr s' \<and> screen s' = m \<and> video_memory s' = v \<and> console_inv s'"
proof (induction t arbitrary: s)
  case (Cons c t)
  obtain v1 m1 where w: "written color c (video_memory s) (screen s) = (v1, m1)" by fastforce
  have s: "length (screen s) = 4000" "0 \<le> video_memory s" "video_memory s < 3840" "even (video_memory s)"
    using Cons.prems(2) by (auto simp: console_inv_def)
  have next_loop: "write_string_loop color (t @ [0]) v1 m1 = Inr (v, m)"
    using Cons.prems(1,3,4) w s by (auto simp: written_def put_cell_Inr split: if_splits)
  then have "v1 \<noteq> 3840" using write_string_loop_mono Cons.prems(5) by fastforce
  then obtain s1 where s1: "write_char color c s = Inr s1" "screen s1 = m1" "video_memory s1 = v1"
    using write_char_Inr [OF Cons.prems(2) w] by auto
  then show ?case using Cons.IH [of s1] next_loop write_char_inv [OF Cons.prems(2) s1(1)] Cons.prems(3-5) by simp
qed simp

section \<open>Properties\<close>

text \<open>
  C28. The screen is a terminal of 24 rows: writing any characters one after the other never leaves the video
  memory and never touches its last row, the cursor stays on the first 24 rows, and what is shown is what
  a terminal shows that wraps at column 80 and scrolls by one row at the end.
\<close>

theorem write_chars_terminal:
  assumes "length (screen s) = 4000" "0 \<le> video_memory s" "video_memory s < 3840" "even (video_memory s)"
  shows "\<exists>s'. rfold (\<lambda>(color, c). write_char color c) cs s = Inr s' \<and>
    0 \<le> video_memory s' \<and> video_memory s' < 3840 \<and> drop 3840 (screen s') = drop 3840 (screen s) \<and>
    terminal_of s' = fold (\<lambda>(color, c). put color c) cs (terminal_of s)"
  using write_chars_inv [of s cs] assms unfolding console_inv_def by blast

theorem write_chars_terminal_witness:
  "\<exists>s'. rfold (\<lambda>(color, c). write_char color c) [(0x1F, 72), (0x1F, 10)]
       \<lparr>screen = replicate 4000 0, video_memory = 3680, port_outs = []\<rparr> = Inr s' \<and>
     cells (terminal_of s') 22 0 = (72, 0x1F)"
proof -
  let ?s = "\<lparr>screen = replicate 4000 0, video_memory = 3680, port_outs = []\<rparr>"
  obtain s' where "rfold (\<lambda>(color, c). write_char color c) [(0x1F, 72), (0x1F, 10)] ?s = Inr s'"
      "terminal_of s' = fold (\<lambda>(color, c). put color c) [(0x1F, 72), (0x1F, 10)] (terminal_of ?s)"
    using write_chars_terminal [of ?s "[(0x1F, 72), (0x1F, 10)]"] by auto
  then show ?thesis by (intro exI [of _ s']) (simp add: terminal_of_def put_def newline_def Let_def)
qed

text \<open>
  C34. \<open>write_string\<close> shows what \<open>write_char\<close> shows for its characters one by one, provided that the text ends
  before the last row it may use is full and has no carriage return, which only \<open>write_char\<close> treats as a
  new line.
\<close>

theorem write_string_chars:
  assumes "console_inv s" and "0 \<notin> set t" "13 \<notin> set t"
    and "write_string_loop color (t @ [0]) (video_memory s) (screen s) = Inr (v, m)" "v < 3840"
  shows "\<exists>s1 s2. write_string color (t @ [0]) s = Inr s1 \<and> rfold (write_char color) t s = Inr s2 \<and>
    screen s1 = screen s2 \<and> video_memory s1 = video_memory s2"
proof -
  obtain s2 where s2: "rfold (write_char color) t s = Inr s2" "screen s2 = m" "video_memory s2 = v" "console_inv s2"
    using write_string_loop_chars [OF assms(4,1,2,3,5)] by blast
  then have "length m = 4000" "0 \<le> v" by (auto simp: console_inv_def)
  then obtain s1 where "update_cursor (s\<lparr>screen := m, video_memory := v\<rparr>) = Inr s1" "screen s1 = m" "video_memory s1 = v"
    using update_cursor_Inr [of "s\<lparr>screen := m, video_memory := v\<rparr>"] assms(5) by auto
  then show ?thesis using s2 assms(4) by (simp add: write_string_def)
qed

theorem write_string_chars_witness:
  "\<exists>s1 s2. write_string 0x1F [72, 10, 105, 0] \<lparr>screen = replicate 4000 0, video_memory = 0, port_outs = []\<rparr> = Inr s1 \<and>
     rfold (write_char 0x1F) [72, 10, 105] \<lparr>screen = replicate 4000 0, video_memory = 0, port_outs = []\<rparr> = Inr s2 \<and>
     screen s1 = screen s2"
proof -
  let ?s = "\<lparr>screen = replicate 4000 0, video_memory = 0, port_outs = []\<rparr>"
  have "write_string_loop 0x1F ([72, 10, 105] @ [0]) 0 (replicate 4000 0) =
      Inr (162, (replicate 4000 0)[0 := 72, 1 := 0x1F, 160 := 105, 161 := 0x1F])"
    by (simp add: put_cell_Inr next_row_def)
  then show ?thesis using write_string_chars [of ?s "[72, 10, 105]" "0x1F"] by (auto simp: console_inv_def)
qed

end
