(* ===== verification/Tarfs.thy ===== *)
theory Tarfs
  imports Console Kernel_Heap
begin

text \<open>
  The archive of programs that is linked into the kernel, \<open>sys/elf.c\<close>: walking its headers, the table of its files, the
  tree of its directories and reading a program's ELF headers. The memory from the start of the archive on is a list of
  bytes, which goes on behind the archive: the loops of the code run while the header is at or before the end symbol.
\<close>

section \<open>The archive\<close>

record tar_image =
  tar_base :: u64
  tar_end :: u64
  tar_bytes :: "u8 list"

text \<open>What a pointer into the archive points to.\<close>

definition ptr :: "tar_image \<Rightarrow> u64 \<Rightarrow> u8 list res" where
  "ptr img a =
     (let k = unat (a - tar_base img) in
      if k < length (tar_bytes img) then Inr (drop k (tar_bytes img)) else Inl OutOfBounds)"

text \<open>\<open>struct posix_header_ustar\<close>: its size and the offset of the field \<open>size\<close>; the name is its first field.\<close>

definition posix_header_ustar :: "u64 \<times> u64" where
  "posix_header_ustar = (512, 124)"

definition round :: "int \<Rightarrow> int" where
  "round no = (no sdiv 512 + 1) * 512"

definition header_name :: "tar_image \<Rightarrow> u64 \<Rightarrow> u8 list res" where
  "header_name img header = ptr img header"

definition header_size :: "tar_image \<Rightarrow> u64 \<Rightarrow> u32 res" where
  "header_size img header = rbind (ptr img (header + snd posix_header_ustar)) my_atool"

definition next_header :: "tar_image \<Rightarrow> u64 \<Rightarrow> u64 res" where
  "next_header img header =
     rbind (header_size img header) (\<lambda>n.
     Inr (if n = 0 then header + fst posix_header_ustar
          else header + fst posix_header_ustar + u64_of_int (round (sint n))))"

section \<open>Reading a file\<close>

partial_function (option) tarfs_read_loop :: "tar_image \<Rightarrow> u8 list \<Rightarrow> u64 \<Rightarrow> u64 res option" where
  "tarfs_read_loop img name header =
     (if header \<le> tar_end img then
        case rbind (header_name img header) (\<lambda>n. strcmp n name) of
          Inl e \<Rightarrow> Some (Inl e)
        | Inr r \<Rightarrow>
            if r = 0 then Some (Inr (header + fst posix_header_ustar))
            else case next_header img header of
                   Inl e \<Rightarrow> Some (Inl e)
                 | Inr h \<Rightarrow> tarfs_read_loop img name h
      else Some (Inr 0))"

definition tarfs_read :: "tar_image \<Rightarrow> u8 list \<Rightarrow> u64 res" where
  "tarfs_read img name = (case tarfs_read_loop img name (tar_base img) of None \<Rightarrow> Inl Halt | Some r \<Rightarrow> r)"

section \<open>The table of files\<close>

record file_table =
  files :: "u8 list list"
  file_used :: "int list"
  file_count :: int

definition initial_files :: file_table where
  "initial_files = \<lparr>files = replicate 50 (replicate 100 0), file_used = replicate 50 0, file_count = 1\<rparr>"

definition add_file :: "tar_image \<Rightarrow> u64 \<Rightarrow> file_table \<Rightarrow> file_table res" where
  "add_file img header s =
     rbind (header_name img header) (\<lambda>n.
     rbind (strlen n) (\<lambda>l.
     rbind (arr_get (files s) (file_count s)) (\<lambda>row.
     rbind (strncpy row n (word_of_int l)) (\<lambda>row.
     rbind (arr_set (files s) (file_count s) row) (\<lambda>t.
     Inr (s\<lparr>files := t, file_count := file_count s + 1\<rparr>))))))"

partial_function (option) tarfs_dir_loop :: "tar_image \<Rightarrow> u64 \<Rightarrow> file_table \<Rightarrow> file_table res option" where
  "tarfs_dir_loop img header s =
     (if header \<le> tar_end img then
        case rbind (header_size img header) (\<lambda>n. if n > 0 then add_file img header s else Inr s) of
          Inl e \<Rightarrow> Some (Inl e)
        | Inr s \<Rightarrow>
            (case next_header img header of
               Inl e \<Rightarrow> Some (Inl e)
             | Inr h \<Rightarrow> tarfs_dir_loop img h s)
      else Some (Inr s))"

definition tarfs_dir :: "tar_image \<Rightarrow> file_table \<Rightarrow> file_table res" where
  "tarfs_dir img s = (case tarfs_dir_loop img (tar_base img) s of None \<Rightarrow> Inl Halt | Some r \<Rightarrow> r)"

fun tarfs_open_loop :: "u8 list \<Rightarrow> file_table \<Rightarrow> nat list \<Rightarrow> int res" where
  "tarfs_open_loop name s [] = Inr 0"
| "tarfs_open_loop name s (i # is) =
     rbind (arr_get (files s) (int i)) (\<lambda>row.
     rbind (strcmp name row) (\<lambda>r. if r = 0 then Inr (int i) else tarfs_open_loop name s is))"

definition tarfs_open :: "u8 list \<Rightarrow> file_table \<Rightarrow> (file_table \<times> int) res" where
  "tarfs_open name s =
     rbind (tarfs_open_loop name s [1..<nat (file_count s)]) (\<lambda>fd.
     if fd \<noteq> 0 then rbind (arr_set (file_used s) fd 1) (\<lambda>u. Inr (s\<lparr>file_used := u\<rparr>, fd))
     else Inr (s, fd))"

section \<open>The tree of directories\<close>

record fs_tree =
  fs_name :: "u8 list"
  fs_child :: "u64 list"
  no_child :: int

definition empty_tree :: fs_tree where
  "empty_tree = \<lparr>fs_name = replicate 50 0, fs_child = replicate 30 0, no_child = 0\<rparr>"

text \<open>The nodes of the tree by address, the address of the static root, and the current directory.\<close>

record dir_state =
  tree :: "u64 \<Rightarrow> fs_tree"
  rootfs :: u64
  pwd :: u64
  dir_heap :: heap_state

text \<open>\<open>strncmp\<close> of this file: FALSE (0) when the first \<open>n\<close> characters agree.\<close>

definition strncmp :: "u8 list \<Rightarrow> u8 list \<Rightarrow> int \<Rightarrow> bool res" where
  "strncmp src dst n =
     rfold (\<lambda>i differ.
       if differ then Inr True
       else rbind (arr_get src (int i)) (\<lambda>a. rbind (arr_get dst (int i)) (\<lambda>b. Inr (a \<noteq> b)))) [0..<nat n] False"

definition set_node_name :: "u64 \<Rightarrow> u8 list \<Rightarrow> dir_state \<Rightarrow> dir_state res" where
  "set_node_name p n s =
     rbind (strlen n) (\<lambda>l.
     rbind (strncpy (fs_name (tree s p)) n (word_of_int l)) (\<lambda>nm.
     Inr (s\<lparr>tree := (tree s)(p := (tree s p)\<lparr>fs_name := nm\<rparr>)\<rparr>)))"

text \<open>A new node under \<open>parent\<close> with the name of a header; \<open>sizeof(struct fs_tree)\<close> is 304.\<close>

definition add_child :: "tar_image \<Rightarrow> u64 \<Rightarrow> u64 \<Rightarrow> dir_state \<Rightarrow> (dir_state \<times> u64) res" where
  "add_child img header par s =
     rbind (sub_malloc 304 False (dir_heap s)) (\<lambda>(h, temp).
     let s = s\<lparr>dir_heap := h, tree := (tree s)(temp := empty_tree)\<rparr> in
     rbind (header_name img header) (\<lambda>n.
     rbind (set_node_name temp n s) (\<lambda>s.
     rbind (arr_set (fs_child (tree s par)) (no_child (tree s par)) temp) (\<lambda>cs.
     Inr (s\<lparr>tree := (tree s)(par := (tree s par)\<lparr>fs_child := cs, no_child := no_child (tree s par) + 1\<rparr>)\<rparr>, temp)))))"

definition add_entry :: "tar_image \<Rightarrow> u64 \<Rightarrow> u64 \<times> dir_state \<Rightarrow> (u64 \<times> dir_state) res" where
  "add_entry img header = (\<lambda>(old_dir, s).
     rbind (strlen (fs_name (tree s old_dir))) (\<lambda>l.
     rbind (header_name img header) (\<lambda>n.
     rbind (strncmp (fs_name (tree s old_dir)) n l) (\<lambda>differ.
     let temp_rt = (if \<not> differ then old_dir else rootfs s) in
     rbind (header_size img header) (\<lambda>sz.
     rbind (add_child img header temp_rt s) (\<lambda>(s, temp).
     Inr (if sz > 0 then old_dir else temp, s)))))))"

partial_function (option) init_tarfs_loop :: "tar_image \<Rightarrow> u64 \<Rightarrow> u64 \<times> dir_state \<Rightarrow> (u64 \<times> dir_state) res option" where
  "init_tarfs_loop img header s =
     (if header \<le> tar_end img then
        case add_entry img header s of
          Inl e \<Rightarrow> Some (Inl e)
        | Inr s \<Rightarrow>
            (case next_header img header of
               Inl e \<Rightarrow> Some (Inl e)
             | Inr h \<Rightarrow> init_tarfs_loop img h s)
      else Some (Inr s))"

definition init_tarfs :: "tar_image \<Rightarrow> dir_state \<Rightarrow> dir_state res" where
  "init_tarfs img s =
     (let s = s\<lparr>pwd := rootfs s\<rparr> in
      rbind (set_node_name (rootfs s) [114, 111, 111, 116, 102, 115, 47, 0] s) (\<lambda>s.
      case init_tarfs_loop img (tar_base img) (rootfs s, s) of
        None \<Rightarrow> Inl Halt
      | Some r \<Rightarrow> rbind r (\<lambda>(_, s). Inr s)))"

fun get_pwd_loop :: "u8 list \<Rightarrow> dir_state \<Rightarrow> fs_tree \<Rightarrow> nat \<Rightarrow> nat list \<Rightarrow> nat res" where
  "get_pwd_loop name s crawl pchild [] = Inr pchild"
| "get_pwd_loop name s crawl pchild (i # is) =
     rbind (arr_get (fs_child crawl) (int i)) (\<lambda>c.
     if c = 0 then Inl NullPointer
     else rbind (strcmp (fs_name (tree s c)) name) (\<lambda>r. if r = 0 then Inr i else get_pwd_loop name s crawl pchild is))"

text \<open>The children that are looked at; of the root's the last one is left out.\<close>

definition children_shown :: "dir_state \<Rightarrow> u64 \<Rightarrow> int" where
  "children_shown s p = (if p = rootfs s then no_child (tree s p) - 1 else no_child (tree s p))"

definition get_pwd :: "u8 list \<Rightarrow> dir_state \<Rightarrow> u64 res" where
  "get_pwd name s =
     (let n = nat (children_shown s (pwd s)) in
      rbind (get_pwd_loop name s (tree s (pwd s)) n [0..<n]) (\<lambda>i. arr_get (fs_child (tree s (pwd s))) (int i)))"

definition do_cd :: "tar_image \<Rightarrow> u8 list \<Rightarrow> dir_state \<Rightarrow> (dir_state \<times> int) res" where
  "do_cd img name s =
     rbind (strcmp name [104, 111, 109, 101, 0]) (\<lambda>r.
     if r = 0 then Inr (s\<lparr>pwd := rootfs s\<rparr>, 0)
     else
       rbind (tarfs_read img name) (\<lambda>addr.
       if addr = 0 then Inr (s, -1)
       else rbind (get_pwd name s) (\<lambda>p. Inr (s\<lparr>pwd := p\<rparr>, 0))))"

definition print_pwd :: "dir_state \<Rightarrow> console \<Rightarrow> console res" where
  "print_pwd s con = rbind (printf [37, 115, 10, 0] [StrArg (fs_name (tree s (pwd s)))] con) (\<lambda>(con, _). Inr con)"

definition print_ls_rec :: "dir_state \<Rightarrow> u64 \<Rightarrow> console \<Rightarrow> console res" where
  "print_ls_rec s crawl con =
     (if crawl = 0 then Inr con
      else
        rfold (\<lambda>i con.
          rbind (arr_get (fs_child (tree s crawl)) (int i)) (\<lambda>c.
          if c = 0 then Inl NullPointer
          else rbind (printf [37, 115, 32, 0] [StrArg (fs_name (tree s c))] con) (\<lambda>(con, _). Inr con)))
          [0..<nat (children_shown s crawl)] con)"

definition print_ls :: "dir_state \<Rightarrow> console \<Rightarrow> console res" where
  "print_ls s con =
     rbind (print_ls_rec s (pwd s) con) (\<lambda>con. rbind (printf [10, 0] [] con) (\<lambda>(con, _). Inr con))"

partial_function (option) print_ll_loop :: "tar_image \<Rightarrow> u64 \<Rightarrow> console \<Rightarrow> console res option" where
  "print_ll_loop img header con =
     (if header \<le> tar_end img then
        case rbind (header_name img header) (\<lambda>n. printf [37, 115, 32, 0] [StrArg n] con) of
          Inl e \<Rightarrow> Some (Inl e)
        | Inr (con, _) \<Rightarrow>
            (case next_header img header of
               Inl e \<Rightarrow> Some (Inl e)
             | Inr h \<Rightarrow> print_ll_loop img h con)
      else Some (Inr con))"

definition print_ll :: "tar_image \<Rightarrow> console \<Rightarrow> console res" where
  "print_ll img con = (case print_ll_loop img (tar_base img) con of None \<Rightarrow> Inl Halt | Some r \<Rightarrow> r)"

end
