(* ===== verification/Elf.thy ===== *)
theory Elf
  imports Tarfs
begin

text \<open>
  Programs in the archive: the structures of \<open>include/elf.h\<close> and \<open>readelf\<close> of \<open>sys/elf.c\<close>, with the properties of the
  walk over the archive.
\<close>

section \<open>Headers\<close>

text \<open>The structures as they lie in memory: name, offset and size of each field.\<close>

definition Elf64_Ehdr :: "(string \<times> nat \<times> nat) list" where
  "Elf64_Ehdr =
     [(''e_ident'', 0, 16), (''e_type'', 16, 2), (''e_machine'', 18, 2), (''e_version'', 20, 4), (''e_entry'', 24, 8),
      (''e_phoff'', 32, 8), (''e_shoff'', 40, 8), (''e_flags'', 48, 4), (''e_ehsize'', 52, 2), (''e_phentsize'', 54, 2),
      (''e_phnum'', 56, 2), (''e_shentsize'', 58, 2), (''e_shnum'', 60, 2), (''e_shstrndx'', 62, 2)]"

definition Elf64_Shdr :: "(string \<times> nat \<times> nat) list" where
  "Elf64_Shdr =
     [(''sh_name'', 0, 4), (''sh_type'', 4, 4), (''sh_flags'', 8, 8), (''sh_addr'', 16, 8), (''sh_offset'', 24, 8),
      (''sh_size'', 32, 8), (''sh_link'', 40, 4), (''sh_info'', 44, 4), (''sh_addralign'', 48, 8), (''sh_entsize'', 56, 8)]"

definition Elf64_Phdr :: "(string \<times> nat \<times> nat) list" where
  "Elf64_Phdr =
     [(''p_type'', 0, 4), (''p_flags'', 4, 4), (''p_offset'', 8, 8), (''p_vaddr'', 16, 8), (''p_paddr'', 24, 8),
      (''p_filesz'', 32, 8), (''p_memsz'', 40, 8), (''p_align'', 48, 8)]"

definition size_of :: "(string \<times> nat \<times> nat) list \<Rightarrow> u64" where
  "size_of layout = of_nat (sum_list (map (\<lambda>(_, _, n). n) layout))"

definition read_le :: "tar_image \<Rightarrow> u64 \<Rightarrow> nat \<Rightarrow> 'a::len word res" where
  "read_le img a n =
     rbind (ptr img a) (\<lambda>bs. if length bs < n then Inl OutOfBounds else Inr (le_word (take n bs)))"

definition get_field :: "tar_image \<Rightarrow> (string \<times> nat \<times> nat) list \<Rightarrow> string \<Rightarrow> u64 \<Rightarrow> 'a::len word res" where
  "get_field img layout f a =
     (case map_of layout f of None \<Rightarrow> Inl WildPointer | Some (off, n) \<Rightarrow> read_le img (a + of_nat off) n)"

record exec =
  seg_length :: u32
  seg_page_start :: u64
  seg_actual_start :: u64
  seg_mem :: u64

section \<open>Reading the headers\<close>

text \<open>The body of the loop: the segment of program header \<open>i\<close>, with the total length so far.\<close>

definition read_segment :: "tar_image \<Rightarrow> u64 \<Rightarrow> u64 \<Rightarrow> u64 \<Rightarrow> nat \<Rightarrow> u64 \<times> exec list \<Rightarrow> (u64 \<times> exec list) res" where
  "read_segment img bin_start text_start actual_mem_start i = (\<lambda>(len, executable).
     let pgmHdr = bin_start + size_of Elf64_Ehdr + of_nat i * size_of Elf64_Phdr in
     rbind (get_field img Elf64_Phdr ''p_memsz'' pgmHdr) (\<lambda>load_size.
     rbind (get_field img Elf64_Phdr ''p_vaddr'' pgmHdr) (\<lambda>p_vaddr.
     rbind (get_field img Elf64_Phdr ''p_offset'' pgmHdr) (\<lambda>p_offset.
     let load_start = p_vaddr - p_offset;
         load_addr = (if i = 0 then text_start else p_vaddr);
         load_buf = (if i = 0 then actual_mem_start + len else bin_start + p_offset)
     in rbind (arr_set executable (int i)
          \<lparr>seg_length = ucast (load_size :: u64), seg_page_start = load_start, seg_actual_start = load_addr, seg_mem = load_buf\<rparr>)
          (\<lambda>executable. Inr (len + load_size, executable))))))"

text \<open>The result is None for a missing file; otherwise the segments, their number and the entry point.\<close>

definition readelf :: "tar_image \<Rightarrow> u8 list \<Rightarrow> exec list \<Rightarrow> (exec list \<times> u16 \<times> u64) option res" where
  "readelf img name executable =
     rbind (tarfs_read img name) (\<lambda>bin_start.
     if bin_start = 0 then Inr None
     else
       rbind (get_field img Elf64_Ehdr ''e_entry'' bin_start) (\<lambda>entry_point.
       rbind (get_field img Elf64_Ehdr ''e_phnum'' bin_start) (\<lambda>e_phnum :: u16.
       let pgm_entries = e_phnum - 1 in
       rbind (get_field img Elf64_Ehdr ''e_shoff'' bin_start) (\<lambda>e_shoff.
       rbind (get_field img Elf64_Shdr ''sh_addr'' (bin_start + e_shoff + size_of Elf64_Ehdr)) (\<lambda>text_start.
       rbind (get_field img Elf64_Ehdr ''e_phoff'' bin_start) (\<lambda>e_phoff.
       let actual_mem_start = bin_start + size_of Elf64_Ehdr + ucast pgm_entries * size_of Elf64_Phdr + e_phoff in
       rbind (rfold (read_segment img bin_start text_start actual_mem_start) [0..<unat pgm_entries] (0, executable))
         (\<lambda>(_, executable). Inr (Some (executable, pgm_entries, entry_point)))))))))"

section \<open>The walk over an archive\<close>

text \<open>
  An archive as the tar format lays it out: from the header at \<open>h\<close> on, entries with a name and a size, the data of each padded
  to whole blocks, up to the header at \<open>h'\<close>. The size is a text of at most eleven octal digits, the first one the most
  significant, with a zero behind it.
\<close>

definition octal_size :: "tar_image \<Rightarrow> u64 \<Rightarrow> u32 \<Rightarrow> bool" where
  "octal_size img h n \<longleftrightarrow>
     (\<exists>ds rest. ptr img (h + 124) = Inr (map (\<lambda>d. 48 + of_nat d) ds @ 0 # rest) \<and> (\<forall>d\<in>set ds. d < 8) \<and> length ds \<le> 11 \<and>
        unat n = foldl (\<lambda>v d. v * 8 + d) 0 ds)"

definition tar_next :: "u64 \<Rightarrow> u32 \<Rightarrow> u64" where
  "tar_next h n = h + 512 + of_nat (512 * ((unat n + 511) div 512))"

fun tar_chain :: "tar_image \<Rightarrow> u64 \<Rightarrow> (u8 list \<times> u32) list \<Rightarrow> u64 \<Rightarrow> bool" where
  "tar_chain img h [] h' \<longleftrightarrow> h' = h"
| "tar_chain img h ((name, n) # es) h' \<longleftrightarrow>
     h \<le> tar_end img \<and> (\<exists>bs. header_name img h = Inr bs \<and> 0 \<in> set bs \<and> cstring bs = name) \<and> octal_size img h n \<and>
     tar_chain img (tar_next h n) es h'"

lemma octal_size_header:
  assumes "octal_size img h n"
  shows "header_size img h = Inr n"
proof -
  obtain ds rest where ds: "ptr img (h + 124) = Inr (map (\<lambda>d. 48 + of_nat d) ds @ 0 # rest)" "\<forall>d\<in>set ds. d < 8"
    "length ds \<le> 11" "unat n = foldl (\<lambda>v d. v * 8 + d) 0 ds" using assms by (auto simp: octal_size_def)
  have "48 + of_nat d = digit_chars ! d" if "d < 8" for d
  proof -
    have "d = 0 \<or> d = 1 \<or> d = 2 \<or> d = 3 \<or> d = 4 \<or> d = 5 \<or> d = 6 \<or> d = 7" using that by presburger
    then show ?thesis by (elim disjE) (simp_all add: digit_chars_def)
  qed
  then have m: "map (\<lambda>d. 48 + of_nat d) ds = map (\<lambda>d. digit_chars ! d) ds" using ds(2) by simp
  have "\<forall>d\<in>set ds. d < 10" using ds(2) by auto
  then have "atoi_loop 8 (map (\<lambda>d. digit_chars ! d) ds @ 0 # rest) 0 0 = Some (Inr (of_nat (unat n)))"
    using atoi_loop_digits [of ds "[]" 8 rest 0] foldl_digits_value [of 8 0 ds] ds(3,4) by simp
  then show ?thesis using ds(1) unfolding m by (simp add: header_size_def posix_header_ustar_def my_atool_def)
qed

text \<open>The sizes for which the rounding of the code agrees with the format.\<close>

definition size_ok :: "u32 \<Rightarrow> bool" where
  "size_ok n \<longleftrightarrow> unat n < 2 ^ 31 \<and> (n = 0 \<or> unat n mod 512 \<noteq> 0)"

lemma ceil_div: "r \<noteq> 0 \<Longrightarrow> r < 512 \<Longrightarrow> x = 512 * q + r \<Longrightarrow> (x + 511) div 512 = q + (1 :: nat)"
  by (intro div_nat_eqI) simp_all

lemma next_header_tar:
  assumes "header_size img h = Inr n" and "size_ok n"
  shows "next_header img h = Inr (tar_next h n)"
proof (cases "n = 0")
  case True
  then show ?thesis using assms(1) by (simp add: next_header_def tar_next_def posix_header_ustar_def)
next
  case False
  have u: "uint n = int (unat n)" "unat n < 2147483648" using assms(2) by (simp_all add: size_ok_def)
  then have "uint n < 2147483648" by linarith
  then have lt: "uint n < 2 ^ 31" by simp
  have ge: "- (2 ^ 31) \<le> uint n" by (rule order_trans [OF _ uint_ge_0]) simp
  have l: "LENGTH(32) - Suc 0 = 31" by simp
  have "sint n = signed_take_bit 31 (uint n)" by (simp only: sint_uint l)
  also have "\<dots> = uint n" by (rule signed_take_bit_int_eq_self [OF ge lt])
  finally have s: "sint n = int (unat n)" by (simp only: u(1))
  have "unat n mod 512 \<noteq> 0" using False assms(2) by (simp add: size_ok_def)
  then have "(unat n + 511) div 512 = unat n div 512 + 1"
    using ceil_div [of "unat n mod 512" "unat n" "unat n div 512"] by simp
  then have "tar_next h n = h + 512 + of_nat ((unat n div 512 + 1) * 512)" by (simp add: tar_next_def mult.commute)
  moreover have "u64_of_int (round (sint n)) = of_nat ((unat n div 512 + 1) * 512)"
  proof -
    have "round (sint n) = int ((unat n div 512 + 1) * 512)" using False by (simp add: round_def s signed_divide_int_def zdiv_int)
    then show ?thesis by (simp only: u64_of_int_def of_int_of_nat_eq)
  qed
  ultimately show ?thesis using assms(1) False by (simp add: next_header_def posix_header_ustar_def)
qed

lemma tarfs_read_loop_chain:
  assumes "tar_chain img h0 pre h" and "\<forall>(nm, n)\<in>set pre. nm \<noteq> cstring name \<and> size_ok n" and "0 \<in> set name"
  shows "tarfs_read_loop img name h0 = tarfs_read_loop img name h"
  using assms
proof (induction pre arbitrary: h0)
  case (Cons e pre)
  obtain nm n where e: "e = (nm, n)" by fastforce
  with Cons.prems obtain bs where bs: "h0 \<le> tar_end img" "header_name img h0 = Inr bs" "0 \<in> set bs" "cstring bs = nm"
    "header_size img h0 = Inr n" "tar_chain img (tar_next h0 n) pre h" "nm \<noteq> cstring name" "size_ok n" by (auto dest: octal_size_header)
  then have "tarfs_read_loop img name h0 = tarfs_read_loop img name (tar_next h0 n)"
    using Cons.prems(3) next_header_tar [OF bs(5,8)] by (subst tarfs_read_loop.simps) (simp add: strcmp_Inr)
  then show ?case using Cons.IH [OF bs(6)] Cons.prems by simp
qed simp

section \<open>The table of files\<close>

definition file_row :: "u8 list \<Rightarrow> u8 list" where
  "file_row nm = nm @ replicate (100 - length nm) 0"

text \<open>The table that holds the given names, from descriptor 1 on.\<close>

definition table_of :: "u8 list list \<Rightarrow> file_table" where
  "table_of ns =
     \<lparr>files = replicate 100 0 # map file_row ns @ replicate (49 - length ns) (replicate 100 0),
      file_used = replicate 50 0, file_count = int (Suc (length ns))\<rparr>"

lemma table_of_Nil: "initial_files = table_of []"
  by (simp add: initial_files_def table_of_def replicate_Suc [symmetric] del: replicate_Suc)

lemma take_cstring: "take (length (cstring bs)) bs = cstring bs"
  by (simp add: cstring_def takeWhile_eq_take [symmetric])

lemma length_cstring: "0 \<in> set bs \<Longrightarrow> length (cstring bs) < length bs"
  by (induction bs) (auto simp: cstring_def)

lemma add_file_table:
  assumes "header_name img h = Inr bs" and "0 \<in> set bs" and "length (cstring bs) < 100" and "length ns < 49"
  shows "add_file img h (table_of ns) = Inr (table_of (ns @ [cstring bs]))"
proof -
  let ?t = "files (table_of ns)" and ?n = "length (cstring bs)"
  have t: "length ?t = 50" using assms(4) by (simp add: table_of_def)
  have row: "?t ! Suc (length ns) = replicate 100 0" using assms(4) by (simp add: table_of_def nth_append)
  have n: "unat (word_of_int (int ?n) :: u32) = ?n" using assms(3) by (simp add: unat_of_nat)
  have "strncpy (replicate 100 0) bs (word_of_int (int ?n)) = Inr (file_row (cstring bs))"
    using strncpy_Inr [of "word_of_int (int ?n)" bs "replicate 100 0"] n length_cstring [OF assms(2)] assms(3)
    by (simp add: take_cstring file_row_def)
  moreover have "?t[Suc (length ns) := file_row (cstring bs)] = files (table_of (ns @ [cstring bs]))"
  proof -
    have "49 - length ns = Suc (49 - Suc (length ns))" using assms(4) by simp
    then show ?thesis by (simp add: table_of_def list_update_append)
  qed
  moreover have "arr_get ?t (int (Suc (length ns))) = Inr (replicate 100 0)"
    using arr_get_nat [of "Suc (length ns)" ?t] t row assms(4) by simp
  moreover have "arr_set ?t (int (Suc (length ns))) r = Inr (?t[Suc (length ns) := r])" for r
    using t assms(4) unfolding arr_set_def by (simp del: of_nat_Suc)
  moreover have "file_count (table_of ns) = int (Suc (length ns))" "file_used (table_of ns) = file_used (table_of (ns @ [cstring bs]))"
    "file_count (table_of (ns @ [cstring bs])) = int (Suc (length ns)) + 1" by (simp_all add: table_of_def)
  ultimately show ?thesis using assms(1,2) unfolding add_file_def by (simp add: strlen_Inr)
qed

definition nonempty_names :: "(u8 list \<times> u32) list \<Rightarrow> u8 list list" where
  "nonempty_names es = map fst (filter (\<lambda>(nm, n). n > 0) es)"

lemma tarfs_dir_loop_chain:
  assumes "tar_chain img h es h'" and "tar_end img < h'" and "\<forall>(nm, n)\<in>set es. length nm < 100 \<and> size_ok n"
    and "length ns + length (nonempty_names es) \<le> 49"
  shows "tarfs_dir_loop img h (table_of ns) = Some (Inr (table_of (ns @ nonempty_names es)))"
  using assms
proof (induction es arbitrary: h ns)
  case Nil
  then have "\<not> h \<le> tar_end img" by simp
  then show ?case by (simp add: tarfs_dir_loop.simps [of img h] nonempty_names_def)
next
  case (Cons e es)
  obtain nm n where e: "e = (nm, n)" by fastforce
  with Cons.prems obtain bs where bs: "h \<le> tar_end img" "header_name img h = Inr bs" "0 \<in> set bs" "cstring bs = nm"
    "header_size img h = Inr n" "tar_chain img (tar_next h n) es h'" "length nm < 100" "size_ok n" by (auto dest: octal_size_header)
  define ns' where "ns' = (if n > 0 then ns @ [nm] else ns)"
  have "nonempty_names (e # es) = (if n > 0 then nm # nonempty_names es else nonempty_names es)"
    by (simp add: nonempty_names_def e)
  then have ns': "ns @ nonempty_names (e # es) = ns' @ nonempty_names es" "n > 0 \<Longrightarrow> length ns < 49"
    "length ns' + length (nonempty_names es) \<le> 49"
    using Cons.prems(4) by (simp_all add: ns'_def split: if_splits)
  have "(if n > 0 then add_file img h (table_of ns) else Inr (table_of ns)) = Inr (table_of ns')"
    using add_file_table [OF bs(2,3)] bs(4,7) ns'(2) by (simp add: ns'_def)
  then have "tarfs_dir_loop img h (table_of ns) = tarfs_dir_loop img (tar_next h n) (table_of ns')"
    using bs(1,5) next_header_tar [OF bs(5,8)] by (subst tarfs_dir_loop.simps) simp
  then show ?case using Cons.IH [OF bs(6) Cons.prems(2) _ ns'(3)] Cons.prems(3) ns'(1) by simp
qed

lemma cstring_file_row: "0 \<notin> set nm \<Longrightarrow> length nm < 100 \<Longrightarrow> cstring (file_row nm) = nm \<and> 0 \<in> set (file_row nm)"
  by (auto simp: cstring_def file_row_def takeWhile_append)

fun first_index :: "'a \<Rightarrow> 'a list \<Rightarrow> nat option" where
  "first_index x [] = None"
| "first_index x (y # ys) = (if x = y then Some 0 else map_option Suc (first_index x ys))"

lemma first_index_length: "first_index x ys = Some i \<Longrightarrow> i < length ys"
  by (induction ys arbitrary: i) (auto split: if_splits)

lemma tar_chain_names: "tar_chain img h es h' \<Longrightarrow> (nm, n) \<in> set es \<Longrightarrow> 0 \<notin> set nm"
  by (induction img h es h' rule: tar_chain.induct) (auto simp: cstring_def dest: set_takeWhileD)

lemma tarfs_open_loop_table:
  assumes "0 \<in> set name" and "\<forall>nm\<in>set ns. 0 \<notin> set nm \<and> length nm < 100" and "k \<le> length ns" and "length ns \<le> 49"
  shows "tarfs_open_loop name (table_of ns) [Suc k..<Suc (length ns)] =
    Inr (case first_index (cstring name) (drop k ns) of None \<Rightarrow> 0 | Some i \<Rightarrow> int (Suc (k + i)))"
  using assms(3)
proof (induction k rule: inc_induct)
  case (step k)
  let ?nm = "ns ! k"
  have d: "drop k ns = ?nm # drop (Suc k) ns" "[Suc k..<Suc (length ns)] = Suc k # [Suc (Suc k)..<Suc (length ns)]"
    using step.hyps by (simp_all add: Cons_nth_drop_Suc upt_conv_Cons)
  have "files (table_of ns) ! Suc k = file_row ?nm" using step.hyps assms(4) by (simp add: table_of_def nth_append)
  then have get: "arr_get (files (table_of ns)) (int (Suc k)) = Inr (file_row ?nm)"
    using arr_get_nat [of "Suc k" "files (table_of ns)"] step.hyps assms(4) by (simp add: table_of_def)
  have "0 \<notin> set ?nm" "length ?nm < 100" using assms(2) step.hyps nth_mem by blast+
  then have "strcmp name (file_row ?nm) = Inr (if cstring name = ?nm then 0 else 1)"
    using strcmp_Inr [OF assms(1), of "file_row ?nm"] cstring_file_row [of ?nm] by simp
  then show ?case using get step.IH unfolding d by (auto split: option.splits)
qed simp

section \<open>Properties\<close>

text \<open>
  C21. Reading a file ends and finds it: in an archive in the tar format whose sizes before the file are not positive
  multiples of 512, \<open>tarfs_read\<close> returns the address behind the header of the first entry with the name.
\<close>

theorem tarfs_read_finds:
  assumes "tar_chain img (tar_base img) pre h" and "tar_chain img h [(cstring name, n)] h'"
    and "\<forall>(nm, n)\<in>set pre. nm \<noteq> cstring name \<and> size_ok n" and "0 \<in> set name"
  shows "tarfs_read img name = Inr (h + 512)"
proof -
  obtain bs where "h \<le> tar_end img" "header_name img h = Inr bs" "0 \<in> set bs" "cstring bs = cstring name" using assms(2) by auto
  then have "tarfs_read_loop img name h = Some (Inr (h + 512))"
    using assms(4) by (subst tarfs_read_loop.simps) (simp add: strcmp_Inr posix_header_ustar_def)
  then show ?thesis using tarfs_read_loop_chain [OF assms(1,3,4)] by (simp add: tarfs_read_def)
qed

text \<open>An archive with an empty directory entry \<open>bin/\<close> and a file \<open>bin/ls\<close> of five bytes, and the zero block behind it.\<close>

definition example_header :: "u8 list \<Rightarrow> u8 list \<Rightarrow> u8 list" where
  "example_header name sz = name @ replicate (124 - length name) 0 @ sz @ replicate (388 - length sz) 0"

definition example_tar :: tar_image where
  "example_tar =
     \<lparr>tar_base = 0xFFFFFFFF80210000, tar_end = 0xFFFFFFFF80210000 + 1536,
      tar_bytes =
        example_header [98, 105, 110, 47] [48, 48, 48] @ example_header [98, 105, 110, 47, 108, 115] [48, 48, 53] @
        [1, 2, 3, 4, 5] @ replicate 507 0 @ replicate 512 0\<rparr>"

lemma octal_sizeI:
  assumes "ptr img (h + 124) = Inr bs" and "bs = map (\<lambda>d. 48 + of_nat d) ds @ 0 # rest" and "\<forall>d\<in>set ds. d < 8"
    and "length ds \<le> 11" and "unat n = foldl (\<lambda>v d. v * 8 + d) 0 ds"
  shows "octal_size img h n"
  using assms unfolding octal_size_def by blast

lemma example_tar_headers:
  "header_name example_tar 0xFFFFFFFF80210000 = Inr (tar_bytes example_tar)"
  "header_name example_tar 0xFFFFFFFF80210200 = Inr (drop 512 (tar_bytes example_tar))"
  "header_name example_tar 0xFFFFFFFF80210600 = Inr (replicate 512 0)"
  by (simp_all add: header_name_def ptr_def example_tar_def example_header_def Let_def)

lemma example_tar_sizes:
  "octal_size example_tar 0xFFFFFFFF80210000 0" "octal_size example_tar 0xFFFFFFFF80210200 5"
  "octal_size example_tar 0xFFFFFFFF80210600 0"
proof -
  have z: "replicate 385 (0 :: u8) = 0 # replicate 384 0" "replicate 388 (0 :: u8) = 0 # replicate 387 0"
    using replicate_Suc [of 384 "0 :: u8"] replicate_Suc [of 387 "0 :: u8"] by simp_all
  have p: "\<exists>rest. ptr example_tar (0xFFFFFFFF80210000 + 124) = Inr (map (\<lambda>d. 48 + of_nat d) [0, 0, 0] @ 0 # rest)"
    "\<exists>rest. ptr example_tar (0xFFFFFFFF80210200 + 124) = Inr (map (\<lambda>d. 48 + of_nat d) [0, 0, 5] @ 0 # rest)"
    "\<exists>rest. ptr example_tar (0xFFFFFFFF80210600 + 124) = Inr (map (\<lambda>d. 48 + of_nat d) [] @ 0 # rest)"
    by (simp_all add: ptr_def example_tar_def example_header_def Let_def z)
  from p(1) show "octal_size example_tar 0xFFFFFFFF80210000 0" by (elim exE) (erule octal_sizeI [OF _ refl], simp_all)
  from p(2) show "octal_size example_tar 0xFFFFFFFF80210200 5" by (elim exE) (erule octal_sizeI [OF _ refl], simp_all)
  from p(3) show "octal_size example_tar 0xFFFFFFFF80210600 0" by (elim exE) (erule octal_sizeI [OF _ refl], simp_all)
qed

lemma example_chain:
  "tar_chain example_tar 0xFFFFFFFF80210000 [([98, 105, 110, 47], 0)] 0xFFFFFFFF80210200"
  "tar_chain example_tar 0xFFFFFFFF80210200 [([98, 105, 110, 47, 108, 115], 5)] 0xFFFFFFFF80210600"
  "tar_chain example_tar 0xFFFFFFFF80210600 [([], 0)] 0xFFFFFFFF80210800"
proof -
  have "tar_end example_tar = 0xFFFFFFFF80210600" by (simp add: example_tar_def)
  moreover have "cstring (tar_bytes example_tar) = [98, 105, 110, 47]" "0 \<in> set (tar_bytes example_tar)"
    "cstring (drop 512 (tar_bytes example_tar)) = [98, 105, 110, 47, 108, 115]" "0 \<in> set (drop 512 (tar_bytes example_tar))"
    by (simp_all add: example_tar_def example_header_def cstring_def)
  moreover have "cstring (replicate 512 0) = []" by (simp add: cstring_def)
  ultimately show "tar_chain example_tar 0xFFFFFFFF80210000 [([98, 105, 110, 47], 0)] 0xFFFFFFFF80210200"
    "tar_chain example_tar 0xFFFFFFFF80210200 [([98, 105, 110, 47, 108, 115], 5)] 0xFFFFFFFF80210600"
    "tar_chain example_tar 0xFFFFFFFF80210600 [([], 0)] 0xFFFFFFFF80210800"
    by (simp_all add: example_tar_headers example_tar_sizes tar_next_def)
qed

lemma tar_chain_append: "tar_chain img h es h1 \<Longrightarrow> tar_chain img h1 es' h' \<Longrightarrow> tar_chain img h (es @ es') h'"
  by (induction img h es h1 rule: tar_chain.induct) auto

theorem tarfs_read_finds_witness: "tarfs_read example_tar [98, 105, 110, 47, 108, 115, 0] = Inr 0xFFFFFFFF80210400"
proof -
  have n: "cstring [98, 105, 110, 47, 108, 115, 0] = [98, 105, 110, 47, 108, 115]" by (simp add: cstring_def)
  have b: "tar_base example_tar = 0xFFFFFFFF80210000" by (simp add: example_tar_def)
  have "\<forall>(nm, n)\<in>set [([98, 105, 110, 47], 0)]. nm \<noteq> [98, 105, 110, 47, 108, 115 :: u8] \<and> size_ok n" by (simp add: size_ok_def)
  then show ?thesis
    using tarfs_read_finds [of example_tar "[([98, 105, 110, 47], 0)]" "0xFFFFFFFF80210200" "[98, 105, 110, 47, 108, 115, 0]" 5]
      example_chain(1,2) unfolding n b by simp
qed

text \<open>
  C22. The table of files: on an archive in the tar format that the walk leaves at its end, with at most 49 files that are not
  empty, whose sizes are not multiples of 512 and whose names are shorter than 100, \<open>tarfs_dir\<close> records every file, and
  \<open>tarfs_open\<close> of any name then marks and returns the descriptor of the first file with this name, and 0 if there is none.
\<close>

theorem tarfs_dir_open:
  assumes "tar_chain img (tar_base img) es h'" and "tar_end img < h'"
    and "\<forall>(nm, n)\<in>set es. length nm < 100 \<and> size_ok n" and "length (nonempty_names es) \<le> 49" and "0 \<in> set name"
  shows "\<exists>s. tarfs_dir img initial_files = Inr s \<and> tarfs_open name s = Inr
    (case first_index (cstring name) (nonempty_names es) of
       None \<Rightarrow> (s, 0)
     | Some i \<Rightarrow> (s\<lparr>file_used := (file_used s)[Suc i := 1]\<rparr>, int (Suc i)))"
proof -
  let ?ns = "nonempty_names es" and ?s = "table_of (nonempty_names es)"
  have d: "tarfs_dir img initial_files = Inr ?s"
    using tarfs_dir_loop_chain [OF assms(1-3), of "[]"] assms(4) by (simp add: tarfs_dir_def table_of_Nil)
  have "\<forall>nm\<in>set ?ns. 0 \<notin> set nm \<and> length nm < 100" using assms(3) tar_chain_names [OF assms(1)] by (auto simp: nonempty_names_def)
  then have l: "tarfs_open_loop name ?s [Suc 0..<Suc (length ?ns)] =
      Inr (case first_index (cstring name) ?ns of None \<Rightarrow> 0 | Some i \<Rightarrow> int (Suc i))"
    using tarfs_open_loop_table [OF assms(5), of ?ns 0] assms(4) by (simp only: drop_0 add_0 le0)
  have c: "nat (file_count ?s) = Suc (length ?ns)" by (simp add: table_of_def)
  show ?thesis
  proof (cases "first_index (cstring name) ?ns")
    case None
    then show ?thesis using d l by (simp add: tarfs_open_def c del: upt_Suc)
  next
    case (Some i)
    have "arr_set (file_used ?s) (int (Suc i)) 1 = Inr ((file_used ?s)[Suc i := 1])"
      using first_index_length [OF Some] assms(4) unfolding arr_set_def by (simp add: table_of_def del: of_nat_Suc)
    then show ?thesis using Some d l by (simp add: tarfs_open_def c del: upt_Suc of_nat_Suc)
  qed
qed

theorem tarfs_dir_open_witness:
  "\<exists>s. tarfs_dir example_tar initial_files = Inr s \<and>
    tarfs_open [98, 105, 110, 47, 108, 115, 0] s = Inr (s\<lparr>file_used := (file_used s)[Suc 0 := 1]\<rparr>, int (Suc 0))"
proof -
  let ?es = "[([98, 105, 110, 47], 0), ([98, 105, 110, 47, 108, 115], 5), ([], 0)] :: (u8 list \<times> u32) list"
  have "tar_chain example_tar (tar_base example_tar) ?es 0xFFFFFFFF80210800"
    using tar_chain_append [OF tar_chain_append [OF example_chain(1,2)] example_chain(3)] by (simp add: example_tar_def)
  moreover have "tar_end example_tar < 0xFFFFFFFF80210800" by (simp add: example_tar_def)
  moreover have "\<forall>(nm, n)\<in>set ?es. length nm < 100 \<and> size_ok n" by (simp add: size_ok_def)
  moreover have n: "nonempty_names ?es = [[98, 105, 110, 47, 108, 115]]" by (simp add: nonempty_names_def)
  moreover have "first_index (cstring [98, 105, 110, 47, 108, 115, 0]) [[98, 105, 110, 47, 108, 115 :: u8]] = Some 0"
    by (simp add: cstring_def)
  ultimately show ?thesis
    using tarfs_dir_open [of example_tar ?es "0xFFFFFFFF80210800" "[98, 105, 110, 47, 108, 115, 0]"] by simp
qed

text \<open>A segment as \<open>readelf\<close> should record it.\<close>

definition segment :: "u64 \<Rightarrow> u64 \<Rightarrow> u64 \<Rightarrow> (nat \<Rightarrow> u64) \<Rightarrow> (nat \<Rightarrow> u64) \<Rightarrow> (nat \<Rightarrow> u64) \<Rightarrow> nat \<Rightarrow> exec" where
  "segment bin text_addr text_mem memsz vaddr offset i =
     \<lparr>seg_length = ucast (memsz i), seg_page_start = vaddr i - offset i,
      seg_actual_start = (if i = 0 then text_addr else vaddr i),
      seg_mem = (if i = 0 then text_mem else bin + offset i)\<rparr>"

lemma elf_sizes: "size_of Elf64_Ehdr = 64" "size_of Elf64_Phdr = 56" "size_of Elf64_Shdr = 64"
  by (simp_all add: size_of_def Elf64_Ehdr_def Elf64_Phdr_def Elf64_Shdr_def)

lemma read_segments:
  assumes "\<forall>i<n. get_field img Elf64_Phdr ''p_memsz'' (bin + 64 + of_nat i * 56) = Inr (memsz i) \<and>
      get_field img Elf64_Phdr ''p_vaddr'' (bin + 64 + of_nat i * 56) = Inr (vaddr i) \<and>
      get_field img Elf64_Phdr ''p_offset'' (bin + 64 + of_nat i * 56) = Inr (offset i)"
    and "n \<le> length ex" and "k \<le> n"
  shows "\<exists>len. (k = 0 \<longrightarrow> len = 0) \<and> rfold (read_segment img bin text_addr mem) [0..<k] (0, ex) =
    Inr (len, map (segment bin text_addr mem memsz vaddr offset) [0..<k] @ drop k ex)"
  using assms(3)
proof (induction k)
  case (Suc k)
  let ?seg = "segment bin text_addr mem memsz vaddr offset"
  obtain len where len: "k = 0 \<longrightarrow> len = 0"
    "rfold (read_segment img bin text_addr mem) [0..<k] (0, ex) = Inr (len, map ?seg [0..<k] @ drop k ex)"
    using Suc by auto
  have "arr_set (map ?seg [0..<k] @ drop k ex) (int k) (?seg k) = Inr (map ?seg [0..<Suc k] @ drop (Suc k) ex)"
    using Suc.prems assms(2) by (simp add: arr_set_def list_update_append Cons_nth_drop_Suc [symmetric])
  then have "read_segment img bin text_addr mem k (len, map ?seg [0..<k] @ drop k ex) =
      Inr (len + memsz k, map ?seg [0..<Suc k] @ drop (Suc k) ex)"
    using assms(1) [THEN spec, of k] Suc.prems len(1) by (auto simp: read_segment_def elf_sizes segment_def Let_def)
  then show ?case using len(2) by (simp add: rfold_append)
qed simp

text \<open>
  \<open>readelf\<close> on a program with \<open>n + 1\<close> program headers, of which the array has room for \<open>n\<close>: it records the first \<open>n\<close>
  of them, each with its size in memory and the position of its data, and returns the entry point. The first segment is taken to
  be the code: it is loaded at the address of section 1, from the memory behind the headers.
\<close>

theorem readelf_segments:
  assumes "tarfs_read img name = Inr bin" and "bin \<noteq> 0" and "n \<le> length ex" and "n < 65535"
    and "get_field img Elf64_Ehdr ''e_entry'' bin = Inr entry" and "get_field img Elf64_Ehdr ''e_phnum'' bin = Inr (of_nat (Suc n) :: u16)"
    and "get_field img Elf64_Ehdr ''e_shoff'' bin = Inr shoff" and "get_field img Elf64_Ehdr ''e_phoff'' bin = Inr phoff"
    and "get_field img Elf64_Shdr ''sh_addr'' (bin + shoff + 64) = Inr text_addr"
    and "\<forall>i<n. get_field img Elf64_Phdr ''p_memsz'' (bin + 64 + of_nat i * 56) = Inr (memsz i) \<and>
      get_field img Elf64_Phdr ''p_vaddr'' (bin + 64 + of_nat i * 56) = Inr (vaddr i) \<and>
      get_field img Elf64_Phdr ''p_offset'' (bin + 64 + of_nat i * 56) = Inr (offset i)"
  shows "readelf img name ex = Inr (Some
    (map (segment bin text_addr (bin + 64 + of_nat n * 56 + phoff) memsz vaddr offset) [0..<n] @ drop n ex, of_nat n, entry))"
proof -
  let ?mem = "bin + 64 + of_nat n * 56 + phoff"
  have n: "(of_nat (Suc n) :: u16) - 1 = of_nat n" by simp
  have u: "unat (of_nat n :: u16) = n" "ucast (of_nat n :: u16) = (of_nat n :: u64)"
    using assms(4) by (simp_all add: unat_of_nat unsigned_of_nat take_bit_nat_eq_self)
  obtain len where "rfold (read_segment img bin text_addr ?mem) [0..<n] (0, ex) =
      Inr (len, map (segment bin text_addr ?mem memsz vaddr offset) [0..<n] @ drop n ex)"
    using read_segments [OF assms(10,3) order_refl] by blast
  then show ?thesis using assms(1,2,5-9) unfolding readelf_def by (simp add: Let_def n u elf_sizes del: of_nat_Suc)
qed

text \<open>A program \<open>sh\<close> with a code and a data segment.\<close>

definition example_program :: tar_image where
  "example_program =
     \<lparr>tar_base = 0xFFFFFFFF80210000, tar_end = 0xFFFFFFFF80210000 + 1024,
      tar_bytes = example_header [115, 104] [49, 48, 48] @
        [0, 0, 0, 0, 0, 0, 0, 0, 0, 0, 0, 0, 0, 0, 0, 0, 0, 0, 0, 0, 0, 0, 0, 0, 120, 0, 64, 0, 0, 0, 0, 0, 64, 0, 0, 0, 0, 0, 0, 0, 112, 0, 0, 0, 0, 0, 0, 0, 0, 0, 0, 0, 0, 0, 0, 0, 3, 0, 0, 0, 0, 0, 0, 0] @
        [0, 0, 0, 0, 0, 0, 0, 0, 0, 0, 0, 0, 0, 0, 0, 0, 0, 0, 64, 0, 0, 0, 0, 0, 0, 0, 0, 0, 0, 0, 0, 0, 0, 0, 0, 0, 0, 0, 0, 0, 16, 2, 0, 0, 0, 0, 0, 0, 0, 0, 0, 0, 0, 0, 0, 0] @
        [0, 0, 0, 0, 0, 0, 0, 0, 0, 16, 0, 0, 0, 0, 0, 0, 0, 16, 96, 0, 0, 0, 0, 0, 0, 0, 0, 0, 0, 0, 0, 0, 0, 0, 0, 0, 0, 0, 0, 0, 8, 0, 0, 0, 0, 0, 0, 0, 0, 0, 0, 0, 0, 0, 0, 0] @
        [0, 0, 0, 0, 0, 0, 0, 0, 0, 0, 0, 0, 0, 0, 0, 0, 120, 0, 64, 0, 0, 0, 0, 0, 0, 0, 0, 0, 0, 0, 0, 0, 0, 0, 0, 0, 0, 0, 0, 0, 0, 0, 0, 0, 0, 0, 0, 0, 0, 0, 0, 0, 0, 0, 0, 0, 0, 0, 0, 0, 0, 0, 0, 0]\<rparr>"

lemma example_program_fields:
  "get_field example_program Elf64_Ehdr ''e_entry'' 0xFFFFFFFF80210200 = Inr (0x400078 :: u64)"
  "get_field example_program Elf64_Ehdr ''e_phnum'' 0xFFFFFFFF80210200 = Inr (of_nat (Suc 2) :: u16)"
  "get_field example_program Elf64_Ehdr ''e_shoff'' 0xFFFFFFFF80210200 = Inr (112 :: u64)"
  "get_field example_program Elf64_Ehdr ''e_phoff'' 0xFFFFFFFF80210200 = Inr (64 :: u64)"
  "get_field example_program Elf64_Shdr ''sh_addr'' (0xFFFFFFFF80210200 + 112 + 64) = Inr (0x400078 :: u64)"
  "get_field example_program Elf64_Phdr ''p_memsz'' 0xFFFFFFFF80210240 = Inr (0x210 :: u64)"
  "get_field example_program Elf64_Phdr ''p_vaddr'' 0xFFFFFFFF80210240 = Inr (0x400000 :: u64)"
  "get_field example_program Elf64_Phdr ''p_offset'' 0xFFFFFFFF80210240 = Inr (0 :: u64)"
  "get_field example_program Elf64_Phdr ''p_memsz'' 0xFFFFFFFF80210278 = Inr (8 :: u64)"
  "get_field example_program Elf64_Phdr ''p_vaddr'' 0xFFFFFFFF80210278 = Inr (0x601000 :: u64)"
  "get_field example_program Elf64_Phdr ''p_offset'' 0xFFFFFFFF80210278 = Inr (0x1000 :: u64)"
  by (simp_all add: get_field_def read_le_def ptr_def example_program_def example_header_def Elf64_Ehdr_def Elf64_Phdr_def
      Elf64_Shdr_def Let_def)

lemma example_program_found: "tarfs_read example_program [115, 104, 0] = Inr 0xFFFFFFFF80210200"
proof -
  have "header_name example_program 0xFFFFFFFF80210000 = Inr (tar_bytes example_program)"
    by (simp add: header_name_def ptr_def example_program_def example_header_def)
  moreover have "0 \<in> set (tar_bytes example_program)" "cstring (tar_bytes example_program) = [115, 104]"
    by (simp_all add: example_program_def example_header_def cstring_def)
  moreover have "cstring [115, 104, 0] = [115, 104]" by (simp add: cstring_def)
  ultimately have "tarfs_read_loop example_program [115, 104, 0] 0xFFFFFFFF80210000 = Some (Inr 0xFFFFFFFF80210200)"
    by (subst tarfs_read_loop.simps) (simp add: strcmp_Inr posix_header_ustar_def example_program_def)
  then show ?thesis by (simp add: tarfs_read_def) (simp add: example_program_def)
qed

theorem readelf_segments_witness:
  "\<exists>ex. readelf example_program [115, 104, 0] (replicate 20 \<lparr>seg_length = 0, seg_page_start = 0, seg_actual_start = 0, seg_mem = 0\<rparr>) =
      Inr (Some (ex, 2, 0x400078)) \<and>
    ex ! 1 = \<lparr>seg_length = 8, seg_page_start = 0x600000, seg_actual_start = 0x601000, seg_mem = 0xFFFFFFFF80211200\<rparr>"
proof -
  let ?memsz = "\<lambda>i. if i = 0 then 0x210 else 8 :: u64" and ?vaddr = "\<lambda>i. if i = 0 then 0x400000 else 0x601000 :: u64"
  let ?offset = "\<lambda>i. if i = 0 then 0 else 0x1000 :: u64" and ?bin = "0xFFFFFFFF80210200 :: u64"
  have i: "\<forall>i<2. get_field example_program Elf64_Phdr ''p_memsz'' (?bin + 64 + of_nat i * 56) = Inr (?memsz i) \<and>
      get_field example_program Elf64_Phdr ''p_vaddr'' (?bin + 64 + of_nat i * 56) = Inr (?vaddr i) \<and>
      get_field example_program Elf64_Phdr ''p_offset'' (?bin + 64 + of_nat i * 56) = Inr (?offset i)"
    by (auto simp: less_2_cases_iff example_program_fields)
  let ?ex = "replicate 20 \<lparr>seg_length = 0, seg_page_start = 0, seg_actual_start = 0, seg_mem = 0\<rparr>"
  from readelf_segments [OF example_program_found _ _ _ example_program_fields(1-5) i, of ?ex]
  have "readelf example_program [115, 104, 0] ?ex = Inr (Some (map (segment ?bin 0x400078 (?bin + 64 + of_nat 2 * 56 + 64)
      ?memsz ?vaddr ?offset) [0..<2] @ drop 2 ?ex, of_nat 2, 0x400078))" by simp
  then show ?thesis by (simp add: segment_def upt_rec [of _ 2])
qed

end
