(* ===== verification/Process.thy ===== *)
theory Process
  imports Page_Copy Scheduling Elf
begin

text \<open>
  Processes: the memory areas of a process (\<open>sys/mmap.c\<close>), loading a program (\<open>sys/exec.c\<close>), and the frame of
  saved registers that the interrupt stubs and \<open>fork\<close> use (\<open>include/sys/idt.h\<close>, \<open>sys/isr.s\<close>). The pages of
  user programs are bytes by physical address, reached through the page tables of the current process;
  an address without a translation is a fault. The descriptors of memory areas live in a memory of
  their own, indexed by address.
\<close>

section \<open>State\<close>

record vm_area_struct =
  vma_name :: u64
  vm_start :: u64
  vm_end :: u64
  vm_flags :: u16
  vm_next :: u64

record proc_state =
  kern_st :: kernel_state
  vma_mem :: "u64 \<Rightarrow> vm_area_struct"
  user_mem :: "u64 \<Rightarrow> u8"

definition zero_vma :: vm_area_struct where
  "zero_vma = \<lparr>vma_name = 0, vm_start = 0, vm_end = 0, vm_flags = 0, vm_next = 0\<rparr>"

text \<open>An operation on the threads, and one on the page tables, within the state of processes.\<close>

definition on_kern :: "(kernel_state \<Rightarrow> kernel_state res) \<Rightarrow> proc_state \<Rightarrow> proc_state res" where
  "on_kern f p = rbind (f (kern_st p)) (\<lambda>s. Inr (p\<lparr>kern_st := s\<rparr>))"

definition on_vm :: "(vm_state \<Rightarrow> vm_state res) \<Rightarrow> kernel_state \<Rightarrow> kernel_state res" where
  "on_vm f s = rbind (f (vm (kheap s))) (\<lambda>v. Inr (s\<lparr>kheap := (kheap s)\<lparr>vm := v\<rparr>\<rparr>))"

definition kalloc_block :: "kernel_state \<Rightarrow> (kernel_state \<times> u64) res" where
  "kalloc_block s =
     rbind (mmgr_alloc_block (phys_mgr (vm (kheap s)))) (\<lambda>(mgr, b).
     Inr (s\<lparr>kheap := (kheap s)\<lparr>vm := (vm (kheap s))\<lparr>phys_mgr := mgr\<rparr>\<rparr>\<rparr>, b))"

section \<open>Memory of a process\<close>

definition vaddr :: "u64 \<Rightarrow> proc_state \<Rightarrow> u64 res" where
  "vaddr a p =
     (let v = vm (kheap (kern_st p)) in
      case walk (phys_mem v) (cr3 v) a of None \<Rightarrow> Inl WildPointer | Some q \<Rightarrow> Inr q)"

definition get_byte :: "u64 \<Rightarrow> proc_state \<Rightarrow> u8 res" where
  "get_byte a p = rbind (vaddr a p) (\<lambda>q. Inr (user_mem p q))"

definition put_byte :: "u64 \<Rightarrow> u8 \<Rightarrow> proc_state \<Rightarrow> proc_state res" where
  "put_byte a c p = rbind (vaddr a p) (\<lambda>q. Inr (p\<lparr>user_mem := (user_mem p)(q := c)\<rparr>))"

text \<open>\<open>memcpy\<close> from the memory of a process into an array of the kernel, and back.\<close>

definition copy_from_user :: "u64 \<Rightarrow> nat \<Rightarrow> proc_state \<Rightarrow> u8 list res" where
  "copy_from_user a n p =
     rfold (\<lambda>i bs. rbind (get_byte (a + of_nat i) p) (\<lambda>c. Inr (bs @ [c]))) [0..<n] []"

definition copy_to_user :: "u64 \<Rightarrow> u8 list \<Rightarrow> proc_state \<Rightarrow> proc_state res" where
  "copy_to_user a bs p =
     rfold (\<lambda>i p. put_byte (a + of_nat i) (bs ! i) p) [0..<length bs] p"

section \<open>Memory areas\<close>

definition insert_vma :: "u64 \<Rightarrow> u64 \<Rightarrow> proc_state \<Rightarrow> proc_state res" where
  "insert_vma vma k p =
     rbind (get_thread k (kern_st p)) (\<lambda>t.
     let p = p\<lparr>vma_mem := (vma_mem p)(vma := (vma_mem p vma)\<lparr>vm_next := 0\<rparr>)\<rparr> in
     rbind (if mmap_first t = 0 then on_kern (upd_thread k (\<lambda>t. t\<lparr>mmap_first := vma\<rparr>)) p
            else if mmap_cache t = 0 then Inl NullPointer
            else Inr (p\<lparr>vma_mem := (vma_mem p)(mmap_cache t := (vma_mem p (mmap_cache t))\<lparr>vm_next := vma\<rparr>)\<rparr>)) (\<lambda>p.
     on_kern (upd_thread k (\<lambda>t. t\<lparr>mmap_cache := vma\<rparr>)) p))"

text \<open>
  The arguments that the code does not use are left out, all but the length; \<open>area_name\<close> is the address
  of the constant string. \<open>sizeof(vm_area_struct)\<close> is 40.
\<close>

definition mmap :: "u64 \<Rightarrow> u64 \<Rightarrow> u32 \<Rightarrow> u64 \<Rightarrow> proc_state \<Rightarrow> proc_state res" where
  "mmap area_name addr len k p =
     rbind (kmalloc 40 False (kern_st p)) (\<lambda>(s, vma).
     if vma = 0 then Inl NullPointer
     else
       let p = p\<lparr>kern_st := s, vma_mem := (vma_mem p)(vma := zero_vma)\<rparr> in
       rbind (kalloc_block (kern_st p)) (\<lambda>(s, new_pte).
       rbind (on_kern (on_vm (vmmgr_map_page_after_paging new_pte addr True)) (p\<lparr>kern_st := s\<rparr>)) (\<lambda>p.
       let p = p\<lparr>vma_mem := (vma_mem p)(vma := (vma_mem p vma)
                 \<lparr>vma_name := area_name, vm_start := addr, vm_end := addr + 0x1000\<rparr>)\<rparr>
       in insert_vma vma k p)))"

section \<open>Saved registers\<close>

record regs =
  reg_r15 :: u64
  reg_r14 :: u64
  reg_r13 :: u64
  reg_r12 :: u64
  reg_r11 :: u64
  reg_r10 :: u64
  reg_r9 :: u64
  reg_r8 :: u64
  reg_rsi :: u64
  reg_rdi :: u64
  reg_rbp :: u64
  reg_rdx :: u64
  reg_rcx :: u64
  reg_rbx :: u64
  reg_rax :: u64
  reg_intNo :: u64
  reg_errCode :: u64
  reg_rip :: u64
  reg_cs :: u64
  reg_rflags :: u64
  reg_rsp :: u64
  reg_ss :: u64

text \<open>
  The words of the structure in the order they lie in memory. This is also the order in which the stub
  takes them off the stack: the macro \<open>POPAQ\<close>, the two words that \<open>add $0x10, %rsp\<close> skips, and the five
  words of \<open>iretq\<close>.
\<close>

definition regs_of_words :: "u64 list \<Rightarrow> regs" where
  "regs_of_words ws =
     \<lparr>reg_r15 = ws ! 0, reg_r14 = ws ! 1, reg_r13 = ws ! 2, reg_r12 = ws ! 3, reg_r11 = ws ! 4, reg_r10 = ws ! 5,
      reg_r9 = ws ! 6, reg_r8 = ws ! 7, reg_rsi = ws ! 8, reg_rdi = ws ! 9, reg_rbp = ws ! 10, reg_rdx = ws ! 11,
      reg_rcx = ws ! 12, reg_rbx = ws ! 13, reg_rax = ws ! 14, reg_intNo = ws ! 15, reg_errCode = ws ! 16,
      reg_rip = ws ! 17, reg_cs = ws ! 18, reg_rflags = ws ! 19, reg_rsp = ws ! 20, reg_ss = ws ! 21\<rparr>"

definition regs_at :: "(u64 \<Rightarrow> u64) \<Rightarrow> u64 \<Rightarrow> regs" where
  "regs_at m a = regs_of_words (map (\<lambda>i. m (a + 8 * of_nat i)) [0..<22])"

definition PushU :: "u64 \<Rightarrow> u64 \<Rightarrow> kernel_state \<Rightarrow> kernel_state res" where
  "PushU k v s =
     rbind (upd_thread k (\<lambda>t. t\<lparr>krsp := krsp t - 8\<rparr>) s) (\<lambda>s.
     Inr (s\<lparr>kmem := (kmem s)(krsp (threads s k) := v)\<rparr>))"

section \<open>Creating a user process\<close>

definition UserStack :: u64 where
  "UserStack = 0xbff000"

definition UserHeap :: u64 where
  "UserHeap = 0x80000"

definition PushU_General_Registers :: "u64 \<Rightarrow> kernel_state \<Rightarrow> kernel_state res" where
  "PushU_General_Registers k s = rfold (PushU k) (replicate 15 0) s"

definition setup_kthread_user :: "u64 \<Rightarrow> u64 \<Rightarrow> kernel_state \<Rightarrow> kernel_state res" where
  "setup_kthread_user k startFunc s =
     rbind (PushU k USER_DS s) (\<lambda>s.
     rbind (PushU k (rsp (threads s k)) s) (\<lambda>s.
     rbind (PushU k 0x200 s) (\<lambda>s.
     rbind (PushU k USER_CS s) (\<lambda>s.
     rbind (PushU k startFunc s) (\<lambda>s.
     rbind (PushU k 0 s) (\<lambda>s.
     rbind (PushU k 0 s) (\<lambda>s.
     PushU_General_Registers k s)))))))"

definition Init_Thread_user :: "u64 \<Rightarrow> u64 \<Rightarrow> u64 \<Rightarrow> u16 \<Rightarrow> bool \<Rightarrow> kernel_state \<Rightarrow> kernel_state res" where
  "Init_Thread_user k nm stack_page prio detached s =
     (let own = (if detached then 0 else currentThread s) in
      rbind (get_thread (currentThread s) s) (\<lambda>cur.
      rbind (upd_thread k (\<lambda>t. t\<lparr>stackPage := stack_page, rsp := stack_page + 4096 - 8\<rparr>) s) (\<lambda>s.
      rbind (upd_thread k (\<lambda>t.
          if k \<noteq> currentThread s
          then t\<lparr>krsp := kstack t + 2 * 4096 - 8, kstack := kstack t + 2 * 4096 - 8\<rparr>
          else t\<lparr>krsp := kstack t - 8\<rparr>) s) (\<lambda>s.
      rbind (upd_thread k (\<lambda>t. t\<lparr>
          priority := uint prio,
          owner := own,
          refCount := (if detached then 1 else 2),
          kernel_thread := 0,
          no_stack_pages := 1,
          alive := True,
          sleeping := 0,
          thr_name := nm,
          pcr3 := get_cr3_register s,
          thr_cr3 := thr_cr3 cur\<rparr>) s) (\<lambda>s.
      if k \<noteq> currentThread s
      then let (s, n) = alloc_pid s in upd_thread k (\<lambda>t. t\<lparr>pid := n\<rparr>) s
      else Inr s)))))"

definition create_kthread_user :: "u64 \<Rightarrow> u16 \<Rightarrow> bool \<Rightarrow> kernel_state \<Rightarrow> (kernel_state \<times> u64) res" where
  "create_kthread_user nm prio detached s =
     rbind (kmalloc 0 True s) (\<lambda>(s, k).
     if k = 0 then Inr (s, 0)
     else
       rbind (kmalloc 1 True s) (\<lambda>(s, stack).
       rbind (upd_thread k (\<lambda>t. t\<lparr>kstack := stack\<rparr>) s) (\<lambda>s.
       if stack = 0 then rbind (kfree stack s) (\<lambda>s. Inr (s, 0))
       else
         rbind (Init_Thread_user k nm UserStack prio detached s) (\<lambda>s.
         rbind (append_global_list_queue k s) (\<lambda>s. Inr (s, k))))))"

definition create_new_task :: "u64 \<Rightarrow> u64 \<Rightarrow> kernel_state \<Rightarrow> kernel_state res" where
  "create_new_task k startFunc s = setup_kthread_user k startFunc s"

text \<open>One segment: a page is mapped, and the bytes are copied from the archive to the address of the segment.\<close>

definition load_segment :: "tar_image \<Rightarrow> u64 \<Rightarrow> u64 \<Rightarrow> exec list \<Rightarrow> nat \<Rightarrow> proc_state \<Rightarrow> proc_state res" where
  "load_segment img area_name k executable i p =
     rbind (arr_get executable (int i)) (\<lambda>e.
     rbind (mmap area_name (seg_page_start e) (seg_length e) k p) (\<lambda>p.
     rbind (ptr img (seg_mem e)) (\<lambda>bs.
     if unat (seg_length e) \<le> length bs
     then copy_to_user (seg_actual_start e) (take (unat (seg_length e)) bs) p
     else Inl OutOfBounds)))"

text \<open>
  The part that \<open>do_exec\<close> and \<open>do_exec1\<close> have in common: the segments, a page of stack, a page of heap and the
  frame that starts the program. The array of segments is not initialised: its contents are an argument.
\<close>

definition load_program ::
  "tar_image \<Rightarrow> u64 \<Rightarrow> u64 \<Rightarrow> exec list \<times> u16 \<times> u64 \<Rightarrow> proc_state \<Rightarrow> proc_state res" where
  "load_program img area_name k = (\<lambda>(executable, pgm_entries, entry_point) p.
     rbind (rfold (load_segment img area_name k executable) [0..<unat pgm_entries] p) (\<lambda>p.
     rbind (mmap area_name UserStack 4096 k p) (\<lambda>p.
     rbind (mmap area_name UserHeap 4096 k p) (\<lambda>p.
     rbind (on_kern (upd_thread k (\<lambda>t. t\<lparr>brk := int_of_u64 UserHeap\<rparr>)) p) (\<lambda>p.
     on_kern (create_new_task k entry_point) p)))))"

definition do_exec :: "tar_image \<Rightarrow> u64 \<Rightarrow> exec list \<Rightarrow> u64 \<Rightarrow> u8 list \<Rightarrow> proc_state \<Rightarrow> (proc_state \<times> u32) res" where
  "do_exec img area_name executable name_ptr name p =
     rbind (readelf img name executable) (\<lambda>r.
     case r of
       None \<Rightarrow> Inr (p, 0)
     | Some prog \<Rightarrow>
         rbind (create_kthread_user name_ptr 10 True (kern_st p)) (\<lambda>(s, k).
         let p = p\<lparr>kern_st := s\<rparr> in
         if k = 0 then Inr (p, 0)
         else
           rbind (load_program img area_name k prog p) (\<lambda>p.
           rbind (on_kern (add_to_ptable k) p) (\<lambda>p.
           rbind (on_kern (\<lambda>s. runnable_kthread k (disable_interrupts s)) p) (\<lambda>p.
           Inr (p\<lparr>kern_st := enable_interrupts (kern_st p)\<rparr>, 1))))))"

definition do_exec1 :: "tar_image \<Rightarrow> u64 \<Rightarrow> exec list \<Rightarrow> u64 \<Rightarrow> u8 list \<Rightarrow> proc_state \<Rightarrow> proc_state res" where
  "do_exec1 img area_name executable name_ptr name p =
     (let k = currentThread (kern_st p) in
      rbind (on_kern (Init_Thread_user k name_ptr UserStack 10 True) p) (\<lambda>p.
      rbind (on_kern (append_global_list_queue k) p) (\<lambda>p.
      rbind (readelf img name executable) (\<lambda>r.
      case r of
        None \<Rightarrow> Inr p
      | Some prog \<Rightarrow>
          rbind (load_program img area_name k prog p) (\<lambda>p. on_kern (runnable_kthread k) p)))))"

partial_function (option) clear_vmas_loop :: "u64 \<Rightarrow> proc_state \<Rightarrow> proc_state res option" where
  "clear_vmas_loop crawl p =
     (if crawl \<noteq> 0 then
        (let tmp = vm_next (vma_mem p crawl);
             p = p\<lparr>vma_mem := (vma_mem p)(crawl := zero_vma)\<rparr> in
         case on_kern (kfree crawl) p of
           Inl e \<Rightarrow> Some (Inl e)
         | Inr p \<Rightarrow> clear_vmas_loop tmp p)
      else Some (Inr p))"

definition clear_vmas :: "u64 \<Rightarrow> proc_state \<Rightarrow> proc_state res" where
  "clear_vmas k p =
     rbind (get_thread k (kern_st p)) (\<lambda>t.
     rbind (case clear_vmas_loop (mmap_first t) p of None \<Rightarrow> Inl Halt | Some r \<Rightarrow> r) (\<lambda>p.
     on_kern (upd_thread k (\<lambda>t. t\<lparr>mmap_first := 0, mmap_cache := 0\<rparr>)) p))"

definition reload_cr3 :: "u64 \<Rightarrow> kernel_state \<Rightarrow> kernel_state" where
  "reload_cr3 c s = s\<lparr>kheap := (kheap s)\<lparr>vm := (vm (kheap s))\<lparr>cr3 := c\<rparr>\<rparr>\<rparr>"

text \<open>The local array \<open>temp\<close> has 30 bytes; \<open>temp_ptr\<close> is its address on the kernel stack.\<close>

definition main_execve :: "tar_image \<Rightarrow> u64 \<Rightarrow> exec list \<Rightarrow> u64 \<Rightarrow> u8 list \<Rightarrow> proc_state \<Rightarrow> proc_state res" where
  "main_execve img area_name executable temp_ptr name p =
     rbind (strlen name) (\<lambda>l.
     rbind (strncpy (replicate 30 0) name (word_of_int l)) (\<lambda>temp.
     let k = currentThread (kern_st p) in
     rbind (clear_vmas k p) (\<lambda>p.
     rbind (get_thread k (kern_st p)) (\<lambda>t.
     rbind (on_kern (on_vm (clear_page_tables (thr_cr3 t))) p) (\<lambda>p.
     do_exec1 img area_name executable temp_ptr temp (p\<lparr>kern_st := reload_cr3 (pcr3 t) (kern_st p)\<rparr>))))))"

section \<open>Frames of saved registers\<close>

lemma rfold_step: "rfold f (x # xs) = (\<lambda>s. rbind (f x s) (rfold f xs))"
  by (rule ext) simp

lemma PushU_eq:
  "k \<noteq> 0 \<Longrightarrow> PushU k v s =
     Inr (s\<lparr>threads := (threads s)(k := threads s k\<lparr>krsp := krsp (threads s k) - 8\<rparr>),
            kmem := (kmem s)(krsp (threads s k) - 8 := v)\<rparr>)"
  by (simp add: PushU_def upd_thread_def)

lemma PushU_list:
  "k \<noteq> 0 \<Longrightarrow> rfold (PushU k) vs s =
     Inr (s\<lparr>threads := (threads s)(k := threads s k\<lparr>krsp := krsp (threads s k) - 8 * of_nat (length vs)\<rparr>),
            kmem := pushed (kmem s) (krsp (threads s k)) vs\<rparr>)"
proof (induction vs arbitrary: s)
  case (Cons v vs)
  let ?r = "krsp (threads s k)"
  let ?t = "s\<lparr>threads := (threads s)(k := threads s k\<lparr>krsp := ?r - 8\<rparr>), kmem := (kmem s)(?r - 8 := v)\<rparr>"
  have eq: "?r - 8 - 8 * of_nat (length vs) = ?r - 8 * of_nat (length (v # vs))" by (simp add: algebra_simps)
  have "rfold (PushU k) (v # vs) s = rfold (PushU k) vs ?t"
    by (simp only: rfold.simps PushU_eq [OF Cons.prems, of v s] rbind_simps)
  also have "\<dots> = Inr (?t\<lparr>threads := (threads ?t)(k := threads ?t k\<lparr>krsp := krsp (threads ?t k) - 8 * of_nat (length vs)\<rparr>),
      kmem := pushed (kmem ?t) (krsp (threads ?t k)) vs\<rparr>)" by (rule Cons.IH [OF Cons.prems])
  finally show ?case by (simp add: eq fun_upd_def cong: if_cong del: length_Cons)
qed simp

text \<open>The words on the stack, from its top, are those pushed, last first.\<close>

lemma pushed_words:
  assumes "length vs = n" and "n < 2 ^ 60"
  shows "map (\<lambda>i. pushed m r vs (r - 8 * of_nat n + 8 * of_nat i)) [0..<n] = rev vs"
proof (rule nth_equalityI)
  fix i assume "i < length (map (\<lambda>i. pushed m r vs (r - 8 * of_nat n + 8 * of_nat i)) [0..<n])"
  then have i: "i < n" by simp
  have eq: "r - 8 * of_nat n + 8 * of_nat i = r - 8 * of_nat (Suc (n - Suc i))"
  proof -
    have "Suc (n - Suc i) = n - i" using i by simp
    then have "of_nat (Suc (n - Suc i)) = (of_nat n - of_nat i :: u64)" using i by (simp only: of_nat_diff less_imp_le)
    then have "8 * of_nat (Suc (n - Suc i)) = (8 * of_nat n - 8 * of_nat i :: u64)"
      by (simp only: right_diff_distrib)
    then show ?thesis by (simp only: diff_diff_eq2 add_diff_eq diff_add_eq)
  qed
  have "pushed m r vs (r - 8 * of_nat n + 8 * of_nat i) = vs ! (n - Suc i)"
    unfolding eq by (rule pushed_nth) (use i assms in auto)
  then show "map (\<lambda>i. pushed m r vs (r - 8 * of_nat n + 8 * of_nat i)) [0..<n] ! i = rev vs ! i"
    using i assms by (simp add: rev_nth)
qed (use assms in simp)

lemma regs_at_pushed:
  assumes "length vs = 22"
  shows "regs_at (pushed m r vs) (r - 8 * of_nat 22) = regs_of_words (rev vs)"
  using pushed_words [of vs 22 m r] assms by (simp add: regs_at_def)

section \<open>The areas of a process\<close>

text \<open>The areas from \<open>a\<close> on, ending with NULL.\<close>

fun areas :: "(u64 \<Rightarrow> vm_area_struct) \<Rightarrow> u64 \<Rightarrow> u64 list \<Rightarrow> bool" where
  "areas m a [] \<longleftrightarrow> a = 0"
| "areas m a (x # xs) \<longleftrightarrow> a = x \<and> x \<noteq> 0 \<and> areas m (vm_next (m x)) xs"

definition vma_list :: "proc_state \<Rightarrow> u64 \<Rightarrow> u64 list \<Rightarrow> bool" where
  "vma_list p k xs \<longleftrightarrow> distinct xs \<and> areas (vma_mem p) (mmap_first (threads (kern_st p) k)) xs \<and>
     (xs \<noteq> [] \<longrightarrow> mmap_cache (threads (kern_st p) k) = last xs)"

lemma areas_other: "areas m a xs \<Longrightarrow> y \<notin> set xs \<Longrightarrow> areas (m(y := v)) a xs"
  by (induction xs arbitrary: a) auto

lemma areas_nonzero: "areas m a xs \<Longrightarrow> y \<in> set xs \<Longrightarrow> y \<noteq> 0"
  by (induction xs arbitrary: a) auto

lemma areas_append:
  "areas m a xs \<Longrightarrow> xs \<noteq> [] \<Longrightarrow> distinct xs \<Longrightarrow> v \<notin> set xs \<Longrightarrow> v \<noteq> 0 \<Longrightarrow>
     areas (m(v := w\<lparr>vm_next := 0\<rparr>, last xs := (m (last xs))\<lparr>vm_next := v\<rparr>)) a (xs @ [v])"
proof (induction xs arbitrary: a)
  case (Cons x xs)
  show ?case
  proof (cases "xs = []")
    case False
    then have "last xs \<noteq> x" "last xs \<in> set xs" using Cons.prems by auto
    then show ?thesis using Cons False by auto
  qed (use Cons.prems in auto)
qed simp

lemma insert_vma_appends:
  assumes "vma_list p k xs" and "k \<noteq> 0" and "v \<noteq> 0" and "v \<notin> set xs"
  obtains p' where "insert_vma v k p = Inr p'" and "vma_list p' k (xs @ [v])"
    and "vma_mem p' v = (vma_mem p v)\<lparr>vm_next := 0\<rparr>" and "kheap (kern_st p') = kheap (kern_st p)"
    and "user_mem p' = user_mem p"
proof (cases "xs = []")
  case True
  let ?t = "threads (kern_st p) k"
  have z: "mmap_first ?t = 0" using assms(1) True by (simp add: vma_list_def)
  have run: "insert_vma v k p =
      Inr (p\<lparr>vma_mem := (vma_mem p)(v := (vma_mem p v)\<lparr>vm_next := 0\<rparr>),
        kern_st := (kern_st p)\<lparr>threads := (threads (kern_st p))(k := ?t\<lparr>mmap_first := v, mmap_cache := v\<rparr>)\<rparr>\<rparr>)"
    using z assms(2) by (simp add: insert_vma_def get_thread_def upd_thread_def on_kern_def Let_def)
  show ?thesis using True assms(3) by (intro that [OF run]) (auto simp: vma_list_def)
next
  case False
  let ?t = "threads (kern_st p) k" and ?m = "vma_mem p"
  have x: "areas ?m (mmap_first ?t) xs" "mmap_cache ?t = last xs" "distinct xs" "last xs \<in> set xs"
    using assms(1) False by (auto simp: vma_list_def)
  have nz: "mmap_first ?t \<noteq> 0" "last xs \<noteq> 0"
  proof -
    show "mmap_first ?t \<noteq> 0" using x(1) False by (cases xs) auto
    show "last xs \<noteq> 0" using areas_nonzero [OF x(1,4)] .
  qed
  have ne: "last xs \<noteq> v" using x(4) assms(4) by auto
  let ?m' = "?m(v := (?m v)\<lparr>vm_next := 0\<rparr>, last xs := (?m (last xs))\<lparr>vm_next := v\<rparr>)"
  have run: "insert_vma v k p =
      Inr (p\<lparr>vma_mem := ?m', kern_st := (kern_st p)\<lparr>threads := (threads (kern_st p))(k := ?t\<lparr>mmap_cache := v\<rparr>)\<rparr>\<rparr>)"
    using nz x(2) assms(2) ne by (simp add: insert_vma_def get_thread_def upd_thread_def on_kern_def Let_def)
  show ?thesis
    using areas_append [OF x(1) False x(3) assms(4,3), of "?m v"] x(3) assms(4) ne
    by (intro that [OF run]) (auto simp: vma_list_def)
qed

text \<open>What \<open>mmap\<close> needs: a descriptor from the heap, a frame, and what the mapping of the page needs.\<close>

definition mmap_ready :: "u64 \<Rightarrow> u64 \<Rightarrow> u64 \<Rightarrow> kernel_state \<Rightarrow> proc_state \<Rightarrow> bool" where
  "mmap_ready addr vma b s2 p \<longleftrightarrow>
     (\<exists>s1 L. kmalloc 40 False (kern_st p) = Inr (s1, vma) \<and> vma \<noteq> 0 \<and> kalloc_block s1 = Inr (s2, b) \<and>
        frame_addr b \<and> PAGE_PML4_OFFSET addr \<noteq> 510 \<and> paging L (vm (kheap s2)) \<and>
        available L (vm (kheap s2)) (missing (phys_mem (vm (kheap s2))) (cr3 (vm (kheap s2))) (indices addr)))"

lemma mmap_adds_area:
  assumes ready: "mmap_ready addr vma b s2 p" and xs: "vma_list p k xs" "vma \<notin> set xs" and k: "k \<noteq> 0"
  obtains p' where "mmap area_name addr len k p = Inr p'" and "vma_list p' k (xs @ [vma])"
    and "vma_mem p' vma = \<lparr>vma_name = area_name, vm_start = addr, vm_end = addr + 0x1000, vm_flags = 0, vm_next = 0\<rparr>"
    and "user_mem p' = user_mem p" and "cr3 (vm (kheap (kern_st p'))) = cr3 (vm (kheap s2))"
    and "\<And>v. PAGE_PML4_OFFSET v \<noteq> 510 \<Longrightarrow> walk (phys_mem (vm (kheap (kern_st p')))) (cr3 (vm (kheap s2))) v =
      (if indices v = indices addr then Some (b + (v AND 0xFFF)) else walk (phys_mem (vm (kheap s2))) (cr3 (vm (kheap s2))) v)"
proof -
  let ?v2 = "vm (kheap s2)"
  obtain s1 L where r: "kmalloc 40 False (kern_st p) = Inr (s1, vma)" "vma \<noteq> 0" "kalloc_block s1 = Inr (s2, b)"
      "frame_addr b" "PAGE_PML4_OFFSET addr \<noteq> 510" "paging L ?v2"
      "available L ?v2 (missing (phys_mem ?v2) (cr3 ?v2) (indices addr))"
    using ready by (auto simp: mmap_ready_def)
  obtain v3 L3 where m: "vmmgr_map_page_after_paging b addr True ?v2 = Inr v3" "cr3 v3 = cr3 ?v2"
      "\<And>v. PAGE_PML4_OFFSET v \<noteq> 510 \<Longrightarrow> walk (phys_mem v3) (cr3 ?v2) v =
        (if indices v = indices addr then Some (b + (v AND 0xFFF)) else walk (phys_mem ?v2) (cr3 ?v2) v)"
    by (rule map_page_after_refines [OF r(6,5,4,7), of True]) blast
  have thr: "threads s2 = threads (kern_st p)"
    using r(1,3) by (auto simp: kmalloc_def kalloc_block_def rbind_def split: sum.splits)
  let ?a = "\<lparr>vma_name = area_name, vm_start = addr, vm_end = addr + 0x1000, vm_flags = 0, vm_next = 0\<rparr>"
  define q where "q = p\<lparr>kern_st := s2\<lparr>kheap := (kheap s2)\<lparr>vm := v3\<rparr>\<rparr>, vma_mem := (vma_mem p)(vma := ?a)\<rparr>"
  have run: "mmap area_name addr len k p = insert_vma vma k q"
    using r(1-3) m(1) by (simp add: mmap_def on_kern_def on_vm_def Let_def q_def zero_vma_def)
  have "vma_list q k xs" using xs thr areas_other by (auto simp: vma_list_def q_def)
  from insert_vma_appends [OF this k r(2) xs(2)] obtain p' where p': "insert_vma vma k q = Inr p'"
      "vma_list p' k (xs @ [vma])" "vma_mem p' vma = (vma_mem q vma)\<lparr>vm_next := 0\<rparr>"
      "kheap (kern_st p') = kheap (kern_st q)" "user_mem p' = user_mem q" .
  show ?thesis by (rule that [of p']) (use p' run m in \<open>simp_all add: q_def\<close>)
qed

section \<open>Properties\<close>

text \<open>
  C15. \<open>setup_kthread_user\<close> leaves on the kernel stack of a new process a frame of 22 words that the return
  from an interrupt turns into the start of the program: all general registers zero, the entry point,
  the selectors of user mode, the interrupt flag set and the stack pointer of the thread.
\<close>

theorem setup_kthread_user_frame:
  assumes "k \<noteq> 0"
  shows "\<exists>s'. setup_kthread_user k startFunc s = Inr s' \<and> krsp (threads s' k) = krsp (threads s k) - 176 \<and>
    regs_at (kmem s') (krsp (threads s' k)) =
      \<lparr>reg_r15 = 0, reg_r14 = 0, reg_r13 = 0, reg_r12 = 0, reg_r11 = 0, reg_r10 = 0, reg_r9 = 0, reg_r8 = 0,
       reg_rsi = 0, reg_rdi = 0, reg_rbp = 0, reg_rdx = 0, reg_rcx = 0, reg_rbx = 0, reg_rax = 0, reg_intNo = 0,
       reg_errCode = 0, reg_rip = startFunc, reg_cs = 0x1B, reg_rflags = 0x200, reg_rsp = rsp (threads s k),
       reg_ss = 0x23\<rparr>"
proof -
  let ?vs = "[USER_DS, rsp (threads s k), 0x200, USER_CS, startFunc, 0, 0] @ replicate 15 0"
  have len: "length ?vs = 22" by simp
  have "setup_kthread_user k startFunc s = rfold (PushU k) ?vs s"
    using PushU_eq [OF assms, of USER_DS s] by (simp add: setup_kthread_user_def PushU_General_Registers_def rfold_step)
  moreover have "regs_of_words (rev ?vs) =
      \<lparr>reg_r15 = 0, reg_r14 = 0, reg_r13 = 0, reg_r12 = 0, reg_r11 = 0, reg_r10 = 0, reg_r9 = 0, reg_r8 = 0,
       reg_rsi = 0, reg_rdi = 0, reg_rbp = 0, reg_rdx = 0, reg_rcx = 0, reg_rbx = 0, reg_rax = 0, reg_intNo = 0,
       reg_errCode = 0, reg_rip = startFunc, reg_cs = 0x1B, reg_rflags = 0x200, reg_rsp = rsp (threads s k),
       reg_ss = 0x23\<rparr>"
    by (simp add: regs_of_words_def USER_DS_def USER_CS_def numeral_nat)
  ultimately show ?thesis
    using PushU_list [OF assms, of ?vs s] regs_at_pushed [OF len, of "kmem s" "krsp (threads s k)"]
    unfolding len by (intro exI) (auto simp del: append_Cons)
qed

theorem setup_kthread_user_frame_witness:
  "\<exists>s'. setup_kthread_user 16 0x400000 (example_kernel (\<lambda>_. example_thread\<lparr>rsp := 0xBFFFF8, krsp := 0x9FF8\<rparr>) 16 16 24) = Inr s' \<and>
     krsp (threads s' 16) = 0x9F48 \<and> reg_rip (regs_at (kmem s') 0x9F48) = 0x400000 \<and>
     reg_rsp (regs_at (kmem s') 0x9F48) = 0xBFFFF8 \<and> reg_cs (regs_at (kmem s') 0x9F48) = 0x1B"
  using setup_kthread_user_frame [of 16 "0x400000" "example_kernel (\<lambda>_. example_thread\<lparr>rsp := 0xBFFFF8, krsp := 0x9FF8\<rparr>) 16 16 24"]
  by (auto simp: example_kernel_def)

end
