(* ===== verification/Timer.thy ===== *)
theory Timer
  imports Scheduling Console
begin

text \<open>
  The timer interrupt of \<open>sys/timer.c\<close>: the count of ticks, the clock on the screen and the countdown of
  sleeping threads.
\<close>

section \<open>State and operations\<close>

record clock =
  total_ticks :: u16
  total_ticks_secs :: u16
  mins :: u16
  hours :: u16
  hours_units :: u16
  hours_tens :: u16
  minutes_units :: u16
  minutes_tens :: u16
  seconds_units :: u16
  seconds_tens :: u16

text \<open>The loop over the run queue, up to its end or to the current thread.\<close>

partial_function (option) countdown :: "u64 \<Rightarrow> u64 \<Rightarrow> (u64 \<Rightarrow> kthread) \<Rightarrow> (u64 \<Rightarrow> kthread) option" where
  "countdown current crawl m =
     (if crawl \<noteq> 0 \<and> crawl \<noteq> current then
        (let m = (if sleeping (m crawl) > 0 then m(crawl := (m crawl)\<lparr>sleeping := sleeping (m crawl) - 1\<rparr>) else m)
         in countdown current (next_in_ThreadQ (m crawl)) m)
      else Some m)"

definition count_second :: "clock \<Rightarrow> clock" where
  "count_second c =
     (let c = c\<lparr>total_ticks_secs := total_ticks_secs c + 1\<rparr> in
      if total_ticks_secs c \<ge> 60 then
        let c = c\<lparr>mins := mins c + 1, total_ticks_secs := 0\<rparr> in
        if mins c \<ge> 60 then c\<lparr>mins := 0, hours := hours c + 1\<rparr> else c
      else c)"

definition set_digits :: "clock \<Rightarrow> clock" where
  "set_digits c =
     c\<lparr>seconds_units := total_ticks_secs c mod 10, seconds_tens := total_ticks_secs c div 10,
       minutes_units := mins c mod 10, minutes_tens := mins c div 10,
       hours_units := hours c mod 10, hours_tens := hours c div 10\<rparr>"

definition timer_handler :: "clock \<times> kernel_state \<times> console \<Rightarrow> (clock \<times> kernel_state \<times> console) res" where
  "timer_handler = (\<lambda>(c, s, con).
     let c = c\<lparr>total_ticks := total_ticks c + 1\<rparr> in
     if total_ticks c mod 100 = 0 then
       case countdown (currentThread s) (q_head (runQueue s)) (threads s) of
         None \<Rightarrow> Inl Halt
       | Some m \<Rightarrow>
           let c = set_digits (count_second c) in
           rbind (write_time (seconds_units c) (seconds_tens c) (minutes_units c) (minutes_tens c)
                    (hours_units c) (hours_tens c) con) (\<lambda>con.
           Inr (c, s\<lparr>threads := m\<rparr>, con))
     else Inr (c, s, con))"

definition timer_setup :: "int \<Rightarrow> console \<Rightarrow> console res" where
  "timer_setup hz con =
     (if hz = 0 then Inl DivByZero
      else
        let COUNT = 1193180 sdiv hz;
            con = outb 0x43 0x36 con;
            lsb = and COUNT 0xFF;
            msb = drop_bit 8 COUNT
        in Inr (outb 0x40 (word_of_int msb) (outb 0x40 (word_of_int lsb) con)))"

section \<open>The countdown\<close>

definition tick_thread :: "kthread \<Rightarrow> kthread" where
  "tick_thread t = (if sleeping t > 0 then t\<lparr>sleeping := sleeping t - 1\<rparr> else t)"

lemma tick_thread_links [simp]:
  "next_in_ThreadQ (tick_thread t) = next_in_ThreadQ t" "prev_in_ThreadQ (tick_thread t) = prev_in_ThreadQ t"
  "alive (tick_thread t) = alive t"
  by (simp_all add: tick_thread_def)

lemma sleeping_tick_thread: "0 \<le> sleeping t \<Longrightarrow> sleeping (tick_thread t) = max 0 (sleeping t - 1)"
  by (simp add: tick_thread_def)

lemma countdown_seg:
  assumes "dseg (\<lambda>q. next_in_ThreadQ (m q)) p a xs 0" and "0 \<notin> set xs" and "distinct xs" and "current \<notin> set xs"
  shows "countdown current (hd (xs @ [0])) m = Some (\<lambda>q. if q \<in> set xs then tick_thread (m q) else m q)"
  using assms
proof (induction xs arbitrary: a m)
  case Nil
  then show ?case by (simp add: countdown.simps)
next
  case (Cons x xs)
  let ?m = "m(x := tick_thread (m x))"
  have n: "next_in_ThreadQ (?m q) = next_in_ThreadQ (m q)" for q by simp
  have "x \<noteq> current" "x \<noteq> 0" "next_in_ThreadQ (m x) = hd (xs @ [0])" using Cons.prems by auto
  then have "countdown current x m = countdown current (hd (xs @ [0])) ?m"
    by (subst countdown.simps) (simp add: tick_thread_def)
  also have "\<dots> = Some (\<lambda>q. if q \<in> set xs then tick_thread (?m q) else ?m q)"
    by (rule Cons.IH [of _ x]) (use Cons.prems n in auto)
  also have "\<dots> = Some (\<lambda>q. if q \<in> set (x # xs) then tick_thread (m q) else m q)"
    using Cons.prems by auto
  finally show ?case by simp
qed

lemma countdown_queue:
  assumes "run_queue s xs" and "currentThread s \<notin> set xs"
  shows "countdown (currentThread s) (q_head (runQueue s)) (threads s) =
    Some (\<lambda>q. if q \<in> set xs then tick_thread (threads s q) else threads s q)"
  using assms countdown_seg [of "threads s" "run_prev s" 0 xs]
  by (simp add: run_queue_def dlq_def run_next_def [abs_def])

section \<open>The clock on the screen\<close>

definition leading :: "u16 \<Rightarrow> u8" where
  "leading n = hd (digit_text 10 (unat n))"

lemma first_digit_Inr: "first_digit n = Inr (leading n)"
proof -
  have "digit_text 10 (unat n) \<noteq> []" by (simp add: digit_text_def digits.simps [of 10])
  moreover have "unat (ucast n :: u64) = unat n"
  proof -
    have "unat n < 65536" using unsigned_less [of n, where 'a = nat] by simp
    then show ?thesis by (simp add: unsigned_ucast_eq take_bit_nat_eq_self_iff)
  qed
  ultimately show ?thesis using convert_Inr [of 10 "ucast n"]
    by (simp add: first_digit_def leading_def arr_get_def hd_conv_nth nth_append del: unsigned_ucast_eq)
qed

lemma leading_digit: "unat n < 10 \<Longrightarrow> leading n = of_nat (48 + unat n)"
proof -
  assume n: "unat n < 10"
  then have "leading n = digit_chars ! unat n" by (simp add: leading_def digit_text_def digits.simps [of 10])
  moreover have "list_all (\<lambda>d. digit_chars ! d = of_nat (48 + d)) [0..<10]" by code_simp
  ultimately show ?thesis using n by (simp add: list_all_iff)
qed

lemma put_cell_next:
  "v = int (length a) \<Longrightarrow> put_cell v c color (a @ x # y # b) = Inr ((a @ [c, color]) @ b)"
  by (simp add: put_cell_def arr_set_def list_update_append nat_add_distrib)

lemma put_digit_next:
  "v = int (length a) \<Longrightarrow> put_digit v n (a @ x # y # b) = Inr ((a @ [leading n, TEXT_COLOR]) @ b)"
  by (simp add: put_digit_def first_digit_Inr put_cell_next)

definition clock_cells :: "u16 \<Rightarrow> u16 \<Rightarrow> u16 \<Rightarrow> u16 \<Rightarrow> u16 \<Rightarrow> u16 \<Rightarrow> u8 list" where
  "clock_cells su st mu mt hu ht =
     concat (map (\<lambda>c. [c, TEXT_COLOR]) [leading ht, leading hu, 58, leading mt, leading mu, 58, leading st, leading su])"

lemma length_16:
  assumes "length d = 16"
  obtains d0 d1 d2 d3 d4 d5 d6 d7 d8 d9 d10 d11 d12 d13 d14 d15 where
    "d = [d0, d1, d2, d3, d4, d5, d6, d7, d8, d9, d10, d11, d12, d13, d14, d15]"
  using assms by (auto simp: numeral_eq_Suc length_Suc_conv)

lemma write_time_Inr:
  assumes "length (screen con) = 4000"
  shows "write_time su st mu mt hu ht con =
    Inr (con\<lparr>screen := take 3984 (screen con) @ clock_cells su st mu mt hu ht\<rparr>)"
proof -
  define a where "a = take 3984 (screen con)"
  have a: "length a = 3984" using assms by (simp add: a_def)
  have "length (drop 3984 (screen con)) = 16" using assms by simp
  then obtain d0 d1 d2 d3 d4 d5 d6 d7 d8 d9 d10 d11 d12 d13 d14 d15 where
    d: "drop 3984 (screen con) = [d0, d1, d2, d3, d4, d5, d6, d7, d8, d9, d10, d11, d12, d13, d14, d15]"
    by (rule length_16)
  have "screen con = a @ [d0, d1, d2, d3, d4, d5, d6, d7, d8, d9, d10, d11, d12, d13, d14, d15]"
    using append_take_drop_id [of 3984 "screen con"] d by (simp add: a_def)
  then show ?thesis unfolding a_def [symmetric] write_time_def
    using a by (simp add: TIMER_MEMORY_def put_digit_next put_cell_next del: append_assoc) (simp add: clock_cells_def)
qed

section \<open>The time\<close>

definition clock_ok :: "clock \<Rightarrow> bool" where
  "clock_ok c \<longleftrightarrow> unat (total_ticks_secs c) < 60 \<and> unat (mins c) < 60"

definition clock_time :: "clock \<Rightarrow> nat" where
  "clock_time c = 3600 * unat (hours c) + 60 * unat (mins c) + unat (total_ticks_secs c)"

lemma unat_inc: "unat (w + 1 :: u16) = Suc (unat w) mod 65536"
  by (simp add: unat_word_ariths)

lemma count_second_time:
  assumes "clock_ok c"
  shows "clock_ok (count_second c) \<and> clock_time (count_second c) = Suc (clock_time c) mod 235929600"
proof -
  define h m x where "h = unat (hours c)" and "m = unat (mins c)" and "x = unat (total_ticks_secs c)"
  have b: "m < 60" "x < 60" "h < 65536"
    using assms unsigned_less [of "hours c", where 'a = nat] by (simp_all add: clock_ok_def h_def m_def x_def)
  have xs: "unat (total_ticks_secs c + 1) = Suc x" "unat (mins c + 1) = Suc m"
    using b by (simp_all add: unat_inc x_def m_def)
  have g: "60 \<le> total_ticks_secs c + 1 \<longleftrightarrow> x = 59" "60 \<le> mins c + 1 \<longleftrightarrow> m = 59"
    using b xs by (auto simp: word_le_nat_alt)
  have w: "3600 * (Suc h mod 65536) = (3600 * Suc h) mod 235929600" using mod_mult_mult1 [of 3600 "Suc h" 65536] by simp
  consider "x \<noteq> 59" | "x = 59" "m \<noteq> 59" | "x = 59" "m = 59" by blast
  then show ?thesis
  proof cases
    case 1
    then show ?thesis using b g xs by (simp add: count_second_def clock_ok_def clock_time_def Let_def h_def [symmetric] m_def [symmetric] x_def [symmetric])
  next
    case 2
    then show ?thesis using b g xs
      by (simp add: count_second_def clock_ok_def clock_time_def Let_def h_def [symmetric] m_def [symmetric] x_def [symmetric])
  next
    case 3
    then show ?thesis using b g xs w
      by (simp add: count_second_def clock_ok_def clock_time_def Let_def unat_inc h_def [symmetric] m_def [symmetric] x_def [symmetric])
  qed
qed

text \<open>The number of seconds that \<open>n\<close> ticks count from the tick number \<open>t\<close>, which is kept in 16 bits.\<close>

fun elapsed :: "nat \<Rightarrow> nat \<Rightarrow> nat" where
  "elapsed t 0 = 0"
| "elapsed t (Suc n) = elapsed t n + (if (t + Suc n) mod 65536 mod 100 = 0 then 1 else 0)"

lemma elapsed_add: "elapsed t (m + n) = elapsed t m + elapsed (t + m) n"
  by (induction n) (simp_all add: add.assoc)

lemma elapsed_from_0: "elapsed 0 n = 656 * (n div 65536) + n mod 65536 div 100"
proof (induction n)
  case (Suc n)
  have s: "Suc n mod 65536 = (if Suc (n mod 65536) = 65536 then 0 else Suc (n mod 65536))"
    "Suc n div 65536 = (if Suc (n mod 65536) = 65536 then Suc (n div 65536) else n div 65536)"
    by (simp_all add: mod_Suc div_Suc)
  have "Suc r div 100 = r div 100 + (if Suc r mod 100 = 0 then 1 else 0)" for r by (simp add: div_Suc)
  then show ?case using Suc s by auto
qed simp

lemma elapsed_mono: "m \<le> n \<Longrightarrow> elapsed t m \<le> elapsed t n"
  using elapsed_add [of t m "n - m"] by simp

lemma elapsed_100: "1 \<le> elapsed t 100"
proof -
  define r where "r = t mod 65536"
  define d where "d = (if r < 65500 then 100 - r mod 100 else 65536 - r)"
  have "r < 65536" by (simp add: r_def)
  have d: "0 < d" "d \<le> 100" by (auto simp: d_def \<open>r < 65536\<close>)
  have "(t + d) mod 65536 = (r + d) mod 65536" by (simp add: r_def mod_add_left_eq)
  also have "(r + d) mod 65536 mod 100 = 0"
  proof (cases "r < 65500")
    case True
    obtain e f where ef: "r div 100 = e" "r mod 100 = f" by blast
    have "f < 100" "r = 100 * e + f" using mult_div_mod_eq [of 100 r] ef mod_less_divisor [of 100 r] by simp_all
    then have "r + d = 100 * (e + 1)" using True ef(2) unfolding d_def by simp
    then have "r + d = 100 * (r div 100 + 1)" using ef by simp
    moreover have "r div 100 < 655" using True by (simp add: div_less_iff_less_mult)
    ultimately show ?thesis by simp
  qed (use \<open>r < 65536\<close> in \<open>simp add: d_def\<close>)
  finally have "1 \<le> elapsed t d" using d(1) by (cases d) simp_all
  then show ?thesis using elapsed_mono [OF d(2), of t] by simp
qed

lemma elapsed_100s: "k \<le> elapsed t (100 * k)"
proof (induction k)
  case (Suc k)
  have "elapsed t (100 * Suc k) = elapsed t (100 * k) + elapsed (t + 100 * k) 100"
    using elapsed_add [of t "100 * k" 100] by (simp add: add.commute)
  then show ?case using Suc elapsed_100 [of "t + 100 * k"] by simp
qed simp

lemma set_digits_clock [simp]:
  "total_ticks (set_digits c) = total_ticks c" "total_ticks_secs (set_digits c) = total_ticks_secs c"
  "mins (set_digits c) = mins c" "hours (set_digits c) = hours c"
  "clock_ok (set_digits c) = clock_ok c" "clock_time (set_digits c) = clock_time c"
  by (simp_all add: set_digits_def clock_ok_def clock_time_def)

lemma count_second_ticks [simp]: "total_ticks (count_second c) = total_ticks c"
  by (simp add: count_second_def Let_def)

definition shown :: "clock \<Rightarrow> u8 list" where
  "shown c =
     clock_cells (total_ticks_secs c mod 10) (total_ticks_secs c div 10) (mins c mod 10) (mins c div 10)
       (hours c mod 10) (hours c div 10)"

lemma shown_digits:
  "clock_cells (seconds_units (set_digits c)) (seconds_tens (set_digits c)) (minutes_units (set_digits c))
     (minutes_tens (set_digits c)) (hours_units (set_digits c)) (hours_tens (set_digits c)) = shown (set_digits c)"
  by (simp add: set_digits_def shown_def)

text \<open>The state after some ticks: sleepers of the run queue are counted down once for each second.\<close>

definition slept :: "u64 list \<Rightarrow> nat \<Rightarrow> kernel_state \<Rightarrow> kernel_state" where
  "slept xs k s = s\<lparr>threads := \<lambda>q. if q \<in> set xs then (tick_thread ^^ k) (threads s q) else threads s q\<rparr>"

lemma slept_links:
  "next_in_ThreadQ ((tick_thread ^^ k) t) = next_in_ThreadQ t" "prev_in_ThreadQ ((tick_thread ^^ k) t) = prev_in_ThreadQ t"
  "alive ((tick_thread ^^ k) t) = alive t"
  by (induction k) simp_all

lemma run_queue_slept [simp]: "run_queue (slept xs k s) = run_queue s"
  by (rule run_queue_cong) (simp_all add: slept_def link_defs slept_links fun_eq_iff)

lemma sleeping_slept: "0 \<le> sleeping t \<Longrightarrow> sleeping ((tick_thread ^^ k) t) = max 0 (sleeping t - int k)"
  by (induction k) (simp_all add: tick_thread_def)

lemma slept_0 [simp]: "slept xs 0 s = s"
proof -
  have "(\<lambda>q. if q \<in> set xs then (tick_thread ^^ 0) (threads s q) else threads s q) = threads s" by (rule ext) simp
  then show ?thesis unfolding slept_def by simp
qed

lemma slept_simps [simp]: "currentThread (slept xs k s) = currentThread s" "runQueue (slept xs k s) = runQueue s"
  by (simp_all add: slept_def)

lemma timer_handler_Inr:
  assumes "run_queue s xs" and "currentThread s \<notin> set xs" and "length (screen con) = 4000"
  shows "timer_handler (c, slept xs k s, con) =
    (let c' = c\<lparr>total_ticks := total_ticks c + 1\<rparr> in
     if (unat (total_ticks c) + 1) mod 65536 mod 100 = 0 then
       let c' = set_digits (count_second c') in
       Inr (c', slept xs (Suc k) s, con\<lparr>screen := take 3984 (screen con) @ shown c'\<rparr>)
     else Inr (c', slept xs k s, con))"
proof -
  have m: "(total_ticks c + 1) mod 100 = 0 \<longleftrightarrow> (unat (total_ticks c) + 1) mod 65536 mod 100 = 0"
    by (simp add: word_unat_eq_iff unat_mod_distrib unat_inc)
  have "countdown (currentThread (slept xs k s)) (q_head (runQueue (slept xs k s))) (threads (slept xs k s)) =
      Some (\<lambda>q. if q \<in> set xs then tick_thread (threads (slept xs k s) q) else threads (slept xs k s) q)"
    by (rule countdown_queue) (use assms in simp_all)
  moreover have "(slept xs k s)\<lparr>threads := \<lambda>q. if q \<in> set xs then tick_thread (threads (slept xs k s) q) else threads (slept xs k s) q\<rparr> =
      slept xs (Suc k) s"
    by (auto simp: slept_def intro!: arg_cong [of _ _ "\<lambda>m. threads_update (\<lambda>_. m) s"])
  ultimately show ?thesis using m
    by (simp add: timer_handler_def write_time_Inr [OF assms(3)] shown_digits Let_def)
qed

lemma length_shown: "length (shown c) = 16"
  by (simp add: shown_def clock_cells_def)

lemma timer_ticks:
  assumes "run_queue s xs" and "currentThread s \<notin> set xs" and "length (screen con) = 4000" and "clock_ok c"
    and "k = elapsed (unat (total_ticks c)) n"
  shows "\<exists>c' con'. rfold (\<lambda>_. timer_handler) [0..<n] (c, s, con) = Inr (c', slept xs k s, con') \<and>
    total_ticks c' = total_ticks c + of_nat n \<and> clock_ok c' \<and> clock_time c' = (clock_time c + k) mod 235929600 \<and>
    con' = (if k = 0 then con else con\<lparr>screen := take 3984 (screen con) @ shown c'\<rparr>)"
  using assms(5)
proof (induction n arbitrary: k)
  case 0
  have "clock_time c < 235929600"
    using assms(4) unsigned_less [of "hours c", where 'a = nat] by (simp add: clock_ok_def clock_time_def)
  then show ?case using 0 assms(4) by simp
next
  case (Suc n)
  define j where "j = elapsed (unat (total_ticks c)) n"
  obtain c1 con1 where r: "rfold (\<lambda>_. timer_handler) [0..<n] (c, s, con) = Inr (c1, slept xs j s, con1)"
    and t: "total_ticks c1 = total_ticks c + of_nat n" and c1: "clock_ok c1" "clock_time c1 = (clock_time c + j) mod 235929600"
    and con1: "con1 = (if j = 0 then con else con\<lparr>screen := take 3984 (screen con) @ shown c1\<rparr>)"
    using Suc.IH [OF j_def] by blast
  have l: "length (screen con1) = 4000" "take 3984 (screen con1) = take 3984 (screen con)"
    using assms(3) by (simp_all add: con1 length_shown)
  have "(unat (total_ticks c1) + 1) mod 65536 = (unat (total_ticks c) + Suc n) mod 65536"
    by (simp add: t unat_word_ariths unat_of_nat take_bit_eq_mod mod_simps)
  then have k: "k = j + (if (unat (total_ticks c1) + 1) mod 65536 mod 100 = 0 then 1 else 0)"
    using Suc.prems by (simp add: j_def)
  let ?c = "c1\<lparr>total_ticks := total_ticks c1 + 1\<rparr>"
  have "clock_ok ?c" "clock_time ?c = clock_time c1" using c1 by (simp_all add: clock_ok_def clock_time_def)
  then have "clock_ok (count_second ?c)" "clock_time (count_second ?c) = (clock_time c + Suc j) mod 235929600"
    using count_second_time [of ?c] c1(2) by (simp_all add: mod_Suc_eq)
  moreover have "shown ?c = shown c1" by (simp add: shown_def)
  ultimately show ?case
    using timer_handler_Inr [OF assms(1,2) l(1), of c1 j] r k t c1 l(2) \<open>clock_ok ?c\<close> \<open>clock_time ?c = _\<close>
    by (auto simp: rfold_append Let_def con1)
qed

section \<open>Properties\<close>

definition boot_clock :: clock where
  "boot_clock =
     \<lparr>total_ticks = 0, total_ticks_secs = 0, mins = 0, hours = 0, hours_units = 0, hours_tens = 0, minutes_units = 0,
      minutes_tens = 0, seconds_units = 0, seconds_tens = 0\<rparr>"

definition blank_console :: console where
  "blank_console = \<lparr>screen = replicate 4000 0, video_memory = 0, port_outs = []\<rparr>"

lemma clock_ok_boot [simp]: "clock_ok boot_clock"
  by (simp add: clock_ok_def boot_clock_def)

lemma length_blank [simp]: "length (screen blank_console) = 4000"
  by (simp add: blank_console_def)

definition clock_text :: "nat \<Rightarrow> u8 list" where
  "clock_text t =
     map of_nat [48 + t div 36000, 48 + t div 3600 mod 10, 58, 48 + t div 600 mod 6, 48 + t div 60 mod 10, 58,
                 48 + t div 10 mod 6, 48 + t mod 10]"

lemma shown_text:
  assumes "clock_ok c" and "clock_time c = t" and "t < 360000"
  shows "shown c = concat (map (\<lambda>ch. [ch, TEXT_COLOR]) (clock_text t))"
proof -
  define h m x where "h = unat (hours c)" and "m = unat (mins c)" and "x = unat (total_ticks_secs c)"
  have b: "m < 60" "x < 60" and t: "t = 3600 * h + 60 * m + x"
    using assms(1,2) by (simp_all add: clock_ok_def clock_time_def h_def m_def x_def)
  then have h: "h < 100" using assms(3) by simp
  have "t div 3600 = h" "t div 60 = 60 * h + m" using b t by simp_all
  moreover from this(1) have "t div 36000 = h div 10" using div_mult2_eq [of t 3600 10] by simp
  moreover have "t div 600 mod 6 = m div 10"
  proof -
    have "t div 600 = (60 * h + m) div 10" using div_mult2_eq [of t 60 10] \<open>t div 60 = _\<close> by simp
    also have "\<dots> = 6 * h + m div 10" using div_mult_self2 [of 10 m "6 * h"] by (simp add: add.commute)
    finally show ?thesis using b by simp
  qed
  moreover have "(60 * h + m) mod 10 = m mod 10" using mod_mult_self2 [of m 10 "6 * h"] by (simp add: add.commute)
  moreover have "t div 10 mod 6 = x div 10"
  proof -
    have "t div 10 = x div 10 + 6 * (60 * h + m)" using t div_mult_self2 [of 10 x "6 * (60 * h + m)"] by (simp add: algebra_simps)
    then show ?thesis using b mod_mult_self2 [of "x div 10" 6 "60 * h + m"] by (simp del: mod_mult_self2)
  qed
  moreover have "t mod 10 = x mod 10" using t mod_mult_self2 [of x 10 "6 * (60 * h + m)"] by (simp add: algebra_simps)
  moreover have "unat (w mod 10) = unat w mod 10" "unat (w div 10) = unat w div 10" for w :: u16
    by (simp_all add: unat_mod_distrib unat_div_distrib)
  moreover have "h div 10 < 10" "m div 10 < 10" "x div 10 < 10" using b h by (simp_all add: div_less_iff_less_mult)
  ultimately show ?thesis
    by (simp add: shown_def clock_cells_def clock_text_def leading_digit h_def [symmetric] m_def [symmetric] x_def [symmetric])
qed

text \<open>
  What the clock shows after \<open>n\<close> timer interrupts from boot. The tick counter has 16 bits: every 65536 ticks count
  as 656 seconds, although the timer, set to 100 ticks a second, takes 655.36 seconds for them.
\<close>

theorem timer_clock:
  assumes "run_queue s xs" and "currentThread s \<notin> set xs" and "length (screen con) = 4000"
    and "t = 656 * (n div 65536) + n mod 65536 div 100" and "0 < t" "t < 360000"
  shows "\<exists>c' s' con'. rfold (\<lambda>_. timer_handler) [0..<n] (boot_clock, s, con) = Inr (c', s', con') \<and>
    screen con' = take 3984 (screen con) @ concat (map (\<lambda>ch. [ch, TEXT_COLOR]) (clock_text t)) \<and>
    video_memory con' = video_memory con"
proof -
  have "t = elapsed (unat (total_ticks boot_clock)) n" using assms(4) by (simp add: elapsed_from_0 boot_clock_def)
  from timer_ticks [OF assms(1-3) clock_ok_boot this] obtain c' con' where
    "rfold (\<lambda>_. timer_handler) [0..<n] (boot_clock, s, con) = Inr (c', slept xs t s, con')" "clock_ok c'"
    "clock_time c' = (clock_time boot_clock + t) mod 235929600" "con' = con\<lparr>screen := take 3984 (screen con) @ shown c'\<rparr>"
    using assms(5) by auto
  moreover have "clock_time boot_clock = 0" by (simp add: clock_time_def boot_clock_def)
  ultimately show ?thesis using shown_text [of c' t] assms(6) by simp
qed

theorem timer_clock_witness:
  "\<exists>c' s' con'. rfold (\<lambda>_. timer_handler) [0..<370000] (boot_clock, example_kernel example_threads 8 16 24, blank_console) =
      Inr (c', s', con') \<and> map (\<lambda>k. screen con' ! (3984 + 2 * k)) [0..<8] = [48, 49, 58, 48, 49, 58, 52, 51]"
proof -
  have "currentThread (example_kernel example_threads 8 16 24) \<notin> set [8, 16]" by (simp add: example_kernel_def)
  from timer_clock [OF example_queue this length_blank, of 3703 370000] show ?thesis
    by (auto simp: clock_text_def blank_console_def upt_rec [of _ 8] nth_append)
qed

end
