(* ===== verification/Keyboard_Codes.thy ===== *)
theory Keyboard_Codes
  imports Prelude
begin

text \<open>
  The codes of \<open>include/sys/kb.h\<close> and the table of \<open>sys/kb.c\<close> from scan codes to key codes.
\<close>

section \<open>Key codes\<close>

text \<open>The enumeration \<open>KEYCODE\<close>: names and values, several of which coincide.\<close>

definition KEYCODE :: "(string \<times> int) list" where
  "KEYCODE =
     [
      (''KEY_SPACE'', 32), (''KEY_0'', 48), (''KEY_1'', 49), (''KEY_2'', 50), (''KEY_3'', 51), (''KEY_4'', 52),
      (''KEY_5'', 53), (''KEY_6'', 54), (''KEY_7'', 55), (''KEY_8'', 56), (''KEY_9'', 57), (''KEY_A'', 97),
      (''KEY_B'', 98), (''KEY_C'', 99), (''KEY_D'', 100), (''KEY_E'', 101), (''KEY_F'', 102), (''KEY_G'', 103),
      (''KEY_H'', 104), (''KEY_I'', 105), (''KEY_J'', 106), (''KEY_K'', 107), (''KEY_L'', 108), (''KEY_M'', 109),
      (''KEY_N'', 110), (''KEY_O'', 111), (''KEY_P'', 112), (''KEY_Q'', 113), (''KEY_R'', 114), (''KEY_S'', 115),
      (''KEY_T'', 116), (''KEY_U'', 117), (''KEY_V'', 118), (''KEY_W'', 119), (''KEY_X'', 120), (''KEY_Y'', 121),
      (''KEY_Z'', 122), (''KEY_RETURN'', 13), (''KEY_ESCAPE'', 0x1001), (''KEY_BACKSPACE'', 8),
      (''KEY_UP'', 0x1100), (''KEY_DOWN'', 0x1101), (''KEY_LEFT'', 0x1102), (''KEY_RIGHT'', 0x1103),
      (''KEY_F1'', 0x1201), (''KEY_F2'', 0x1202), (''KEY_F3'', 0x1203), (''KEY_F4'', 0x1204), (''KEY_F5'', 0x1205),
      (''KEY_F6'', 0x1206), (''KEY_F7'', 0x1207), (''KEY_F8'', 0x1208), (''KEY_F9'', 0x1209), (''KEY_F10'', 0x120a),
      (''KEY_F11'', 0x120b), (''KEY_F12'', 0x120b), (''KEY_F13'', 0x120c), (''KEY_F14'', 0x120d),
      (''KEY_F15'', 0x120e), (''KEY_DOT'', 46), (''KEY_COMMA'', 44), (''KEY_COLON'', 58), (''KEY_SEMICOLON'', 59),
      (''KEY_SLASH'', 47), (''KEY_BACKSLASH'', 92), (''KEY_PLUS'', 43), (''KEY_MINUS'', 45), (''KEY_ASTERISK'', 42),
      (''KEY_EXCLAMATION'', 33), (''KEY_QUESTION'', 63), (''KEY_QUOTEDOUBLE'', 34), (''KEY_QUOTE'', 39),
      (''KEY_EQUAL'', 61), (''KEY_HASH'', 35), (''KEY_PERCENT'', 37), (''KEY_AMPERSAND'', 38),
      (''KEY_UNDERSCORE'', 95), (''KEY_LEFTPARENTHESIS'', 40), (''KEY_RIGHTPARENTHESIS'', 41),
      (''KEY_LEFTBRACKET'', 91), (''KEY_RIGHTBRACKET'', 93), (''KEY_LEFTCURL'', 123), (''KEY_RIGHTCURL'', 125),
      (''KEY_DOLLAR'', 36), (''KEY_POUND'', -93), (''KEY_EURO'', 36), (''KEY_LESS'', 60), (''KEY_GREATER'', 62),
      (''KEY_BAR'', 124), (''KEY_GRAVE'', 96), (''KEY_TILDE'', 126), (''KEY_AT'', 64), (''KEY_CARRET'', 94),
      (''KEY_KP_0'', 48), (''KEY_KP_1'', 49), (''KEY_KP_2'', 50), (''KEY_KP_3'', 51), (''KEY_KP_4'', 52),
      (''KEY_KP_5'', 53), (''KEY_KP_6'', 54), (''KEY_KP_7'', 55), (''KEY_KP_8'', 56), (''KEY_KP_9'', 57),
      (''KEY_KP_PLUS'', 43), (''KEY_KP_MINUS'', 45), (''KEY_KP_DECIMAL'', 46), (''KEY_KP_DIVIDE'', 47),
      (''KEY_KP_ASTERISK'', 42), (''KEY_KP_NUMLOCK'', 0x300f), (''KEY_KP_ENTER'', 0x3010), (''KEY_TAB'', 0x4000),
      (''KEY_CAPSLOCK'', 0x4001), (''KEY_LSHIFT'', 0x4002), (''KEY_LCTRL'', 0x4003), (''KEY_LALT'', 0x4004),
      (''KEY_LWIN'', 0x4005), (''KEY_RSHIFT'', 0x4006), (''KEY_RCTRL'', 0x4007), (''KEY_RALT'', 0x4008),
      (''KEY_RWIN'', 0x4009), (''KEY_INSERT'', 0x400a), (''KEY_DELETE'', 0x400b), (''KEY_HOME'', 0x400c),
      (''KEY_END'', 0x400d), (''KEY_PAGEUP'', 0x400e), (''KEY_PAGEDOWN'', 0x400f), (''KEY_SCROLLLOCK'', 0x4010),
      (''KEY_PAUSE'', 0x4011), (''KEY_UNKNOWN'', 0x4012), (''KEY_NUMKEYCODES'', 0x4013)
     ]"

definition key :: "string \<Rightarrow> int" where
  "key n = (case map_of KEYCODE n of Some k \<Rightarrow> k | None \<Rightarrow> 0)"

definition KYBRD_CTRL_STATS_MASK_OUT_BUF :: u8 where
  "KYBRD_CTRL_STATS_MASK_OUT_BUF = 1"

definition KYBRD_CTRL_STATS_MASK_IN_BUF :: u8 where
  "KYBRD_CTRL_STATS_MASK_IN_BUF = 2"

definition KYBRD_CTRL_CMD_REG :: u16 where
  "KYBRD_CTRL_CMD_REG = 0x64"

definition KYBRD_ENC_CMD_REG :: u16 where
  "KYBRD_ENC_CMD_REG = 0x60"

definition scan_code :: "int list" where
  "scan_code = map key
     [
      ''KEY_UNKNOWN'', ''KEY_ESCAPE'', ''KEY_1'', ''KEY_2'', ''KEY_3'', ''KEY_4'', ''KEY_5'', ''KEY_6'', ''KEY_7'',
      ''KEY_8'', ''KEY_9'', ''KEY_0'', ''KEY_MINUS'', ''KEY_EQUAL'', ''KEY_BACKSPACE'', ''KEY_TAB'', ''KEY_Q'',
      ''KEY_W'', ''KEY_E'', ''KEY_R'', ''KEY_T'', ''KEY_Y'', ''KEY_U'', ''KEY_I'', ''KEY_O'', ''KEY_P'',
      ''KEY_LEFTBRACKET'', ''KEY_RIGHTBRACKET'', ''KEY_RETURN'', ''KEY_LCTRL'', ''KEY_A'', ''KEY_S'', ''KEY_D'',
      ''KEY_F'', ''KEY_G'', ''KEY_H'', ''KEY_J'', ''KEY_K'', ''KEY_L'', ''KEY_SEMICOLON'', ''KEY_QUOTE'',
      ''KEY_GRAVE'', ''KEY_LSHIFT'', ''KEY_BACKSLASH'', ''KEY_Z'', ''KEY_X'', ''KEY_C'', ''KEY_V'', ''KEY_B'',
      ''KEY_N'', ''KEY_M'', ''KEY_COMMA'', ''KEY_DOT'', ''KEY_SLASH'', ''KEY_RSHIFT'', ''KEY_KP_ASTERISK'',
      ''KEY_RALT'', ''KEY_SPACE'', ''KEY_CAPSLOCK'', ''KEY_F1'', ''KEY_F2'', ''KEY_F3'', ''KEY_F4'', ''KEY_F5'',
      ''KEY_F6'', ''KEY_F7'', ''KEY_F8'', ''KEY_F9'', ''KEY_F10'', ''KEY_KP_NUMLOCK'', ''KEY_SCROLLLOCK'',
      ''KEY_HOME'', ''KEY_KP_8'', ''KEY_PAGEUP'', ''KEY_KP_2'', ''KEY_KP_3'', ''KEY_KP_0'', ''KEY_KP_DECIMAL'',
      ''KEY_UNKNOWN'', ''KEY_UNKNOWN'', ''KEY_UNKNOWN'', ''KEY_F11'', ''KEY_F12''
     ]"

section \<open>The tables\<close>

lemma scan_code_values:
  "scan_code =
    [
     0x4012, 0x1001, 49, 50, 51, 52, 53, 54, 55, 56, 57, 48, 45, 61, 8, 0x4000, 113, 119, 101, 114, 116, 121, 117,
     105, 111, 112, 91, 93, 13, 0x4003, 97, 115, 100, 102, 103, 104, 106, 107, 108, 59, 39, 96, 0x4002, 92, 122,
     120, 99, 118, 98, 110, 109, 44, 46, 47, 0x4006, 42, 0x4008, 32, 0x4001, 0x1201, 0x1202, 0x1203, 0x1204, 0x1205,
     0x1206, 0x1207, 0x1208, 0x1209, 0x120a, 0x300f, 0x4010, 0x400c, 56, 0x400e, 50, 51, 48, 46, 0x4012, 0x4012,
     0x4012, 0x120b, 0x120b
    ]"
  by code_simp

lemma length_scan_code: "length scan_code = 83"
  by (simp add: scan_code_def)

lemma modifier_keys:
  "key ''KEY_LSHIFT'' = 0x4002" "key ''KEY_RSHIFT'' = 0x4006"
  "key ''KEY_LCTRL'' = 0x4003" "key ''KEY_RCTRL'' = 0x4007"
  "key ''KEY_LALT'' = 0x4004" "key ''KEY_RALT'' = 0x4008"
  "key ''KEY_CAPSLOCK'' = 0x4001"
  by code_simp+

text \<open>Where the modifier keys stand in the table: their make codes.\<close>

lemma scan_code_modifiers:
  assumes "i < 83"
  shows "scan_code ! i = 0x4002 \<or> scan_code ! i = 0x4006 \<longleftrightarrow> i = 42 \<or> i = 54"
    and "scan_code ! i = 0x4003 \<or> scan_code ! i = 0x4007 \<longleftrightarrow> i = 29"
    and "scan_code ! i = 0x4004 \<or> scan_code ! i = 0x4008 \<longleftrightarrow> i = 56"
    and "scan_code ! i = 0x4001 \<longleftrightarrow> i = 58"
proof -
  have "list_all (\<lambda>i. (scan_code ! i = 0x4002 \<or> scan_code ! i = 0x4006 \<longleftrightarrow> i = 42 \<or> i = 54) \<and>
    (scan_code ! i = 0x4003 \<or> scan_code ! i = 0x4007 \<longleftrightarrow> i = 29) \<and>
    (scan_code ! i = 0x4004 \<or> scan_code ! i = 0x4008 \<longleftrightarrow> i = 56) \<and>
    (scan_code ! i = 0x4001 \<longleftrightarrow> i = 58)) [0..<83]"
    unfolding scan_code_values by code_simp
  then show "scan_code ! i = 0x4002 \<or> scan_code ! i = 0x4006 \<longleftrightarrow> i = 42 \<or> i = 54"
    and "scan_code ! i = 0x4003 \<or> scan_code ! i = 0x4007 \<longleftrightarrow> i = 29"
    and "scan_code ! i = 0x4004 \<or> scan_code ! i = 0x4008 \<longleftrightarrow> i = 56"
    and "scan_code ! i = 0x4001 \<longleftrightarrow> i = 58"
    using assms by (simp_all add: list_all_iff)
qed

end
