(* ===== verification/Keyboard.thy ===== *)
theory Keyboard
  imports Keyboard_Codes Console
begin

text \<open>
  The keyboard of \<open>sys/kb.c\<close>: the handler of the interrupt with its modifier keys, and the characters it
  writes to the screen and to the line that is being read. What the ports of the controller return is an
  argument.
\<close>

section \<open>State and operations\<close>

record keyboard =
  shift :: bool
  ctrl :: bool
  caps :: bool
  alt :: bool
  kb_console :: console
  kb_line :: line_buffer

text \<open>
  Sending a command: the controller is polled until its input buffer is empty. The argument \<open>reads\<close> are the
  successive values of the status register, the result the byte sent to a port, or None while the code
  still waits.
\<close>

fun send_cmd :: "u16 \<Rightarrow> u8 \<Rightarrow> u8 list \<Rightarrow> (u16 \<times> u8) option" where
  "send_cmd p cmd [] = None"
| "send_cmd p cmd (st # reads) =
     (if st AND KYBRD_CTRL_STATS_MASK_IN_BUF = 0 then Some (p, cmd) else send_cmd p cmd reads)"

definition kybrd_ctrl_send_cmd :: "u8 \<Rightarrow> u8 list \<Rightarrow> (u16 \<times> u8) option" where
  "kybrd_ctrl_send_cmd cmd reads = send_cmd KYBRD_CTRL_CMD_REG cmd reads"

definition kybrd_enc_send_cmd :: "u8 \<Rightarrow> u8 list \<Rightarrow> (u16 \<times> u8) option" where
  "kybrd_enc_send_cmd cmd reads = send_cmd KYBRD_ENC_CMD_REG cmd reads"

definition shifted_digit :: "int \<Rightarrow> int" where
  "shifted_digit k =
     (if k = 48 then key ''KEY_RIGHTPARENTHESIS''
      else if k = 49 then key ''KEY_EXCLAMATION''
      else if k = 50 then key ''KEY_AT''
      else if k = 51 then key ''KEY_HASH''
      else if k = 52 then key ''KEY_DOLLAR''
      else if k = 53 then key ''KEY_PERCENT''
      else if k = 54 then key ''KEY_CARRET''
      else if k = 55 then key ''KEY_AMPERSAND''
      else if k = 56 then key ''KEY_ASTERISK''
      else if k = 57 then key ''KEY_LEFTPARENTHESIS''
      else k)"

definition shifted_other :: "int \<Rightarrow> int" where
  "shifted_other k =
     (if k = key ''KEY_COMMA'' then key ''KEY_LESS''
      else if k = key ''KEY_DOT'' then key ''KEY_GREATER''
      else if k = key ''KEY_SLASH'' then key ''KEY_QUESTION''
      else if k = key ''KEY_SEMICOLON'' then key ''KEY_COLON''
      else if k = key ''KEY_QUOTE'' then key ''KEY_QUOTEDOUBLE''
      else if k = key ''KEY_LEFTBRACKET'' then key ''KEY_LEFTCURL''
      else if k = key ''KEY_RIGHTBRACKET'' then key ''KEY_RIGHTCURL''
      else if k = key ''KEY_MINUS'' then key ''KEY_UNDERSCORE''
      else if k = key ''KEY_PLUS'' then key ''KEY_EQUAL''
      else if k = key ''KEY_BACKSLASH'' then key ''KEY_BAR''
      else if k = key ''KEY_GRAVE'' then key ''KEY_TILDE''
      else k)"

text \<open>The key code is passed as a \<open>uint8_t\<close>: codes above 255 lose their upper bits.\<close>

definition keycode_to_ascii :: "u8 \<Rightarrow> keyboard \<Rightarrow> u8" where
  "keycode_to_ascii code s =
     (let k = uint code in
      word_of_int
        (if shift s \<or> caps s then
           if 97 \<le> k \<and> k \<le> 122 then k - 32
           else if 48 \<le> k \<and> k \<le> 57 then shifted_digit k
           else shifted_other k
         else k))"

definition break_code :: "int \<Rightarrow> keyboard \<Rightarrow> keyboard" where
  "break_code k s =
     (if k = key ''KEY_LCTRL'' \<or> k = key ''KEY_RCTRL'' then s\<lparr>ctrl := False\<rparr>
      else if k = key ''KEY_LSHIFT'' \<or> k = key ''KEY_RSHIFT'' then s\<lparr>shift := False\<rparr>
      else if k = key ''KEY_LALT'' \<or> k = key ''KEY_RALT'' then s\<lparr>alt := False\<rparr>
      else s)"

definition make_code :: "int \<Rightarrow> keyboard \<Rightarrow> keyboard res" where
  "make_code k s =
     (if k = key ''KEY_LCTRL'' \<or> k = key ''KEY_RCTRL'' then Inr (s\<lparr>ctrl := True\<rparr>)
      else if k = key ''KEY_LSHIFT'' \<or> k = key ''KEY_RSHIFT'' then Inr (s\<lparr>shift := True\<rparr>)
      else if k = key ''KEY_LALT'' \<or> k = key ''KEY_RALT'' then Inr (s\<lparr>alt := True\<rparr>)
      else if k = key ''KEY_CAPSLOCK'' then Inr (s\<lparr>caps := \<not> caps s\<rparr>)
      else
        let c = keycode_to_ascii (word_of_int k) s in
        rbind (write_char TEXT_COLOR c (kb_console s)) (\<lambda>con.
        rbind (if reading (kb_line s) \<noteq> 0 then write_io_buff c (kb_line s) else Inr (kb_line s)) (\<lambda>b.
        Inr (s\<lparr>kb_console := con, kb_line := b\<rparr>))))"

text \<open>The part of the handler behind its first look at the table, which every code from 0x53 on does not survive.\<close>

definition handle_scancode :: "u8 \<Rightarrow> keyboard \<Rightarrow> keyboard res" where
  "handle_scancode scancode s =
     (if scancode = 0xE0 \<or> scancode = 0xE1 then Inr s
      else if scancode AND 0x80 \<noteq> 0 then
        rbind (arr_get scan_code (uint (scancode - 0x80))) (\<lambda>k. Inr (break_code k s))
      else rbind (arr_get scan_code (uint scancode)) (\<lambda>k. make_code k s))"

text \<open>
  The whole handler, with the values of the status register and of the input buffer. It looks the scan code
  up before it knows whether it is the code of a released key.
\<close>

definition keyboard_handler :: "u8 \<Rightarrow> u8 \<Rightarrow> keyboard \<Rightarrow> keyboard res" where
  "keyboard_handler status scancode s =
     (if status AND KYBRD_CTRL_STATS_MASK_OUT_BUF \<noteq> 0
      then rbind (arr_get scan_code (uint scancode)) (\<lambda>_. handle_scancode scancode s)
      else Inr s)"

lemma enter_key: "keycode_to_ascii (word_of_int (scan_code ! 28)) s = 13"
proof -
  have "shifted_other 13 = 13" by code_simp
  then show ?thesis by (simp add: scan_code_values keycode_to_ascii_def)
qed

section \<open>The modifier keys\<close>

text \<open>What pressing a key does to the flags: the flag of a modifier key is set, caps lock toggles.\<close>

definition keyboard_follows :: "u8 \<Rightarrow> keyboard \<Rightarrow> keyboard \<Rightarrow> bool" where
  "keyboard_follows c s t \<longleftrightarrow>
     console_inv (kb_console t) \<and> shift t = (shift s \<or> c \<in> {0x2A, 0x36}) \<and> ctrl t = (ctrl s \<or> c = 0x1D) \<and>
     alt t = (alt s \<or> c = 0x38) \<and> caps t = (caps s \<noteq> (c = 0x3A))"

lemma u8_less: "unat (c :: u8) < 256"
  using unsigned_less [of c, where 'a = nat] by simp

lemma bit7_iff: "(c :: u8) AND 0x80 = 0 \<longleftrightarrow> unat c < 128"
proof -
  have "unat c div 128 < 2" using u8_less [of c] by (simp add: div_less_iff_less_mult)
  then have "unat c div 128 = 0 \<or> unat c div 128 = 1" by arith
  then have "bit (unat c) 7 \<longleftrightarrow> \<not> unat c < 128" by (auto simp: bit_iff_odd div_eq_0_iff)
  then have "bit c 7 \<longleftrightarrow> \<not> unat c < 128" by (simp add: bit_unsigned_iff)
  moreover have "c AND 0x80 = c AND 2 ^ 7" by simp
  ultimately show ?thesis using and_exp_eq_0_iff_not_bit [of c 7] by simp
qed

lemma u8_eq_iff: "n < 256 \<Longrightarrow> unat (c :: u8) = n \<longleftrightarrow> c = of_nat n"
  by (auto simp: unat_of_nat take_bit_nat_eq_self_iff)

lemma scan_code_get: "unat c < 83 \<Longrightarrow> arr_get scan_code (uint (c :: u8)) = Inr (scan_code ! unat c)"
proof -
  assume "unat c < 83"
  moreover have "uint c = int (unat c)" by simp
  ultimately show ?thesis unfolding arr_get_def length_scan_code by (simp del: of_nat_unat)
qed

lemma write_char_ok:
  assumes "console_inv s"
  obtains s' where "write_char color c s = Inr s'" and "console_inv s'"
  using write_char_Inr [OF assms] write_char_inv [OF assms] by (metis surj_pair)

lemma code_modifiers:
  fixes c :: u8
  assumes "unat c < 83"
  shows "scan_code ! unat c = 0x4002 \<or> scan_code ! unat c = 0x4006 \<longleftrightarrow> c = 0x2A \<or> c = 0x36"
    and "scan_code ! unat c = 0x4003 \<or> scan_code ! unat c = 0x4007 \<longleftrightarrow> c = 0x1D"
    and "scan_code ! unat c = 0x4004 \<or> scan_code ! unat c = 0x4008 \<longleftrightarrow> c = 0x38"
    and "scan_code ! unat c = 0x4001 \<longleftrightarrow> c = 0x3A"
  using scan_code_modifiers [OF assms] u8_eq_iff [of 42 c] u8_eq_iff [of 54 c] u8_eq_iff [of 29 c] u8_eq_iff [of 56 c]
    u8_eq_iff [of 58 c] by simp_all

lemma make_code_follows:
  assumes "console_inv (kb_console s)" and "unat c < 83" and room: "line_room (Suc n) (kb_line s)"
  shows "\<exists>t. make_code (scan_code ! unat c) s = Inr t \<and> keyboard_follows c s t \<and> line_room n (kb_line t)"
proof -
  define k where "k = scan_code ! unat c"
  let ?a = "keycode_to_ascii (word_of_int k) s"
  obtain con where "write_char TEXT_COLOR ?a (kb_console s) = Inr con"
    "console_inv con" using write_char_ok [OF assms(1)] .
  moreover have less: "line_room n (kb_line s)" by (rule line_room_mono [OF room]) simp
  then have "\<exists>b. (if reading (kb_line s) \<noteq> 0 then write_io_buff ?a (kb_line s) else Inr (kb_line s)) = Inr b \<and> line_room n b"
    using write_io_buff_room [OF room] by (cases "reading (kb_line s) = 0") (simp, metis)
  ultimately show ?thesis
    using assms(1) code_modifiers [OF assms(2), folded k_def] less unfolding k_def [symmetric]
    by (auto simp: make_code_def modifier_keys keyboard_follows_def)
qed

lemma keyboard_handler_follows:
  assumes "console_inv (kb_console s)" and "unat c < 83" and "line_room (Suc n) (kb_line s)"
    and "status AND KYBRD_CTRL_STATS_MASK_OUT_BUF \<noteq> 0"
  obtains t where "keyboard_handler status c s = Inr t" and "keyboard_follows c s t" and "line_room n (kb_line t)"
proof -
  have "c \<noteq> 0xE0" "c \<noteq> 0xE1" "c AND 0x80 = 0" using assms(2) by (auto simp: bit7_iff)
  then have "keyboard_handler status c s = make_code (scan_code ! unat c) s"
    using assms(2,4) by (simp add: keyboard_handler_def handle_scancode_def scan_code_get)
  then show ?thesis using make_code_follows [OF assms(1-3)] that by auto
qed

text \<open>
  C31: whatever keys of the table are pressed, as long as a line that is being read has room for as many characters, the handler
  does not fault, the screen stays well formed, the flag of a modifier key is set when one of its keys has been pressed, and
  caps lock toggles with each press of its key. (No flag is ever cleared again: the code of a released key faults.)
\<close>

theorem keyboard_modifiers:
  assumes "console_inv (kb_console s)" and "\<forall>c\<in>set cs. unat c < 83" and "line_room (length cs) (kb_line s)"
    and "status AND KYBRD_CTRL_STATS_MASK_OUT_BUF \<noteq> 0"
  shows "\<exists>t. rfold (keyboard_handler status) cs s = Inr t \<and> console_inv (kb_console t) \<and>
    (shift t \<longleftrightarrow> shift s \<or> 0x2A \<in> set cs \<or> 0x36 \<in> set cs) \<and> (ctrl t \<longleftrightarrow> ctrl s \<or> 0x1D \<in> set cs) \<and>
    (alt t \<longleftrightarrow> alt s \<or> 0x38 \<in> set cs) \<and> (caps t \<longleftrightarrow> caps s \<noteq> odd (count_list cs 0x3A))"
  using assms
proof (induction cs arbitrary: s)
  case (Cons c cs)
  obtain s' where s': "keyboard_handler status c s = Inr s'" "keyboard_follows c s s'" "line_room (length cs) (kb_line s')"
    by (rule keyboard_handler_follows [of s c "length cs" status]) (use Cons.prems in simp_all)
  have "console_inv (kb_console s')" using s'(2) by (simp add: keyboard_follows_def)
  from Cons.IH [OF this _ s'(3) Cons.prems(4)] Cons.prems(2)
  obtain t where t: "rfold (keyboard_handler status) cs s' = Inr t" "console_inv (kb_console t)"
    "shift t \<longleftrightarrow> shift s' \<or> 0x2A \<in> set cs \<or> 0x36 \<in> set cs" "ctrl t \<longleftrightarrow> ctrl s' \<or> 0x1D \<in> set cs"
    "alt t \<longleftrightarrow> alt s' \<or> 0x38 \<in> set cs" "caps t \<longleftrightarrow> caps s' \<noteq> odd (count_list cs 0x3A)"
    unfolding set_simps by blast
  have "rfold (keyboard_handler status) (c # cs) s = Inr t" using s'(1) t(1) by simp
  moreover have "caps t \<longleftrightarrow> caps s \<noteq> odd (count_list (c # cs) 0x3A)"
    using s'(2) t(6) by (cases "c = 0x3A") (simp_all add: keyboard_follows_def)
  moreover have "shift t \<longleftrightarrow> shift s \<or> 0x2A \<in> set (c # cs) \<or> 0x36 \<in> set (c # cs)"
    using s'(2) t(3) unfolding keyboard_follows_def by auto
  moreover have "ctrl t \<longleftrightarrow> ctrl s \<or> 0x1D \<in> set (c # cs)" "alt t \<longleftrightarrow> alt s \<or> 0x38 \<in> set (c # cs)"
    using s'(2) t(4,5) unfolding keyboard_follows_def by auto
  ultimately show ?case using t(2) by (intro exI [of _ t] conjI)
qed simp

definition example_keyboard :: keyboard where
  "example_keyboard =
     \<lparr>shift = False, ctrl = False, caps = False, alt = False,
      kb_console = \<lparr>screen = replicate 4000 0, video_memory = 0, port_outs = []\<rparr>,
      kb_line = \<lparr>iobuff = replicate 1024 0, io_buff = Some 0, reading = 1, first_char = 0\<rparr>\<rparr>"

lemma example_keyboard_inv: "console_inv (kb_console example_keyboard)"
  by (simp add: example_keyboard_def console_inv_def)

lemma example_keyboard_room: "n \<le> 1024 \<Longrightarrow> line_room n (kb_line example_keyboard)"
  by (auto simp: example_keyboard_def line_room_def)

theorem keyboard_modifiers_witness:
  "\<exists>t. rfold (keyboard_handler 1) [0x2A, 0x1E, 0x3A, 0x1E, 0x1D] example_keyboard = Inr t \<and>
    shift t \<and> ctrl t \<and> \<not> alt t \<and> caps t"
proof -
  have "\<forall>c\<in>set [0x2A, 0x1E, 0x3A, 0x1E, 0x1D :: u8]. unat c < 83" by simp
  from keyboard_modifiers [OF example_keyboard_inv this example_keyboard_room, of 1] show ?thesis
    by (auto simp: example_keyboard_def KYBRD_CTRL_STATS_MASK_OUT_BUF_def)
qed

section \<open>A line of text\<close>

definition typed :: "keyboard \<Rightarrow> u8 \<Rightarrow> u8" where
  "typed s c = keycode_to_ascii (word_of_int (scan_code ! unat c)) s"

text \<open>A key that writes a character other than a line end.\<close>

definition text_key :: "keyboard \<Rightarrow> u8 \<Rightarrow> bool" where
  "text_key s c \<longleftrightarrow> unat c < 83 \<and> c \<notin> {0x1D, 0x2A, 0x36, 0x38, 0x3A} \<and> typed s c \<notin> {10, 13}"

lemma keyboard_handler_make:
  assumes "unat c < 83" and "c \<notin> {0x1D, 0x2A, 0x36, 0x38, 0x3A}" and "console_inv (kb_console s)"
    and "reading (kb_line s) \<noteq> 0" and "write_io_buff (typed s c) (kb_line s) = Inr b"
  obtains con where "keyboard_handler 1 c s = Inr (s\<lparr>kb_console := con, kb_line := b\<rparr>)" and "console_inv con"
proof -
  obtain con where con: "write_char TEXT_COLOR (typed s c) (kb_console s) = Inr con" "console_inv con"
    using write_char_ok [OF assms(3)] .
  have p: "c \<noteq> 0xE0" "c \<noteq> 0xE1" using assms(1) by auto
  have "make_code (scan_code ! unat c) s = Inr (s\<lparr>kb_console := con, kb_line := b\<rparr>)"
    using con(1) assms(2,4,5) code_modifiers [OF assms(1)]
    by (auto simp: make_code_def modifier_keys typed_def)
  then have "keyboard_handler 1 c s = Inr (s\<lparr>kb_console := con, kb_line := b\<rparr>)"
    using assms(1) p
    by (simp add: keyboard_handler_def KYBRD_CTRL_STATS_MASK_OUT_BUF_def handle_scancode_def scan_code_get bit7_iff)
  with con(2) that show ?thesis by blast
qed

text \<open>The line after text has been typed behind its first \<open>i\<close> characters.\<close>

definition line_typed :: "nat \<Rightarrow> u8 list \<Rightarrow> line_buffer \<Rightarrow> line_buffer" where
  "line_typed i cs b = b\<lparr>iobuff := filled i cs (iobuff b), io_buff := Some (int (i + length cs)),
     first_char := (if cs = [] then first_char b else 1)\<rparr>"

lemma line_typed_Nil: "io_buff b = Some (int i) \<Longrightarrow> line_typed i [] b = b"
  by (simp add: line_typed_def)

lemma line_typed_Cons:
  assumes "io_buff b = Some (int i)" and "i < length (iobuff b)" and "c \<notin> {10, 13}"
  shows "\<exists>b'. write_io_buff c b = Inr b' \<and> io_buff b' = Some (int (Suc i)) \<and> length (iobuff b') = length (iobuff b) \<and>
    reading b' = reading b \<and> line_typed (Suc i) cs b' = line_typed i (c # cs) b"
  using write_io_buff_at [OF assms(1,2), of c] assms(2,3) by (simp add: line_typed_def filled_Cons)

lemma keyboard_handler_text:
  assumes "\<forall>c\<in>set cs. text_key s c" and "console_inv (kb_console s)" and "reading (kb_line s) \<noteq> 0"
    and "io_buff (kb_line s) = Some (int i)" and "i + length cs \<le> length (iobuff (kb_line s))"
  shows "\<exists>con. console_inv con \<and>
    rfold (keyboard_handler 1) cs s = Inr (s\<lparr>kb_console := con, kb_line := line_typed i (map (typed s) cs) (kb_line s)\<rparr>)"
  using assms
proof (induction cs arbitrary: s i)
  case (Cons c cs)
  then have c: "unat c < 83" "c \<notin> {0x1D, 0x2A, 0x36, 0x38, 0x3A}" "typed s c \<notin> {10, 13}" by (simp_all add: text_key_def)
  have "i < length (iobuff (kb_line s))" using Cons.prems(5) by simp
  from line_typed_Cons [OF Cons.prems(4) this c(3), of "map (typed s) cs"] obtain b where
    b: "write_io_buff (typed s c) (kb_line s) = Inr b" "io_buff b = Some (int (Suc i))"
      "length (iobuff b) = length (iobuff (kb_line s))" "reading b = reading (kb_line s)"
      "line_typed (Suc i) (map (typed s) cs) b = line_typed i (map (typed s) (c # cs)) (kb_line s)" by auto
  obtain con where con: "keyboard_handler 1 c s = Inr (s\<lparr>kb_console := con, kb_line := b\<rparr>)" "console_inv con"
    using keyboard_handler_make [OF c(1,2) Cons.prems(2,3) b(1)] .
  let ?s = "s\<lparr>kb_console := con, kb_line := b\<rparr>"
  have t: "typed ?s = typed s" by (simp add: typed_def keycode_to_ascii_def fun_eq_iff)
  then have k: "text_key ?s = text_key s" by (simp add: text_key_def fun_eq_iff)
  have "\<exists>con'. console_inv con' \<and>
      rfold (keyboard_handler 1) cs ?s = Inr (?s\<lparr>kb_console := con', kb_line := line_typed (Suc i) (map (typed ?s) cs) (kb_line ?s)\<rparr>)"
    by (rule Cons.IH) (use Cons.prems con(2) b k in simp_all)
  then show ?case unfolding t using con(1) b(5) by auto
next
  case Nil
  then show ?case by (auto simp: line_typed_Nil intro!: exI [of _ "kb_console s"])
qed

text \<open>
  C32: while a line is read whose buffer has room for them, pressing keys that write text and then Enter stores their characters
  and the line end behind what was typed before, moves the pointer behind them and ends the reading; the rest of the buffer and
  the modifier flags stay as they are. An Enter that is the very first key of a reader is ignored by the code, hence the
  hypothesis.
\<close>

theorem keyboard_reads_line:
  assumes "console_inv (kb_console s)" and "reading (kb_line s) \<noteq> 0" and "\<forall>c\<in>set cs. text_key s c"
    and "cs \<noteq> [] \<or> first_char (kb_line s) \<noteq> 0"
    and "io_buff (kb_line s) = Some (int i)" and "i + length cs < length (iobuff (kb_line s))"
  shows "\<exists>t. rfold (keyboard_handler 1) (cs @ [0x1C]) s = Inr t \<and> console_inv (kb_console t) \<and>
    iobuff (kb_line t) = filled i (map (typed s) cs @ [13]) (iobuff (kb_line s)) \<and>
    io_buff (kb_line t) = Some (int (i + length cs + 1)) \<and> reading (kb_line t) = 0 \<and>
    shift t = shift s \<and> caps t = caps s \<and> ctrl t = ctrl s \<and> alt t = alt s"
proof -
  let ?b = "line_typed i (map (typed s) cs) (kb_line s)"
  obtain con where con: "console_inv con" and r: "rfold (keyboard_handler 1) cs s = Inr (s\<lparr>kb_console := con, kb_line := ?b\<rparr>)"
    (is "_ = Inr ?s")
    using keyboard_handler_text [OF assms(3,1,2,5)] assms(6) by auto
  have e: "typed ?s 0x1C = 13" by (simp add: typed_def enter_key)
  have w: "write_io_buff 13 ?b = Inr (?b\<lparr>iobuff := (iobuff ?b)[i + length cs := 13], io_buff := Some (int (Suc (i + length cs))),
      reading := 0, first_char := 1\<rparr>)"
    using write_io_buff_at [of ?b "i + length cs" 13] assms(4,6) by (auto simp: line_typed_def)
  obtain con' where "console_inv con'" "keyboard_handler 1 0x1C ?s = Inr (?s\<lparr>kb_console := con', kb_line := ?b\<lparr>
      iobuff := (iobuff ?b)[i + length cs := 13], io_buff := Some (int (Suc (i + length cs))), reading := 0, first_char := 1\<rparr>\<rparr>)"
    by (rule keyboard_handler_make [of "0x1C" ?s, unfolded e]) (use con assms(2) w in \<open>auto simp: line_typed_def\<close>)
  moreover have "(filled i (map (typed s) cs) (iobuff (kb_line s)))[i + length cs := 13] =
      filled i (map (typed s) cs @ [13]) (iobuff (kb_line s))"
    using assms(6) by (simp add: filled_def list_update_append Cons_nth_drop_Suc [symmetric])
  ultimately show ?thesis using r by (auto simp: rfold_append line_typed_def)
qed

theorem keyboard_reads_line_witness:
  "\<exists>t. rfold (keyboard_handler 1) ([0x26, 0x1F] @ [0x1C]) example_keyboard = Inr t \<and>
    iobuff (kb_line t) = [108, 115, 13] @ replicate 1021 0 \<and> reading (kb_line t) = 0"
proof -
  have t: "map (typed example_keyboard) [0x26, 0x1F] = [108, 115]"
    by (simp add: typed_def scan_code_values keycode_to_ascii_def example_keyboard_def)
  then have "\<forall>c\<in>set [0x26, 0x1F]. text_key example_keyboard c" by (simp add: text_key_def)
  moreover have "reading (kb_line example_keyboard) \<noteq> 0" "io_buff (kb_line example_keyboard) = Some (int 0)"
    "iobuff (kb_line example_keyboard) = replicate 1024 0" by (simp_all add: example_keyboard_def)
  ultimately show ?thesis
    using keyboard_reads_line [OF example_keyboard_inv, of "[0x26, 0x1F]" 0] unfolding t by (auto simp: filled_def)
qed

text \<open>
  C39: the handler looks every scan code up in the table before it tests for a released key, and the table ends at
  0x52: every code from 0x53 on, and so the release of every key, reads behind the table.
\<close>

theorem keyboard_handler_release_faults:
  assumes "status AND KYBRD_CTRL_STATS_MASK_OUT_BUF \<noteq> 0" and "0x53 \<le> c"
  shows "keyboard_handler status c s = Inl OutOfBounds"
proof -
  have "83 \<le> uint c" using assms(2) by (simp add: word_le_def)
  then show ?thesis using assms(1) by (simp add: keyboard_handler_def arr_get_def length_scan_code)
qed

theorem keyboard_handler_release_faults_witness:
  "keyboard_handler 1 0xAA example_keyboard = Inl OutOfBounds"
  by (rule keyboard_handler_release_faults) (simp_all add: KYBRD_CTRL_STATS_MASK_OUT_BUF_def)

end
