(* ===== verification/Interrupts.thy ===== *)
theory Interrupts
  imports Timer Keyboard
begin

text \<open>
  Descriptor tables and interrupts: \<open>sys/gdt.c\<close>, the gates of \<open>sys/idt.c\<close>, \<open>sys/irq.c\<close>, and what the stubs of
  \<open>sys/irq.s\<close> do to the data of the C code. The addresses of the assembler stubs and of the tables are arguments.
  What the keyboard ports return at an interrupt is an argument too.
\<close>

section \<open>Descriptor tables\<close>

record idtEntry =
  baseLow :: u16
  selector :: u16
  reservedIst :: u8
  gate_flags :: u8
  baseMid :: u16
  baseHigh :: u32
  gate_reserved :: u32

definition zero_gate :: idtEntry where
  "zero_gate =
     \<lparr>baseLow = 0, selector = 0, reservedIst = 0, gate_flags = 0, baseMid = 0, baseHigh = 0, gate_reserved = 0\<rparr>"

definition MAX_IDT :: nat where
  "MAX_IDT = 256"

definition idt_set_gate :: "u8 \<Rightarrow> u64 \<Rightarrow> u16 \<Rightarrow> u8 \<Rightarrow> idtEntry list \<Rightarrow> idtEntry list res" where
  "idt_set_gate number base sel flags idt =
     arr_set idt (uint number)
       \<lparr>baseLow = ucast (base AND 0xFFFF), selector = sel, reservedIst = 0, gate_flags = flags,
        baseMid = ucast (drop_bit 16 base AND 0xFFFF), baseHigh = ucast (drop_bit 32 base AND 0xFFFFFFFF), gate_reserved = 0\<rparr>"

text \<open>The registers of the processor that the code loads: limit and address of the tables, and selectors.\<close>

record cpu =
  idt :: "idtEntry list"
  gdt :: "u64 list"
  idtr :: "u16 \<times> u64"
  gdtr :: "u16 \<times> u64"
  cs_sel :: u64
  ds_sel :: u64
  task_sel :: u16

definition x86_64_asm_ltr :: "cpu \<Rightarrow> cpu" where
  "x86_64_asm_ltr s = s\<lparr>task_sel := 0x2B\<rparr>"

definition reload_idt :: "(nat \<Rightarrow> u64) \<Rightarrow> u64 \<Rightarrow> cpu \<Rightarrow> cpu res" where
  "reload_idt isr idt_addr s =
     rbind (rfold (\<lambda>i t. arr_set t (int i) zero_gate) [0..<256] (idt s)) (\<lambda>t.
     rbind (idt_set_gate 0 (isr 0) 0x08 0x8E t) (\<lambda>t.
     rbind (idt_set_gate 1 (isr 1) 0x08 0x8E t) (\<lambda>t.
     rbind (idt_set_gate 0xD (isr 13) 0x08 0x8E t) (\<lambda>t.
     rbind (idt_set_gate 0xE (isr 14) 0x08 0x8E t) (\<lambda>t.
     rbind (idt_set_gate 0x80 (isr 80) 0x08 0xEE t) (\<lambda>t.
     Inr (x86_64_asm_ltr (s\<lparr>idt := t, idtr := (4096 - 1, idt_addr)\<rparr>))))))))"

definition GDT_CS :: u64 where "GDT_CS = 0x00180000000000"

definition GDT_DS :: u64 where "GDT_DS = 0x00100000000000"

definition DPL0 :: u64 where "DPL0 = 0"

definition DPL3 :: u64 where "DPL3 = 0x00600000000000"

definition gdt_P :: u64 where "gdt_P = 0x00800000000000"

definition gdt_L :: u64 where "gdt_L = 0x20000000000000"

definition gdt_W :: u64 where "gdt_W = 0x00020000000000"

definition MAX_GDT :: nat where
  "MAX_GDT = 32"

definition initial_gdt :: "u64 list" where
  "initial_gdt =
     [0, GDT_CS OR gdt_P OR DPL0 OR gdt_L, GDT_DS OR gdt_P OR gdt_W OR DPL0, GDT_CS OR gdt_P OR DPL3 OR gdt_L,
      GDT_DS OR gdt_P OR gdt_W OR DPL3, 0, 0] @ replicate (MAX_GDT - 7) 0"

definition reload_gdt :: "u64 \<Rightarrow> cpu \<Rightarrow> cpu" where
  "reload_gdt gdt_addr s = s\<lparr>gdtr := (of_nat (8 * MAX_GDT), gdt_addr), cs_sel := 8, ds_sel := 16\<rparr>"

text \<open>
  The bit fields of \<open>struct sys_segment_descriptor\<close>, which overlays two entries of the table: offset and width of each.
\<close>

definition sys_segment_descriptor :: "(string \<times> nat \<times> nat) list" where
  "sys_segment_descriptor =
     [(''sd_lolimit'', 0, 16), (''sd_lobase'', 16, 24), (''sd_type'', 40, 5), (''sd_dpl'', 45, 2), (''sd_p'', 47, 1),
      (''sd_hilimit'', 48, 4), (''sd_xx1'', 52, 3), (''sd_gran'', 55, 1), (''sd_hibase'', 56, 40), (''sd_xx2'', 96, 8),
      (''sd_zero'', 104, 5), (''sd_xx3'', 109, 19)]"

definition set_field :: "string \<Rightarrow> u64 \<Rightarrow> 128 word \<Rightarrow> 128 word" where
  "set_field f v d =
     (case map_of sys_segment_descriptor f of
        Some (lo, n) \<Rightarrow> (d AND NOT (push_bit lo (mask n))) OR push_bit lo (take_bit n (ucast v))
      | None \<Rightarrow> d)"

definition setup_tss :: "u64 \<Rightarrow> cpu \<Rightarrow> cpu res" where
  "setup_tss tss_addr s =
     rbind (arr_get (gdt s) 5) (\<lambda>lo.
     rbind (arr_get (gdt s) 6) (\<lambda>hi.
     let sd = (ucast lo :: 128 word) OR push_bit 64 (ucast hi);
         sd = set_field ''sd_lolimit'' (56 - 1) sd;
         sd = set_field ''sd_lobase'' tss_addr sd;
         sd = set_field ''sd_type'' 9 sd;
         sd = set_field ''sd_dpl'' 0 sd;
         sd = set_field ''sd_p'' 1 sd;
         sd = set_field ''sd_hilimit'' 0 sd;
         sd = set_field ''sd_gran'' 0 sd;
         sd = set_field ''sd_hibase'' (drop_bit 24 tss_addr) sd
     in rbind (arr_set (gdt s) 5 (ucast sd)) (\<lambda>g.
        rbind (arr_set g 6 (ucast (drop_bit 64 sd))) (\<lambda>g. Inr (s\<lparr>gdt := g\<rparr>)))))"

section \<open>Hardware interrupts\<close>

text \<open>The functions that are installed as handlers.\<close>

datatype irq_routine = Timer_routine | Keyboard_routine

record machine =
  m_cpu :: cpu
  irq_routines :: "irq_routine option list"
  m_clock :: clock
  m_kernel :: kernel_state
  m_keyboard :: keyboard

definition m_outb :: "u16 \<Rightarrow> u8 \<Rightarrow> machine \<Rightarrow> machine" where
  "m_outb p v m =
     (let k = m_keyboard m in m\<lparr>m_keyboard := k\<lparr>kb_console := outb p v (kb_console k)\<rparr>\<rparr>)"

definition irq_install_handler :: "int \<Rightarrow> irq_routine \<Rightarrow> machine \<Rightarrow> machine res" where
  "irq_install_handler irq h m =
     rbind (arr_set (irq_routines m) irq (Some h)) (\<lambda>t. Inr (m\<lparr>irq_routines := t\<rparr>))"

definition irq_uninstall_handler :: "int \<Rightarrow> machine \<Rightarrow> machine res" where
  "irq_uninstall_handler irq m =
     rbind (arr_set (irq_routines m) irq None) (\<lambda>t. Inr (m\<lparr>irq_routines := t\<rparr>))"

definition irq_remap :: "machine \<Rightarrow> machine" where
  "irq_remap m =
     fold (\<lambda>(p, v). m_outb p v)
       [(0x20, 0x11), (0xA0, 0x11), (0x21, 0x20), (0xA1, 0x28), (0x21, 0x04), (0xA1, 0x02), (0x21, 0x01), (0xA1, 0x01),
        (0x21, 0), (0xA1, 0)] m"

definition irq_install :: "(nat \<Rightarrow> u64) \<Rightarrow> machine \<Rightarrow> machine res" where
  "irq_install irq m =
     (let m = irq_remap m in
      rbind (rfold (\<lambda>n. idt_set_gate (of_nat (32 + n)) (irq n) 0x08 0x8E) [0..<16] (idt (m_cpu m))) (\<lambda>t.
      Inr (m\<lparr>m_cpu := (m_cpu m)\<lparr>idt := t\<rparr>\<rparr>)))"

definition timer_install :: "machine \<Rightarrow> machine res" where
  "timer_install m =
     rbind (timer_setup 100 (kb_console (m_keyboard m))) (\<lambda>con.
     irq_install_handler 0 Timer_routine (m\<lparr>m_keyboard := (m_keyboard m)\<lparr>kb_console := con\<rparr>\<rparr>))"

definition keyboard_install :: "machine \<Rightarrow> machine res" where
  "keyboard_install m = irq_install_handler 1 Keyboard_routine m"

text \<open>Calling a handler. The argument \<open>ports\<close> are the status and the data the keyboard controller would return.\<close>

fun call_routine :: "irq_routine \<Rightarrow> u8 \<times> u8 \<Rightarrow> machine \<Rightarrow> machine res" where
  "call_routine Timer_routine ports m =
     rbind (timer_handler (m_clock m, m_kernel m, kb_console (m_keyboard m))) (\<lambda>(c, s, con).
     Inr (m\<lparr>m_clock := c, m_kernel := s, m_keyboard := (m_keyboard m)\<lparr>kb_console := con\<rparr>\<rparr>))"
| "call_routine Keyboard_routine ports m =
     rbind (keyboard_handler (fst ports) (snd ports) (m_keyboard m)) (\<lambda>k. Inr (m\<lparr>m_keyboard := k\<rparr>))"

definition irq_handler :: "u8 \<times> u8 \<Rightarrow> u64 \<Rightarrow> machine \<Rightarrow> machine res" where
  "irq_handler ports intNo m =
     rbind (arr_get (irq_routines m) (uint (intNo - 0x32))) (\<lambda>handler.
     rbind (case handler of Some h \<Rightarrow> call_routine h ports m | None \<Rightarrow> Inr m) (\<lambda>m.
     let m = (if intNo \<ge> 40 then m_outb 0xA0 0x20 m else m) in
     Inr (m_outb 0x20 0x20 m)))"

text \<open>The number that the stub of each interrupt line pushes.\<close>

definition irq_stub_no :: "nat \<Rightarrow> u64" where
  "irq_stub_no n = (if n < 8 then of_nat (0x32 + n) else if n < 15 then of_nat (0x40 + (n - 8)) else 0x36)"

text \<open>
  The context switch: the current thread, its stack pointer saved, goes to the end of the run queue, and the first ready
  thread of the queue is resumed. The result is the new state and the stack pointer that is loaded.
\<close>

definition context_switch :: "u64 \<Rightarrow> kernel_state \<Rightarrow> (kernel_state \<times> u64) res" where
  "context_switch frame s =
     rbind (get_thread (currentThread s) s) (\<lambda>t.
     rbind (upd_thread (currentThread s)
       (\<lambda>u. if kernel_thread t = 0 then u\<lparr>krsp := frame\<rparr> else u\<lparr>rsp := frame\<rparr>) s) (\<lambda>s.
     rbind (runnable_kthread (currentThread s) s) (\<lambda>s.
     rbind (next_runnable_kthread s) (\<lambda>(s, r).
     rbind (get_thread r s) (\<lambda>t.
     let s = (if kernel_thread t = 0 then s\<lparr>tss_rsp0 := kstack t\<rparr> else s);
         h = kheap s
     in Inr (s\<lparr>currentThread := r, kheap := h\<lparr>vm := (vm h)\<lparr>cr3 := pcr3 t\<rparr>\<rparr>\<rparr>,
             if kernel_thread t = 0 then krsp t else rsp t))))))"

definition irq_common_stub :: "u8 \<times> u8 \<Rightarrow> u64 \<Rightarrow> u64 \<Rightarrow> machine \<Rightarrow> machine res" where
  "irq_common_stub ports frame intNo m =
     rbind (irq_handler ports intNo m) (\<lambda>m.
     if intNo = 0x32 \<and> is_scheduler_on (m_kernel m)
     then rbind (context_switch frame (m_kernel m)) (\<lambda>(s, _). Inr (m\<lparr>m_kernel := s\<rparr>))
     else Inr m)"

definition irq :: "u8 \<times> u8 \<Rightarrow> u64 \<Rightarrow> nat \<Rightarrow> machine \<Rightarrow> machine res" where
  "irq ports frame n m = irq_common_stub ports frame (irq_stub_no n) m"

text \<open>The part of \<open>boot\<close> in \<open>sys/main.c\<close> that sets up descriptor tables and interrupts.\<close>

definition boot_interrupts :: "(nat \<Rightarrow> u64) \<Rightarrow> (nat \<Rightarrow> u64) \<Rightarrow> u64 \<Rightarrow> u64 \<Rightarrow> u64 \<Rightarrow> machine \<Rightarrow> machine res" where
  "boot_interrupts isr stub tss_addr gdt_addr idt_addr m =
     rbind (setup_tss tss_addr (m_cpu m)) (\<lambda>c.
     rbind (reload_idt isr idt_addr (reload_gdt gdt_addr c)) (\<lambda>c.
     rbind (irq_install stub (m\<lparr>m_cpu := c\<rparr>)) (\<lambda>m.
     rbind (timer_install m) keyboard_install)))"

section \<open>Gates and descriptors as the processor reads them\<close>

definition gate_base :: "idtEntry \<Rightarrow> u64" where
  "gate_base e = ucast (baseLow e) OR push_bit 16 (ucast (baseMid e)) OR push_bit 32 (ucast (baseHigh e))"

definition gate_present :: "idtEntry \<Rightarrow> bool" where
  "gate_present e \<longleftrightarrow> bit (gate_flags e) 7"

text \<open>The privilege level from which a software interrupt may use the gate.\<close>

definition gate_dpl :: "idtEntry \<Rightarrow> nat" where
  "gate_dpl e = unat (drop_bit 5 (gate_flags e) AND 3)"

definition descriptor_base :: "u64 \<Rightarrow> u64 \<Rightarrow> u64" where
  "descriptor_base lo hi =
     take_bit 24 (drop_bit 16 lo) OR push_bit 24 (take_bit 8 (drop_bit 56 lo)) OR push_bit 32 (take_bit 32 hi)"

definition descriptor_limit :: "u64 \<Rightarrow> u64" where
  "descriptor_limit lo = take_bit 16 lo OR push_bit 16 (take_bit 4 (drop_bit 48 lo))"

lemma masks_u64: "(0xFFFF :: u64) = mask 16" "(0xFFFFFFFF :: u64) = mask 32"
  by (simp_all add: mask_eq_exp_minus_1)

lemma gate_base_parts:
  "(ucast (ucast (base AND 0xFFFF :: u64) :: u16) :: u64) OR push_bit 16 (ucast (ucast (drop_bit 16 base AND 0xFFFF) :: u16)) OR
     push_bit 32 (ucast (ucast (drop_bit 32 base AND 0xFFFFFFFF) :: u32)) = base"
  unfolding masks_u64
proof (rule bit_word_eqI)
  fix n
  assume n: "n < LENGTH(64)"
  consider "n < 16" | "16 \<le> n" "n - 16 < 16" | "32 \<le> n" by linarith
  then show "bit ((ucast (ucast (base AND mask 16) :: u16) :: u64) OR push_bit 16 (ucast (ucast (drop_bit 16 base AND mask 16) :: u16)) OR
      push_bit 32 (ucast (ucast (drop_bit 32 base AND mask 32) :: u32))) n = bit base n"
  proof cases
    case 3
    then have "\<not> n - 16 < 16" "n - 32 < 32" "32 + (n - 32) = n" using n by auto
    then show ?thesis using 3 n by (simp add: bit_or_iff bit_push_bit_iff bit_unsigned_iff bit_and_iff bit_mask_iff bit_drop_bit_eq)
  next
    case 2
    then have "\<not> 32 \<le> n" "16 + (n - 16) = n" by auto
    then show ?thesis using 2 n by (auto simp: bit_or_iff bit_push_bit_iff bit_unsigned_iff bit_and_iff bit_mask_iff bit_drop_bit_eq)
  qed (simp add: bit_or_iff bit_push_bit_iff bit_unsigned_iff bit_and_iff bit_mask_iff bit_drop_bit_eq)
qed

lemma clear_table:
  "k \<le> length t \<Longrightarrow> rfold (\<lambda>i t. arr_set t (int i) z) [0..<k] t = Inr (replicate k z @ drop k t)"
proof (induction k)
  case (Suc k)
  then have "arr_set (replicate k z @ drop k t) (int k) z = Inr (replicate (Suc k) z @ drop (Suc k) t)"
    by (simp add: arr_set_def list_update_append Cons_nth_drop_Suc [symmetric] replicate_app_Cons_same)
  then show ?case using Suc by (simp add: rfold_append)
qed simp

definition gate :: "u64 \<Rightarrow> u8 \<Rightarrow> idtEntry" where
  "gate base flags =
     \<lparr>baseLow = ucast (base AND 0xFFFF), selector = 0x08, reservedIst = 0, gate_flags = flags,
        baseMid = ucast (drop_bit 16 base AND 0xFFFF), baseHigh = ucast (drop_bit 32 base AND 0xFFFFFFFF), gate_reserved = 0\<rparr>"

lemma gate_base_gate [simp]: "gate_base (gate a f) = a" "gate_flags (gate a f) = f" "selector (gate a f) = 8"
  by (simp_all add: gate_base_def gate_def gate_base_parts)

lemma idt_set_gate_Inr: "length t = 256 \<Longrightarrow> idt_set_gate v a 0x08 f t = Inr (t[unat v := gate a f])"
proof -
  assume t: "length t = 256"
  have "uint v = int (unat v)" by simp
  moreover have "unat v < 256" by (rule u8_less)
  ultimately show ?thesis using t unfolding idt_set_gate_def gate_def arr_set_def by (simp del: of_nat_unat)
qed

lemma set_irq_gates:
  assumes "length t = 256" and "k \<le> 16"
  shows "rfold (\<lambda>n. idt_set_gate (of_nat (32 + n)) (stub n) 0x08 0x8E) [0..<k] t =
    Inr (fold (\<lambda>n t. t[32 + n := gate (stub n) 0x8E]) [0..<k] t)"
  using assms(2)
proof (induction k)
  case (Suc k)
  have "length (fold (\<lambda>n t. t[32 + n := gate (stub n) 0x8E]) ns t) = length t" for ns
    by (induction ns arbitrary: t) simp_all
  moreover have "unat (of_nat (32 + k) :: u8) = 32 + k" using Suc.prems by (subst unat_of_nat) simp
  ultimately show ?case using Suc assms(1) by (simp add: rfold_append idt_set_gate_Inr del: of_nat_add)
qed simp

lemma nth_irq_gates:
  assumes "length t = 256" and "v < 256"
  shows "fold (\<lambda>n t. t[32 + n := gate (stub n) f]) [0..<k] t ! v =
    (if 32 \<le> v \<and> v < 32 + k then gate (stub (v - 32)) f else t ! v)"
proof (induction k)
  case (Suc k)
  have "length (fold (\<lambda>n t. t[32 + n := gate (stub n) f]) ns t) = length t" for ns
    by (induction ns arbitrary: t) simp_all
  then show ?case using Suc assms by (cases "v = 32 + k") auto
qed auto

lemma bit_set_field:
  assumes "map_of sys_segment_descriptor f = Some (lo, n)" and "lo + n \<le> 128" and "n \<le> 64"
  shows "bit (set_field f v d) i \<longleftrightarrow> (if lo \<le> i \<and> i < lo + n then bit v (i - lo) else bit d i)"
proof (cases "i < 128")
  case True
  have "bit v (i - lo) \<Longrightarrow> i - lo < 64" using bit_imp_le_length [of v "i - lo"] by simp
  then show ?thesis using True assms
    by (auto simp: set_field_def bit_or_iff bit_and_iff bit_not_iff bit_push_bit_iff bit_mask_iff bit_take_bit_iff bit_unsigned_iff)
next
  case False
  then have "\<not> bit d i" "\<not> bit (set_field f v d) i" using bit_imp_le_length [of d i] bit_imp_le_length [of "set_field f v d" i] by auto
  then show ?thesis using False assms(2) by auto
qed

lemma segment_fields:
  "map_of sys_segment_descriptor ''sd_lolimit'' = Some (0, 16)" "map_of sys_segment_descriptor ''sd_lobase'' = Some (16, 24)"
  "map_of sys_segment_descriptor ''sd_type'' = Some (40, 5)" "map_of sys_segment_descriptor ''sd_dpl'' = Some (45, 2)"
  "map_of sys_segment_descriptor ''sd_p'' = Some (47, 1)" "map_of sys_segment_descriptor ''sd_hilimit'' = Some (48, 4)"
  "map_of sys_segment_descriptor ''sd_gran'' = Some (55, 1)" "map_of sys_segment_descriptor ''sd_hibase'' = Some (56, 40)"
  by (simp_all add: sys_segment_descriptor_def)

lemmas bit_fields = segment_fields [THEN bit_set_field, simplified]

definition tss_descriptor :: "u64 \<Rightarrow> 128 word \<Rightarrow> 128 word" where
  "tss_descriptor a d =
     set_field ''sd_hibase'' (drop_bit 24 a) (set_field ''sd_gran'' 0 (set_field ''sd_hilimit'' 0
      (set_field ''sd_p'' 1 (set_field ''sd_dpl'' 0 (set_field ''sd_type'' 9 (set_field ''sd_lobase'' a
       (set_field ''sd_lolimit'' 55 d)))))))"

lemma tss_descriptor_bits:
  "i < 16 \<Longrightarrow> bit (tss_descriptor a d) i \<longleftrightarrow> bit (55 :: u64) i"
  "16 \<le> i \<Longrightarrow> i < 40 \<Longrightarrow> bit (tss_descriptor a d) i \<longleftrightarrow> bit a (i - 16)"
  "40 \<le> i \<Longrightarrow> i < 45 \<Longrightarrow> bit (tss_descriptor a d) i \<longleftrightarrow> bit (9 :: u64) (i - 40)"
  "bit (tss_descriptor a d) 47"
  "48 \<le> i \<Longrightarrow> i < 52 \<Longrightarrow> \<not> bit (tss_descriptor a d) i"
  "56 \<le> i \<Longrightarrow> i < 96 \<Longrightarrow> bit (tss_descriptor a d) i \<longleftrightarrow> bit a (24 + (i - 56))"
  by (simp_all add: tss_descriptor_def bit_fields bit_drop_bit_eq)

lemma tss_descriptor_decode:
  fixes a d
  defines "lo \<equiv> ucast (tss_descriptor a d) :: u64" and "hi \<equiv> ucast (drop_bit 64 (tss_descriptor a d)) :: u64"
  shows "descriptor_base lo hi = a" and "descriptor_limit lo = 55" and "take_bit 5 (drop_bit 40 lo) = 9" and "bit lo 47"
proof -
  have lo: "bit lo n \<longleftrightarrow> n < 64 \<and> bit (tss_descriptor a d) n" and hi: "bit hi n \<longleftrightarrow> n < 64 \<and> bit (tss_descriptor a d) (64 + n)" for n
    by (auto simp: lo_def hi_def bit_unsigned_iff bit_drop_bit_eq)
  note bits = bit_or_iff bit_push_bit_iff bit_drop_bit_eq bit_take_bit_iff lo hi
  show "descriptor_base lo hi = a"
  proof (rule bit_word_eqI)
    fix n
    assume n: "n < LENGTH(64)"
    consider "n < 24" | "24 \<le> n" "n < 32" | "32 \<le> n" by linarith
    then show "bit (descriptor_base lo hi) n = bit a n"
    proof cases
      case 1
      then show ?thesis by (simp add: descriptor_base_def bits tss_descriptor_bits)
    next
      case 2
      then have "n - 24 < 8" "56 + (n - 24) < 64" "24 + (n - 24) = n" by auto
      with 2 show ?thesis by (simp add: descriptor_base_def bits tss_descriptor_bits)
    next
      case 3
      then have "n - 32 < 32" "\<not> n - 24 < 8" "64 + (n - 32) < 96" "24 + (64 + (n - 32) - 56) = n" using n by auto
      with 3 n show ?thesis by (auto simp: descriptor_base_def bits tss_descriptor_bits)
    qed
  qed
  have small: "bit w n \<Longrightarrow> n < k" if "take_bit k w = w" for w :: u64 and k n
    using bit_take_bit_iff [of k w n] that by simp
  show "descriptor_limit lo = 55"
  proof (rule bit_word_eqI)
    fix n
    have "n < 16" if "bit (55 :: u64) n" using small [of 6 55 n] that by simp
    moreover have "\<not> bit (tss_descriptor a d) (48 + (n - 16))" if "n - 16 < 4" using that by (intro tss_descriptor_bits) auto
    ultimately show "bit (descriptor_limit lo) n = bit (55 :: u64) n" unfolding descriptor_limit_def bits
      using tss_descriptor_bits(1) [of n a d] by (cases "n < 16") (auto simp only: o_apply)
  qed
  show "take_bit 5 (drop_bit 40 lo) = 9"
  proof (rule bit_word_eqI)
    fix n
    have "n < 5" if "bit (9 :: u64) n" using small [of 5 9 n] that by simp
    then show "bit (take_bit 5 (drop_bit 40 lo)) n = bit (9 :: u64) n"
      by (cases "n < 5") (auto simp: bits tss_descriptor_bits)
  qed
  show "bit lo 47" by (simp add: lo tss_descriptor_bits)
qed

lemma setup_tss_Inr:
  assumes "length (gdt s) = 32"
  obtains lo hi where "setup_tss a s = Inr (s\<lparr>gdt := (gdt s)[5 := lo, 6 := hi]\<rparr>)"
    and "descriptor_base lo hi = a" and "descriptor_limit lo = 55" and "take_bit 5 (drop_bit 40 lo) = 9" and "bit lo 47"
proof -
  define sd where "sd = tss_descriptor a (ucast (gdt s ! 5) OR push_bit 64 (ucast (gdt s ! 6)))"
  have "setup_tss a s = Inr (s\<lparr>gdt := (gdt s)[5 := ucast sd, 6 := ucast (drop_bit 64 sd)]\<rparr>)"
    using assms by (simp add: setup_tss_def arr_get_def arr_set_def Let_def sd_def tss_descriptor_def)
  then show thesis using tss_descriptor_decode unfolding sd_def by (rule that)
qed

section \<open>Properties\<close>

text \<open>The stub that a vector of the processor should reach.\<close>

definition vector_stub :: "(nat \<Rightarrow> u64) \<Rightarrow> (nat \<Rightarrow> u64) \<Rightarrow> nat \<Rightarrow> u64 option" where
  "vector_stub isr stub v =
     (if v \<in> {0, 1, 13, 14} then Some (isr v)
      else if v = 0x80 then Some (isr 80)
      else if 32 \<le> v \<and> v < 48 then Some (stub (v - 32))
      else None)"

definition gates_ok :: "(nat \<Rightarrow> u64) \<Rightarrow> (nat \<Rightarrow> u64) \<Rightarrow> idtEntry list \<Rightarrow> bool" where
  "gates_ok isr stub t \<longleftrightarrow>
     (\<forall>v<256. case vector_stub isr stub v of
        None \<Rightarrow> \<not> gate_present (t ! v)
      | Some a \<Rightarrow> gate_present (t ! v) \<and> gate_base (t ! v) = a \<and> selector (t ! v) = 8 \<and>
          gate_dpl (t ! v) = (if v = 0x80 then 3 else 0))"

lemma reload_idt_Inr:
  assumes "length (idt s) = 256"
  shows "reload_idt isr a s = Inr (x86_64_asm_ltr (s\<lparr>idt := (replicate 256 zero_gate)
    [0 := gate (isr 0) 0x8E, 1 := gate (isr 1) 0x8E, 13 := gate (isr 13) 0x8E, 14 := gate (isr 14) 0x8E,
     128 := gate (isr 80) 0xEE], idtr := (4095, a)\<rparr>))"
  using assms clear_table [of 256 "idt s" zero_gate] by (simp add: reload_idt_def idt_set_gate_Inr)

lemma gate_privileges:
  "gate_present (gate a 0x8E)" "gate_dpl (gate a 0x8E) = 0" "gate_present (gate a 0xEE)" "gate_dpl (gate a 0xEE) = 3"
  "\<not> gate_present zero_gate"
  by (simp_all add: gate_present_def gate_dpl_def zero_gate_def) code_simp+

lemma install_handlers:
  assumes "length (irq_routines m) = 16"
  shows "\<exists>m'. rbind (timer_install m) keyboard_install = Inr m' \<and> m_cpu m' = m_cpu m \<and>
    irq_routines m' = (irq_routines m)[0 := Some Timer_routine, 1 := Some Keyboard_routine]"
  using assms by (simp add: timer_install_def timer_setup_def keyboard_install_def irq_install_handler_def arr_set_def Let_def)

text \<open>
  C30. After the interrupt part of the boot the processor finds, for each of its 256 vectors, the stub meant for it, with
  user access to the system call gate only; all other gates are absent. The task descriptor has the address of the task
  state segment, and the timer and the keyboard are installed on their lines.
\<close>

theorem boot_interrupts_tables:
  assumes "length (idt (m_cpu m)) = 256" and "length (gdt (m_cpu m)) = 32" and "length (irq_routines m) = 16"
  shows "\<exists>m'. boot_interrupts isr stub tss_addr gdt_addr idt_addr m = Inr m' \<and>
    idtr (m_cpu m') = (4095, idt_addr) \<and> task_sel (m_cpu m') = 0x2B \<and>
    gates_ok isr stub (idt (m_cpu m')) \<and>
    descriptor_base (gdt (m_cpu m') ! 5) (gdt (m_cpu m') ! 6) = tss_addr \<and> descriptor_limit (gdt (m_cpu m') ! 5) = 55 \<and>
    irq_routines m' = (irq_routines m)[0 := Some Timer_routine, 1 := Some Keyboard_routine]"
proof -
  obtain lo hi where tss: "setup_tss tss_addr (m_cpu m) = Inr ((m_cpu m)\<lparr>gdt := (gdt (m_cpu m))[5 := lo, 6 := hi]\<rparr>)"
    "descriptor_base lo hi = tss_addr" "descriptor_limit lo = 55" using setup_tss_Inr [OF assms(2)] .
  define t where "t = (replicate 256 zero_gate)[0 := gate (isr 0) 0x8E, 1 := gate (isr 1) 0x8E, 13 := gate (isr 13) 0x8E,
    14 := gate (isr 14) 0x8E, 128 := gate (isr 80) 0xEE]"
  have len: "length t = 256" by (simp add: t_def)
  define t' where "t' = fold (\<lambda>n t. t[32 + n := gate (stub n) 0x8E]) [0..<16] t"
  have gates: "gates_ok isr stub t'"
    unfolding gates_ok_def
  proof (intro allI impI)
    fix v :: nat
    assume v: "v < 256"
    then have "t' ! v = (if 32 \<le> v \<and> v < 48 then gate (stub (v - 32)) 0x8E else t ! v)"
      using nth_irq_gates [OF len v, where stub = stub and k = 16] by (simp add: t'_def)
    then show "case vector_stub isr stub v of None \<Rightarrow> \<not> gate_present (t' ! v)
     | Some a \<Rightarrow> gate_present (t' ! v) \<and> gate_base (t' ! v) = a \<and> selector (t' ! v) = 8 \<and>
         gate_dpl (t' ! v) = (if v = 0x80 then 3 else 0)"
      using v by (auto simp: vector_stub_def t_def gate_privileges nth_list_update)
  qed
  define c where "c = reload_gdt gdt_addr ((m_cpu m)\<lparr>gdt := (gdt (m_cpu m))[5 := lo, 6 := hi]\<rparr>)"
  define c' where "c' = x86_64_asm_ltr (c\<lparr>idt := t, idtr := (4095, idt_addr)\<rparr>)"
  have r: "reload_idt isr idt_addr c = Inr c'"
    using reload_idt_Inr [of c] assms(1) by (simp add: c_def c'_def t_def reload_gdt_def)
  have c': "idt c' = t" "gdt c' = (gdt (m_cpu m))[5 := lo, 6 := hi]" "idtr c' = (4095, idt_addr)" "task_sel c' = 0x2B"
    by (simp_all add: c'_def c_def reload_gdt_def x86_64_asm_ltr_def)
  have f: "m_cpu (irq_remap x) = m_cpu x" "irq_routines (irq_remap x) = irq_routines x" for x
    by (simp_all add: irq_remap_def m_outb_def Let_def)
  have i: "irq_install stub (m\<lparr>m_cpu := c'\<rparr>) = Inr ((irq_remap (m\<lparr>m_cpu := c'\<rparr>))\<lparr>m_cpu := c'\<lparr>idt := t'\<rparr>\<rparr>)"
    using set_irq_gates [OF len, where stub = stub and k = 16] c'(1) f by (simp add: irq_install_def t'_def Let_def del: of_nat_add)
  obtain m' where m': "rbind (timer_install ((irq_remap (m\<lparr>m_cpu := c'\<rparr>))\<lparr>m_cpu := c'\<lparr>idt := t'\<rparr>\<rparr>)) keyboard_install = Inr m'"
    "m_cpu m' = c'\<lparr>idt := t'\<rparr>" "irq_routines m' = (irq_routines m)[0 := Some Timer_routine, 1 := Some Keyboard_routine]"
    using install_handlers [of "(irq_remap (m\<lparr>m_cpu := c'\<rparr>))\<lparr>m_cpu := c'\<lparr>idt := t'\<rparr>\<rparr>"] assms(3) f by auto
  have "boot_interrupts isr stub tss_addr gdt_addr idt_addr m = Inr m'"
    using m'(1) by (simp add: boot_interrupts_def tss(1) c_def [symmetric] r i)
  then show ?thesis using gates tss(2,3) assms(2) m'(2,3) c' by simp
qed

definition example_machine :: machine where
  "example_machine =
     \<lparr>m_cpu = \<lparr>idt = replicate 256 zero_gate, gdt = initial_gdt, idtr = (0, 0), gdtr = (0, 0), cs_sel = 0, ds_sel = 0,
               task_sel = 0\<rparr>,
      irq_routines = replicate 16 None, m_clock = boot_clock,
      m_kernel = (example_kernel example_threads 8 16 24)\<lparr>is_scheduler_on := True\<rparr>, m_keyboard = example_keyboard\<rparr>"

theorem boot_interrupts_tables_witness:
  "\<exists>m'. boot_interrupts (\<lambda>n. 0xFFFFFFFF80200000 + of_nat n) (\<lambda>n. 0xFFFFFFFF80201000 + of_nat n) 0xFFFFFFFF80300000
      0xFFFFFFFF80310000 0xFFFFFFFF80320000 example_machine = Inr m' \<and>
    gate_base (idt (m_cpu m') ! 33) = 0xFFFFFFFF80201001 \<and>
    descriptor_base (gdt (m_cpu m') ! 5) (gdt (m_cpu m') ! 6) = 0xFFFFFFFF80300000"
proof -
  have "length (idt (m_cpu example_machine)) = 256" "length (gdt (m_cpu example_machine)) = 32"
    "length (irq_routines example_machine) = 16"
    by (simp_all add: example_machine_def initial_gdt_def MAX_GDT_def)
  from boot_interrupts_tables [OF this, of "\<lambda>n. 0xFFFFFFFF80200000 + of_nat n" "\<lambda>n. 0xFFFFFFFF80201000 + of_nat n"
      "0xFFFFFFFF80300000" "0xFFFFFFFF80310000" "0xFFFFFFFF80320000"]
  obtain m' where m': "boot_interrupts (\<lambda>n. 0xFFFFFFFF80200000 + of_nat n) (\<lambda>n. 0xFFFFFFFF80201000 + of_nat n) 0xFFFFFFFF80300000
      0xFFFFFFFF80310000 0xFFFFFFFF80320000 example_machine = Inr m'"
    "gates_ok (\<lambda>n. 0xFFFFFFFF80200000 + of_nat n) (\<lambda>n. 0xFFFFFFFF80201000 + of_nat n) (idt (m_cpu m'))"
    "descriptor_base (gdt (m_cpu m') ! 5) (gdt (m_cpu m') ! 6) = 0xFFFFFFFF80300000" by blast
  from m'(2) have "gate_base (idt (m_cpu m') ! 33) = 0xFFFFFFFF80201001"
    unfolding gates_ok_def by (auto dest!: spec [of _ 33] simp: vector_stub_def)
  with m' show ?thesis by blast
qed

text \<open>Running the handler of entry \<open>k\<close> of the table and acknowledging the interrupt at both controllers.\<close>

definition run_entry :: "nat \<Rightarrow> u8 \<times> u8 \<Rightarrow> machine \<Rightarrow> machine res" where
  "run_entry k ports m =
     rbind (case irq_routines m ! k of Some h \<Rightarrow> call_routine h ports m | None \<Rightarrow> Inr m)
       (\<lambda>m. Inr (m_outb 0x20 0x20 (m_outb 0xA0 0x20 m)))"

lemma irq_handler_entry:
  assumes "length (irq_routines m) = 16" and "k < 32"
  shows "irq_handler ports (of_nat (0x32 + k)) m = (if k < 16 then run_entry k ports m else Inl OutOfBounds)"
proof -
  have "(of_nat (0x32 + k) :: u64) - 0x32 = of_nat k" by simp
  moreover have "uint (of_nat k :: u64) = int k" using assms(2) by (simp add: uint_nat unat_of_nat)
  moreover have "(40 :: u64) \<le> of_nat (0x32 + k)" using assms(2) by (simp add: word_le_nat_alt unat_of_nat del: of_nat_add)
  ultimately have "irq_handler ports (of_nat (0x32 + k)) m =
      rbind (arr_get (irq_routines m) (int k)) (\<lambda>h. rbind (case h of Some h \<Rightarrow> call_routine h ports m | None \<Rightarrow> Inr m)
        (\<lambda>m. Inr (m_outb 0x20 0x20 (m_outb 0xA0 0x20 m))))"
    unfolding irq_handler_def by (simp only: if_True Let_def)
  then show ?thesis using assms(1) by (simp add: arr_get_def run_entry_def)
qed

text \<open>
  C40. The stubs push decimal-looking numbers, 0x32 to 0x39 for the lines 0 to 7 but 0x40 to 0x46 for the lines 8 to 14, of
  which the handler subtracts 0x32: the lines 10 to 14 index behind the table of handlers, and 8, 9 and 15 call the handlers
  of the lines 14, 15 and 4.
\<close>

theorem irq_lines:
  assumes "length (irq_routines m) = 16" and "n < 16"
  shows "irq_handler ports (irq_stub_no n) m =
    (if n < 8 then run_entry n ports m
     else if n < 10 then run_entry (n + 6) ports m
     else if n < 15 then Inl OutOfBounds
     else run_entry 4 ports m)"
proof -
  consider "n < 8" | "8 \<le> n" "n < 15" | "n = 15" using assms(2) by linarith
  then show ?thesis
  proof cases
    case 1
    then show ?thesis using irq_handler_entry [OF assms(1), of n] by (simp add: irq_stub_no_def)
  next
    case 2
    then have "irq_stub_no n = of_nat (0x32 + (n + 6))" by (simp add: irq_stub_no_def)
    then show ?thesis using 2 irq_handler_entry [OF assms(1), of "n + 6"] by simp
  next
    case 3
    then show ?thesis using irq_handler_entry [OF assms(1), of 4] by (simp add: irq_stub_no_def)
  qed
qed

theorem irq_lines_witness: "irq_handler (0, 0) (irq_stub_no 12) example_machine = Inl OutOfBounds"
  using irq_lines [of example_machine 12] by (simp add: example_machine_def)

end
