(* ===== verification/Preemption.thy ===== *)
theory Preemption
  imports Interrupts
begin

text \<open>
  What timer and keyboard interrupts do together: they never fault and keep the machine well formed, and with the
  scheduler on the timer interrupts share the processor among all ready threads.
\<close>

section \<open>The context switch\<close>

text \<open>What a switch leaves alone of the threads.\<close>

definition same_sleepers :: "kernel_state \<Rightarrow> kernel_state \<Rightarrow> bool" where
  "same_sleepers s s' \<longleftrightarrow>
     (\<forall>p. sleeping (threads s' p) = sleeping (threads s p) \<and> alive (threads s' p) = alive (threads s p)) \<and>
     is_scheduler_on s' = is_scheduler_on s"

lemma same_sleepers_trans: "same_sleepers r s \<Longrightarrow> same_sleepers s t \<Longrightarrow> same_sleepers r t"
  by (simp add: same_sleepers_def)

lemma same_sleepers_ready: "same_sleepers s s' \<Longrightarrow> ready (threads s' p) = ready (threads s p)"
  by (simp add: same_sleepers_def ready_def)

lemma same_but_run_sleepers: "same_but_run s s' \<Longrightarrow> same_sleepers s s' \<and> currentThread s' = currentThread s"
  by (elim same_but_runE) (simp add: same_sleepers_def)

lemma context_switch_queue:
  assumes q: "run_queue s xs" and c: "currentThread s = c" "c \<noteq> 0" "c \<notin> set xs"
    and p: "find (\<lambda>q. ready (threads s q)) (xs @ [c]) = Some p"
  shows "\<exists>s' sp. context_switch frame s = Inr (s', sp) \<and> currentThread s' = p \<and> run_queue s' (remove1 p (xs @ [c])) \<and>
    same_sleepers s s'"
proof -
  define s1 where "s1 = s\<lparr>threads := (threads s)(c := if kernel_thread (threads s c) = 0 then (threads s c)\<lparr>krsp := frame\<rparr>
    else (threads s c)\<lparr>rsp := frame\<rparr>)\<rparr>"
  have "run_queue s1 = run_queue s" by (rule run_queue_cong) (simp_all add: s1_def link_defs fun_eq_iff)
  then have s1: "same_sleepers s s1" "currentThread s1 = c" "run_queue s1 xs"
    using q c(1) by (simp_all add: s1_def same_sleepers_def)
  obtain s2 where s2: "append_run_queue c s1 = Inr s2" "run_queue s2 (xs @ [c])"
    using rq.append_queue [OF s1(3) [unfolded run_queue_def] c(2,3)] by (auto simp: run_queue_def)
  have f2: "same_sleepers s s2"
    using same_but_run_sleepers [OF append_run_queue_frame [OF s2(1)]] same_sleepers_trans [OF s1(1)] by blast
  have "find (\<lambda>q. ready (threads s2 q)) (xs @ [c]) = Some p" using p same_sleepers_ready [OF f2] by simp
  then obtain s3 where s3: "next_runnable_kthread s2 = Inr (s3, p)" "run_queue s3 (remove1 p (xs @ [c]))" "same_but_run s2 s3"
    using next_runnable_queue [OF s2(2)] by blast
  have f3: "same_sleepers s s3" using same_but_run_sleepers [OF s3(3)] same_sleepers_trans [OF f2] by blast
  have p0: "p \<noteq> 0" using find_member [OF p] q c(2) by (auto simp: run_queue_def dlq_def)
  define s4 where "s4 = (if kernel_thread (threads s3 p) = 0 then s3\<lparr>tss_rsp0 := kstack (threads s3 p)\<rparr> else s3)
    \<lparr>currentThread := p, kheap := (kheap s3)\<lparr>vm := (vm (kheap s3))\<lparr>cr3 := pcr3 (threads s3 p)\<rparr>\<rparr>\<rparr>"
  have "run_queue s4 = run_queue s3" by (rule run_queue_cong) (simp_all add: s4_def link_defs fun_eq_iff)
  moreover have "same_sleepers s s4" using f3 by (simp add: same_sleepers_def s4_def)
  moreover have "\<exists>sp. context_switch frame s = Inr (s4, sp)"
    using c s2(1) s3(1) p0 s1(2)
    by (auto simp: context_switch_def get_thread_def upd_thread_def runnable_kthread_def s1_def s4_def Let_def)
  ultimately show ?thesis using s3(2) by (auto simp: s4_def)
qed

text \<open>A thread of the queue never moves backwards.\<close>

lemma remove1_position:
  assumes "distinct (xs @ [c])" and "i < length xs" and "p \<noteq> xs ! i"
  shows "\<exists>j\<le>i. j < length (remove1 p (xs @ [c])) \<and> remove1 p (xs @ [c]) ! j = xs ! i"
  using assms
proof (induction xs arbitrary: i)
  case (Cons x xs)
  show ?case
  proof (cases i)
    case 0
    then show ?thesis using Cons.prems(3) by auto
  next
    case (Suc k)
    show ?thesis
    proof (cases "p = x")
      case True
      then show ?thesis using Suc Cons.prems(2) by (intro exI [of _ k]) (simp add: nth_append)
    next
      case False
      obtain j where "j \<le> k" "j < length (remove1 p (xs @ [c]))" "remove1 p (xs @ [c]) ! j = xs ! k"
        using Cons.IH [of k] Cons.prems Suc by auto
      then show ?thesis using False Suc by (intro exI [of _ "Suc j"]) auto
    qed
  qed
qed simp

section \<open>Interrupts\<close>

text \<open>
  What the hardware does: a timer tick, which finds the stack pointer of the interrupted thread at some value, or an
  interrupt of the keyboard with the values of its status and data registers.
\<close>

datatype hw_event = Tick u64 | Key u8 u8

fun deliver :: "hw_event \<Rightarrow> machine \<Rightarrow> machine res" where
  "deliver (Tick frame) m = irq (0, 0) frame 0 m"
| "deliver (Key status code) m = irq (status, code) 0 1 m"

definition machine_inv :: "machine \<Rightarrow> u64 list \<Rightarrow> bool" where
  "machine_inv m xs \<longleftrightarrow>
     length (irq_routines m) = 16 \<and> irq_routines m ! 0 = Some Timer_routine \<and> irq_routines m ! 1 = Some Keyboard_routine \<and>
     run_queue (m_kernel m) xs \<and> currentThread (m_kernel m) \<noteq> 0 \<and> currentThread (m_kernel m) \<notin> set xs \<and>
     is_scheduler_on (m_kernel m) \<and> (\<exists>q\<in>set (xs @ [currentThread (m_kernel m)]). ready (threads (m_kernel m) q)) \<and>
     console_inv (kb_console (m_keyboard m)) \<and> clock_ok (m_clock m)"

fun event_ok :: "hw_event \<Rightarrow> bool" where
  "event_ok (Tick frame) = True"
| "event_ok (Key status code) = (unat code < 83)"

lemma m_outb_simps [simp]:
  "irq_routines (m_outb p v m) = irq_routines m" "m_kernel (m_outb p v m) = m_kernel m" "m_clock (m_outb p v m) = m_clock m"
  "m_cpu (m_outb p v m) = m_cpu m"
  "console_inv (kb_console (m_keyboard (m_outb p v m))) = console_inv (kb_console (m_keyboard m))"
  "kb_line (m_keyboard (m_outb p v m)) = kb_line (m_keyboard m)"
  by (simp_all add: m_outb_def outb_def Let_def console_inv_def)

lemma irq_entry:
  assumes "length (irq_routines m) = 16" and "n < 8"
  shows "irq ports frame n m = rbind (run_entry n ports m) (\<lambda>m.
    if n = 0 \<and> is_scheduler_on (m_kernel m)
    then rbind (context_switch frame (m_kernel m)) (\<lambda>(s, _). Inr (m\<lparr>m_kernel := s\<rparr>)) else Inr m)"
proof -
  have "irq_stub_no n = of_nat (0x32 + n)" using assms(2) by (simp add: irq_stub_no_def)
  moreover have "(of_nat (0x32 + n) :: u64) = 0x32 \<longleftrightarrow> n = 0"
  proof -
    have "unat (of_nat (0x32 + n) :: u64) = 0x32 + n" using assms(2) by (subst unat_of_nat) simp
    then show ?thesis by (auto simp: word_unat_eq_iff simp del: of_nat_add)
  qed
  ultimately show ?thesis using irq_handler_entry [OF assms(1), of n ports] assms(2)
    by (simp add: irq_def irq_common_stub_def)
qed

lemma key_event:
  assumes "machine_inv m xs" and "unat code < 83" and "line_room (Suc n) (kb_line (m_keyboard m))"
  shows "\<exists>k. console_inv (kb_console k) \<and> line_room n (kb_line k) \<and> deliver (Key status code) m =
    Inr (m_outb 0x20 0x20 (m_outb 0xA0 0x20 (m\<lparr>m_keyboard := k\<rparr>)))"
proof -
  have c: "console_inv (kb_console (m_keyboard m))" using assms(1) by (simp add: machine_inv_def)
  have "\<exists>k. keyboard_handler status code (m_keyboard m) = Inr k \<and> console_inv (kb_console k) \<and> line_room n (kb_line k)"
  proof (cases "status AND KYBRD_CTRL_STATS_MASK_OUT_BUF = 0")
    case True
    then show ?thesis using c line_room_mono [OF assms(3), of n] assms(2) by (simp add: keyboard_handler_def scan_code_get)
  next
    case False
    then show ?thesis using keyboard_handler_follows [OF c assms(2,3)] by (metis keyboard_follows_def)
  qed
  then show ?thesis using assms(1) by (auto simp: irq_entry machine_inv_def run_entry_def)
qed

lemma ready_slept: "ready t \<Longrightarrow> ready ((tick_thread ^^ k) t)"
  by (simp add: ready_def slept_links sleeping_slept)

lemma tick_event:
  assumes inv: "machine_inv m xs" and c: "c = currentThread (m_kernel m)" and e: "e = elapsed (unat (total_ticks (m_clock m))) 1"
  obtains m' p where "deliver (Tick frame) m = Inr m'" and "machine_inv m' (remove1 p (xs @ [c]))"
    and "currentThread (m_kernel m') = p" and "total_ticks (m_clock m') = total_ticks (m_clock m) + 1"
    and "find (\<lambda>q. ready (threads (m_kernel m') q)) (xs @ [c]) = Some p"
    and "\<And>q. sleeping (threads (m_kernel m') q) = sleeping (threads (slept xs e (m_kernel m)) q)"
    and "\<And>q. alive (threads (m_kernel m') q) = alive (threads (m_kernel m) q)"
    and "kb_line (m_keyboard m') = kb_line (m_keyboard m)"
proof -
  let ?s = "m_kernel m" and ?con = "kb_console (m_keyboard m)"
  have i: "run_queue ?s xs" "c \<noteq> 0" "c \<notin> set xs" "is_scheduler_on ?s" "console_inv ?con" "clock_ok (m_clock m)"
    "length (irq_routines m) = 16" "irq_routines m ! 0 = Some Timer_routine"
    using inv by (simp_all add: machine_inv_def c)
  obtain ck con where t: "timer_handler (m_clock m, ?s, ?con) = Inr (ck, slept xs e ?s, con)"
    "total_ticks ck = total_ticks (m_clock m) + 1" "clock_ok ck"
    "con = (if e = 0 then ?con else ?con\<lparr>screen := take 3984 (screen ?con) @ shown ck\<rparr>)"
    using timer_ticks [of ?s xs ?con "m_clock m" e 1] i e c by (auto simp: console_inv_def)
  have con: "console_inv con" using i(5) by (simp add: t(4) console_inv_def length_shown)
  let ?t = "slept xs e ?s"
  obtain q where "q \<in> set (xs @ [c])" "ready (threads ?s q)" using inv by (auto simp: machine_inv_def c)
  then have "ready (threads ?t q)" by (simp add: slept_def ready_slept)
  then obtain p where p: "find (\<lambda>q. ready (threads ?t q)) (xs @ [c]) = Some p"
    using \<open>q \<in> set (xs @ [c])\<close> by (metis find_None_iff2 not_None_eq)
  obtain s' sp where s': "context_switch frame ?t = Inr (s', sp)" "currentThread s' = p" "run_queue s' (remove1 p (xs @ [c]))"
    "same_sleepers ?t s'" using context_switch_queue [of ?t xs c p frame] i p c by auto
  have f: "find (\<lambda>q. ready (threads s' q)) (xs @ [c]) = Some p" using p same_sleepers_ready [OF s'(4)] by simp
  define m' where "m' = (m_outb 0x20 0x20 (m_outb 0xA0 0x20 (m\<lparr>m_clock := ck, m_kernel := ?t,
    m_keyboard := (m_keyboard m)\<lparr>kb_console := con\<rparr>\<rparr>)))\<lparr>m_kernel := s'\<rparr>"
  have d: "distinct (xs @ [c])" "0 \<notin> set (xs @ [c])" using i(1-3) by (auto simp: run_queue_def dlq_def)
  have sch: "is_scheduler_on s'" using s'(4) i(4) by (simp add: same_sleepers_def slept_def)
  have "p \<noteq> 0" "p \<notin> set (remove1 p (xs @ [c]))" "ready (threads s' p)" using d find_member [OF f] by auto
  then have "machine_inv m' (remove1 p (xs @ [c]))"
    using inv s'(2,3) con t(3) sch by (auto simp: machine_inv_def m'_def)
  moreover have "deliver (Tick frame) m = Inr m'"
    using i t(1) s'(1) by (simp add: irq_entry run_entry_def slept_def [of xs e ?s] m'_def)
  moreover have "\<And>q. sleeping (threads s' q) = sleeping (threads ?t q)" "\<And>q. alive (threads s' q) = alive (threads ?s q)"
    using s'(4) by (simp_all add: same_sleepers_def slept_def slept_links)
  ultimately show thesis using s'(2) f t(2) by (intro that [of m' p]) (simp_all add: m'_def)
qed

lemma key_event_inv:
  assumes "machine_inv m xs" and "unat code < 83" and "line_room (Suc n) (kb_line (m_keyboard m))"
  obtains m' where "deliver (Key status code) m = Inr m'" and "machine_inv m' xs" and "m_kernel m' = m_kernel m"
    and "m_clock m' = m_clock m" and "line_room n (kb_line (m_keyboard m'))"
proof -
  obtain k where k: "console_inv (kb_console k)" "line_room n (kb_line k)"
    "deliver (Key status code) m = Inr (m_outb 0x20 0x20 (m_outb 0xA0 0x20 (m\<lparr>m_keyboard := k\<rparr>)))"
    using key_event [OF assms] by blast
  show thesis
  proof (rule that [OF k(3)])
    show "machine_inv (m_outb 0x20 0x20 (m_outb 0xA0 0x20 (m\<lparr>m_keyboard := k\<rparr>))) xs"
      using assms(1) k(1) by (simp add: machine_inv_def)
  qed (use k(2) in simp_all)
qed

lemma elapsed_mod: "elapsed (t mod 65536) n = elapsed t n"
proof (induction n)
  case (Suc n)
  have "(t mod 65536 + Suc n) mod 65536 = (t + Suc n) mod 65536" by (rule mod_add_left_eq)
  then show ?case using Suc by (simp only: elapsed.simps)
qed simp

fun ticks :: "hw_event list \<Rightarrow> nat" where
  "ticks [] = 0"
| "ticks (Tick frame # es) = Suc (ticks es)"
| "ticks (Key status code # es) = ticks es"

definition keys :: "hw_event list \<Rightarrow> nat" where
  "keys es = length es - ticks es"

lemma keys_simps [simp]:
  "keys [] = 0" "keys (Tick frame # es) = keys es" "keys (Key status code # es) = Suc (keys es)"
proof -
  have "ticks es \<le> length es" by (induction es rule: ticks.induct) simp_all
  then show "keys [] = 0" "keys (Tick frame # es) = keys es" "keys (Key status code # es) = Suc (keys es)"
    by (simp_all add: keys_def)
qed

lemma thread_runs:
  assumes "machine_inv m xs" and "i < length xs" and "alive (threads (m_kernel m) (xs ! i))"
    and "0 \<le> sleeping (threads (m_kernel m) (xs ! i))"
    and "sleeping (threads (m_kernel m) (xs ! i)) \<le> int (elapsed (unat (total_ticks (m_clock m))) a)"
    and "\<forall>e\<in>set es. event_ok e" and "a + i < ticks es" and "line_room (keys es) (kb_line (m_keyboard m))"
  shows "\<exists>n m'. rfold deliver (take n es) m = Inr m' \<and> currentThread (m_kernel m') = xs ! i"
  using assms
proof (induction es arbitrary: m xs i a rule: ticks.induct)
  case (2 frame es)
  define t c where "t = unat (total_ticks (m_clock m))" and "c = currentThread (m_kernel m)"
  obtain m' p where m': "deliver (Tick frame) m = Inr m'" "machine_inv m' (remove1 p (xs @ [c]))"
    "currentThread (m_kernel m') = p" "total_ticks (m_clock m') = total_ticks (m_clock m) + 1"
    and f: "find (\<lambda>q. ready (threads (m_kernel m') q)) (xs @ [c]) = Some p"
    and sl: "\<And>q. sleeping (threads (m_kernel m') q) = sleeping (threads (slept xs (elapsed t 1) (m_kernel m)) q)"
    and al: "\<And>q. alive (threads (m_kernel m') q) = alive (threads (m_kernel m) q)"
    and li: "kb_line (m_keyboard m') = kb_line (m_keyboard m)"
    using tick_event [OF "2.prems"(1) c_def t_def [THEN arg_cong, of "\<lambda>t. elapsed t 1"]] by metis
  let ?q = "xs ! i" and ?ys = "remove1 p (xs @ [c])"
  have t': "elapsed (unat (total_ticks (m_clock m'))) n = elapsed (Suc t) n" for n
    using elapsed_mod [of "Suc t"] by (simp add: m'(4) unat_inc t_def)
  have s': "sleeping (threads (m_kernel m') ?q) = max 0 (sleeping (threads (m_kernel m) ?q) - int (elapsed t 1))"
    using sl "2.prems"(2,4) by (simp add: slept_def sleeping_slept)
  have d: "distinct (xs @ [c])" using "2.prems"(1) by (auto simp: machine_inv_def run_queue_def dlq_def c_def)
  show ?case
  proof (cases "p = ?q")
    case True
    then show ?thesis using m' by (intro exI [of _ 1]) simp
  next
    case False
    have "\<exists>j b. j < length ?ys \<and> ?ys ! j = ?q \<and> b + j < ticks es \<and> sleeping (threads (m_kernel m') ?q) \<le> int (elapsed (Suc t) b)"
    proof (cases a)
      case 0
      then have "ready (threads (m_kernel m') ?q)"
        using s' al "2.prems"(3-5) by (simp add: ready_def)
      then have "0 < i" "i - 1 < length ?ys" "?ys ! (i - 1) = ?q"
        using find_before [OF d f, of i] "2.prems"(2) False by (simp_all add: nth_append)
      moreover have "sleeping (threads (m_kernel m') ?q) \<le> 0" using s' 0 "2.prems"(4,5) by simp
      ultimately show ?thesis using "2.prems"(7) by (intro exI [of _ "i - 1"] exI [of _ 0]) simp
    next
      case (Suc b)
      obtain j where "j \<le> i" "j < length ?ys" "?ys ! j = ?q" using remove1_position [OF d "2.prems"(2) False] by blast
      moreover have "elapsed t a = elapsed t 1 + elapsed (Suc t) b" using elapsed_add [of t 1 b] Suc by simp
      ultimately show ?thesis using Suc s' "2.prems"(5,7) by (intro exI [of _ j] exI [of _ b]) (simp add: t_def)
    qed
    then obtain j b where j: "j < length ?ys" "?ys ! j = ?q" "b + j < ticks es"
      "sleeping (threads (m_kernel m') ?q) \<le> int (elapsed (Suc t) b)" by blast
    have "\<exists>n m''. rfold deliver (take n es) m' = Inr m'' \<and> currentThread (m_kernel m'') = ?ys ! j"
      by (rule "2.IH" [OF m'(2) j(1), of b]) (use j t' s' al li "2.prems" in simp_all)
    then obtain n m'' where "rfold deliver (take n es) m' = Inr m''" "currentThread (m_kernel m'') = ?q" using j(2) by auto
    then show ?thesis using m'(1) by (intro exI [of _ "Suc n"]) simp
  qed
next
  case (3 status code es)
  have "unat code < 83" "line_room (Suc (keys es)) (kb_line (m_keyboard m))" using "3.prems"(6,8) by simp_all
  then obtain m' where m': "deliver (Key status code) m = Inr m'" "machine_inv m' xs" "m_kernel m' = m_kernel m"
    "m_clock m' = m_clock m" "line_room (keys es) (kb_line (m_keyboard m'))" using key_event_inv [OF "3.prems"(1)] by metis
  then obtain n m'' where "rfold deliver (take n es) m' = Inr m''" "currentThread (m_kernel m'') = xs ! i"
    using "3.IH" [of m' xs i a] "3.prems" by auto
  then show ?case using m'(1) by (intro exI [of _ "Suc n"]) simp
qed simp

section \<open>Properties\<close>

text \<open>
  C7. Every thread gets the processor: in a well-formed machine with the scheduler on, a living thread at position \<open>i\<close> of the
  run queue that sleeps for at most \<open>k\<close> seconds becomes the current thread within any sequence of timer interrupts and pressed
  keys that has more than \<open>100 * k + i\<close> timer interrupts, without any thread giving way by itself. The keys are those of the
  table, and a line that is being read has room for all of them. Released keys are not among the events: the handler faults on
  their codes.
\<close>

theorem preemption_no_starvation:
  assumes "machine_inv m xs" and "i < length xs" and "alive (threads (m_kernel m) (xs ! i))"
    and "0 \<le> sleeping (threads (m_kernel m) (xs ! i))" and "sleeping (threads (m_kernel m) (xs ! i)) \<le> int k"
    and "\<forall>e\<in>set es. event_ok e" and "100 * k + i < ticks es" and "line_room (keys es) (kb_line (m_keyboard m))"
  shows "\<exists>n m'. rfold deliver (take n es) m = Inr m' \<and> currentThread (m_kernel m') = xs ! i"
proof (rule thread_runs [OF assms(1-4) _ assms(6-8)])
  show "sleeping (threads (m_kernel m) (xs ! i)) \<le> int (elapsed (unat (total_ticks (m_clock m))) (100 * k))"
    using assms(5) elapsed_100s [of k "unat (total_ticks (m_clock m))"] by linarith
qed

definition running_machine :: machine where
  "running_machine = example_machine\<lparr>irq_routines := [Some Timer_routine, Some Keyboard_routine] @ replicate 14 None\<rparr>"

lemma running_machine_inv: "machine_inv running_machine [8, 16]"
proof -
  have "run_queue ((example_kernel example_threads 8 16 24)\<lparr>is_scheduler_on := True\<rparr>) =
      run_queue (example_kernel example_threads 8 16 24)"
    by (rule run_queue_cong) (simp_all add: link_defs fun_eq_iff)
  then show ?thesis using example_queue example_keyboard_inv
    by (simp add: machine_inv_def running_machine_def example_machine_def)
      (simp add: example_kernel_def example_threads_def example_thread_def ready_def)
qed

lemma running_machine_room: "n \<le> 1024 \<Longrightarrow> line_room n (kb_line (m_keyboard running_machine))"
  by (simp add: line_room_def running_machine_def example_machine_def example_keyboard_def)

theorem preemption_no_starvation_witness:
  "\<exists>n m'. rfold deliver (take n (Key 1 0x1E # replicate 301 (Tick 0x5000))) running_machine = Inr m' \<and>
    currentThread (m_kernel m') = 8"
proof -
  have "ticks (replicate n (Tick 0x5000)) = n" for n by (induction n) simp_all
  moreover from this have "keys (replicate n (Tick 0x5000)) = 0" for n by (simp add: keys_def)
  ultimately show ?thesis using running_machine_room [of 1] preemption_no_starvation [OF running_machine_inv, of 0 3 "Key 1 0x1E # replicate 301 (Tick 0x5000)"]
    by (simp add: running_machine_def example_machine_def example_kernel_def example_threads_def example_thread_def)
qed

text \<open>
  C8. Whatever sequence of timer interrupts and of pressed keys of the table arrives, as long as a line that is being read has
  room for all the keys, every interrupt is handled without a fault, the machine stays well formed, every tick is counted, and
  no thread is lost: the current thread and the run queue together are the same threads as before.
\<close>

theorem interrupts_invariant:
  assumes "machine_inv m xs" and "\<forall>e\<in>set es. event_ok e" and "line_room (keys es) (kb_line (m_keyboard m))"
  shows "\<exists>m' xs'. rfold deliver es m = Inr m' \<and> machine_inv m' xs' \<and>
    set (currentThread (m_kernel m') # xs') = set (currentThread (m_kernel m) # xs) \<and>
    total_ticks (m_clock m') = total_ticks (m_clock m) + of_nat (ticks es)"
  using assms
proof (induction es arbitrary: m xs rule: ticks.induct)
  case (2 frame es)
  define c where "c = currentThread (m_kernel m)"
  obtain m1 p where m1: "deliver (Tick frame) m = Inr m1" "machine_inv m1 (remove1 p (xs @ [c]))"
    "currentThread (m_kernel m1) = p" "total_ticks (m_clock m1) = total_ticks (m_clock m) + 1"
    and f: "find (\<lambda>q. ready (threads (m_kernel m1) q)) (xs @ [c]) = Some p"
    and li: "kb_line (m_keyboard m1) = kb_line (m_keyboard m)"
    using tick_event [OF "2.prems"(1) c_def refl] by metis
  have "distinct (xs @ [c])" using "2.prems"(1) by (auto simp: machine_inv_def run_queue_def dlq_def c_def)
  then have "set (p # remove1 p (xs @ [c])) = set (c # xs)" using find_member [OF f] by auto
  then show ?case using "2.IH" [OF m1(2)] "2.prems"(2,3) m1 li by (auto simp: c_def)
next
  case (3 status code es)
  have "unat code < 83" "line_room (Suc (keys es)) (kb_line (m_keyboard m))" using "3.prems"(2,3) by simp_all
  then obtain m1 where m1: "deliver (Key status code) m = Inr m1" "machine_inv m1 xs" "m_kernel m1 = m_kernel m"
    "m_clock m1 = m_clock m" "line_room (keys es) (kb_line (m_keyboard m1))" using key_event_inv [OF "3.prems"(1)] by metis
  then show ?case using "3.IH" [OF m1(2)] "3.prems"(2) m1(5) by (auto simp del: deliver.simps)
qed auto

theorem interrupts_invariant_witness:
  "\<exists>m' xs'. rfold deliver [Tick 0x5000, Key 1 0x1E, Tick 0x6000] running_machine = Inr m' \<and> machine_inv m' xs' \<and>
    set (currentThread (m_kernel m') # xs') = {8, 16, 24} \<and> total_ticks (m_clock m') = 2"
proof -
  have m: "currentThread (m_kernel running_machine) = 24" "total_ticks (m_clock running_machine) = 0"
    by (simp_all add: running_machine_def example_machine_def example_kernel_def boot_clock_def)
  let ?es = "[Tick 0x5000, Key 1 0x1E, Tick 0x6000]"
  have es: "\<forall>e\<in>set ?es. event_ok e" "ticks ?es = 2" by simp_all
  have "set (24 # [8, 16]) = {8, 16, 24 :: u64}" by auto
  with interrupts_invariant [OF running_machine_inv es(1)] running_machine_room [of "keys ?es"] show ?thesis unfolding m es(2) by simp
qed

end
