(* ===== verification/Fs_Alloc.thy ===== *)
theory Fs_Alloc
  imports Bitmap Alloc_Contract
begin

text \<open>
  The allocator of disk blocks, \<open>sys/fs_mmgr.c\<close>: the third copy of the bitmap code, over an array of
  1100 words for 65536 blocks. \<open>file_mmgr_alloc_block\<close> returns the block number itself and \<open>-1\<close> for
  none, while \<open>file_mmgr_free_block\<close> takes a byte address and divides it by 4096.
\<close>

section \<open>State and operations\<close>

record file_mmgr_state =
  file_mmgr_used_blocks :: u64
  file_mmgr_max_blocks :: u64
  file_mmgr_memory_map :: "u64 list"

definition file_mmgr_boot :: file_mmgr_state where
  "file_mmgr_boot =
     \<lparr>file_mmgr_used_blocks = 0, file_mmgr_max_blocks = 65536,
      file_mmgr_memory_map = replicate 1100 0\<rparr>"

definition file_mmgr_get_total_blocks :: "file_mmgr_state \<Rightarrow> u64" where
  "file_mmgr_get_total_blocks s = file_mmgr_max_blocks s"

definition file_mmgr_get_used_blocks :: "file_mmgr_state \<Rightarrow> u64" where
  "file_mmgr_get_used_blocks s = file_mmgr_used_blocks s"

definition file_mmgr_get_total_usable_blocks :: "file_mmgr_state \<Rightarrow> u64" where
  "file_mmgr_get_total_usable_blocks s =
     file_mmgr_get_total_blocks s - file_mmgr_get_used_blocks s"

definition file_mmgr_set_block :: "int \<Rightarrow> file_mmgr_state \<Rightarrow> file_mmgr_state res" where
  "file_mmgr_set_block n s =
     rbind (bm_set_block (file_mmgr_memory_map s) n) (\<lambda>m. Inr (s\<lparr>file_mmgr_memory_map := m\<rparr>))"

definition file_mmgr_is_block_free :: "int \<Rightarrow> file_mmgr_state \<Rightarrow> u32 res" where
  "file_mmgr_is_block_free n s = bm_is_block_free (file_mmgr_memory_map s) n"

definition file_mmgr_unset_block :: "int \<Rightarrow> file_mmgr_state \<Rightarrow> file_mmgr_state res" where
  "file_mmgr_unset_block n s =
     rbind (bm_unset_block (file_mmgr_memory_map s) n) (\<lambda>m. Inr (s\<lparr>file_mmgr_memory_map := m\<rparr>))"

definition file_mmgr_get_first_free :: "file_mmgr_state \<Rightarrow> int res" where
  "file_mmgr_get_first_free s =
     bm_get_first_free (file_mmgr_memory_map s) (file_mmgr_get_total_blocks s)"

definition file_mmgr_get_first_range_free :: "int \<Rightarrow> file_mmgr_state \<Rightarrow> int res" where
  "file_mmgr_get_first_range_free sz s =
     bm_get_first_range_free (file_mmgr_memory_map s) (file_mmgr_get_total_blocks s) sz"

definition file_mmgr_alloc_block :: "file_mmgr_state \<Rightarrow> (file_mmgr_state \<times> int) res" where
  "file_mmgr_alloc_block s =
     (if file_mmgr_get_total_usable_blocks s \<le> 0 then Inr (s, -1)
      else rbind (file_mmgr_get_first_free s) (\<lambda>r.
        let page_frame = u64_of_int r in
        if page_frame = -1 then Inr (s, -1)
        else rbind (file_mmgr_set_block (int_of_u64 page_frame) s) (\<lambda>s.
          Inr (s\<lparr>file_mmgr_used_blocks := file_mmgr_used_blocks s + 1\<rparr>, int_of_u64 page_frame))))"

definition file_mmgr_alloc_size_blocks :: "int \<Rightarrow> file_mmgr_state \<Rightarrow> (file_mmgr_state \<times> u64) res" where
  "file_mmgr_alloc_size_blocks sz s =
     (if file_mmgr_get_total_usable_blocks s \<le> u64_of_int sz then Inr (s, 0)
      else rbind (file_mmgr_get_first_range_free sz s) (\<lambda>r.
        let page_frame = u64_of_int r in
        if page_frame = -1 then Inr (s, 0)
        else rbind (rfold (\<lambda>i. file_mmgr_set_block (int_of_u64 (page_frame + of_nat i))) [0..<nat sz] s)
          (\<lambda>s. Inr (s\<lparr>file_mmgr_used_blocks := file_mmgr_used_blocks s + u64_of_int sz\<rparr>,
                     page_frame * 4096))))"

definition file_mmgr_free_block :: "u64 \<Rightarrow> file_mmgr_state \<Rightarrow> file_mmgr_state res" where
  "file_mmgr_free_block p s =
     (let page_frame = int_of_u64 (p div 4096) in
      if p = 0 then Inr s
      else rbind (file_mmgr_unset_block page_frame s) (\<lambda>s.
        Inr (s\<lparr>file_mmgr_used_blocks := file_mmgr_used_blocks s - 1\<rparr>)))"

definition file_mmgr_free_size_blocks :: "u64 \<Rightarrow> int \<Rightarrow> file_mmgr_state \<Rightarrow> file_mmgr_state res" where
  "file_mmgr_free_size_blocks p sz s =
     (let page_frame = int_of_u64 (p div 4096) in
      if p = 0 then Inr s
      else rbind (rfold (\<lambda>i. file_mmgr_unset_block (page_frame + int i)) [0..<nat sz] s) (\<lambda>s.
        Inr (s\<lparr>file_mmgr_used_blocks := file_mmgr_used_blocks s - u64_of_int sz\<rparr>)))"

text \<open>The argument \<open>modulep\<close> is not used; \<open>sizeof\<close> the map is 8800 bytes.\<close>

definition file_mmgr_phy_init :: "file_mmgr_state \<Rightarrow> file_mmgr_state res" where
  "file_mmgr_phy_init s =
     rbind (memset_u64 (file_mmgr_memory_map s) 0 8800) (\<lambda>m. Inr (s\<lparr>file_mmgr_memory_map := m\<rparr>))"

section \<open>Handing out a block\<close>

definition file_mmgr_inv :: "file_mmgr_state \<Rightarrow> bool" where
  "file_mmgr_inv s \<longleftrightarrow>
     length (file_mmgr_memory_map s) = 1100 \<and> file_mmgr_max_blocks s = 65536 \<and>
     bm_used (file_mmgr_memory_map s) 0"

definition file_mmgr_used :: "file_mmgr_state \<Rightarrow> int \<Rightarrow> bool" where
  "file_mmgr_used s b \<longleftrightarrow> bm_used (file_mmgr_memory_map s) (nat b)"

definition file_mmgr_grant :: "nat \<Rightarrow> file_mmgr_state \<Rightarrow> file_mmgr_state" where
  "file_mmgr_grant b s =
     s\<lparr>file_mmgr_memory_map :=
         (file_mmgr_memory_map s)[b div 64 := file_mmgr_memory_map s ! (b div 64) OR shl1_u64 (int b)],
       file_mmgr_used_blocks := file_mmgr_used_blocks s + 1\<rparr>"

lemma file_mmgr_grant_simps [simp]:
  "length (file_mmgr_memory_map (file_mmgr_grant b s)) = length (file_mmgr_memory_map s)"
  "file_mmgr_max_blocks (file_mmgr_grant b s) = file_mmgr_max_blocks s"
  "file_mmgr_used_blocks (file_mmgr_grant b s) = file_mmgr_used_blocks s + 1"
  by (simp_all add: file_mmgr_grant_def)

lemma file_mmgr_grant_used:
  "b div 64 < length (file_mmgr_memory_map s) \<Longrightarrow>
     bm_used (file_mmgr_memory_map (file_mmgr_grant b s)) c \<longleftrightarrow>
       bm_used (file_mmgr_memory_map s) c \<or> same_slot b c"
  by (simp add: file_mmgr_grant_def bm_used_set)

lemma file_mmgr_set_block_Inr:
  "file_mmgr_set_block (int b) s = Inr s' \<longleftrightarrow>
     b div 64 < length (file_mmgr_memory_map s) \<and>
     s' = s\<lparr>file_mmgr_memory_map :=
       (file_mmgr_memory_map s)[b div 64 := file_mmgr_memory_map s ! (b div 64) OR shl1_u64 (int b)]\<rparr>"
  by (auto simp: file_mmgr_set_block_def rbind_eq_Inr_iff bm_set_block_Inr)

text \<open>
  Every call returns: the 1024 words the search looks at lie within the array. The result is the
  least free block, or \<open>-1\<close>.
\<close>

lemma file_mmgr_alloc_outcome:
  assumes "file_mmgr_inv s"
  shows "file_mmgr_alloc_block s = Inr (s, -1) \<or>
         (\<exists>b. file_mmgr_alloc_block s = Inr (file_mmgr_grant b s, int b) \<and>
              least_free (file_mmgr_memory_map s) (file_mmgr_max_blocks s) b)"
proof (cases "file_mmgr_get_total_usable_blocks s = 0")
  case False
  have inv: "length (file_mmgr_memory_map s) = 1100" "file_mmgr_max_blocks s = 65536"
    using assms by (auto simp: file_mmgr_inv_def)
  obtain r where r: "bm_get_first_free (file_mmgr_memory_map s) (file_mmgr_max_blocks s) = Inr r"
    using bm_get_first_free_total [of "file_mmgr_max_blocks s" "file_mmgr_memory_map s"] inv by auto
  moreover have "length (file_mmgr_memory_map s) \<le> 2 ^ 20" using inv by simp
  ultimately show ?thesis
  proof (cases rule: first_free_blockE)
    case full
    with False r show ?thesis
      by (simp add: file_mmgr_alloc_block_def file_mmgr_get_first_free_def file_mmgr_get_total_blocks_def)
  next
    case (block b)
    then have "file_mmgr_set_block (int b) s = Inr (s\<lparr>file_mmgr_memory_map :=
        (file_mmgr_memory_map s)[b div 64 := file_mmgr_memory_map s ! (b div 64) OR shl1_u64 (int b)]\<rparr>)"
      by (simp only: file_mmgr_set_block_Inr least_freeD simp_thms)
    with block False r show ?thesis
      by (auto simp: file_mmgr_alloc_block_def file_mmgr_get_first_free_def
          file_mmgr_get_total_blocks_def file_mmgr_grant_def)
  qed
qed (simp add: file_mmgr_alloc_block_def)

lemma file_mmgr_unset_block_Inr:
  "file_mmgr_unset_block (int b) s = Inr s' \<longleftrightarrow>
     b div 64 < length (file_mmgr_memory_map s) \<and>
     s' = s\<lparr>file_mmgr_memory_map := (file_mmgr_memory_map s)
              [b div 64 := file_mmgr_memory_map s ! (b div 64) AND NOT (shl1_u64 (int b))]\<rparr>"
  by (auto simp: file_mmgr_unset_block_def rbind_eq_Inr_iff bm_unset_block_Inr)

lemma file_mmgr_free_grant:
  assumes "file_mmgr_inv s" and "least_free (file_mmgr_memory_map s) (file_mmgr_max_blocks s) b"
  shows "file_mmgr_free_block (of_nat b * 4096) (file_mmgr_grant b s) = Inr s"
proof -
  note b = least_freeD [OF assms(2)]
  have "b \<noteq> 0" using assms(1) b(3) by (metis file_mmgr_inv_def)
  then have "(of_nat b * 4096 :: u64) \<noteq> 0" using b(2) by (simp add: block_addr_eq_0)
  moreover have "file_mmgr_unset_block (int b) (file_mmgr_grant b s) =
      Inr (s\<lparr>file_mmgr_used_blocks := file_mmgr_used_blocks s + 1\<rparr>)"
    using b bm_unset_set [OF b(1,3)] by (simp add: file_mmgr_unset_block_Inr file_mmgr_grant_def)
  ultimately show ?thesis
    using b(2) by (simp add: file_mmgr_free_block_def block_addr_div int_of_block)
qed

interpretation fs: reclaiming_allocator file_mmgr_alloc_block file_mmgr_used file_mmgr_inv
  "\<lambda>b. file_mmgr_free_block (word_of_int b * 4096)"
proof
  fix s s' p q
  assume inv: "file_mmgr_inv s" and a: "file_mmgr_alloc_block s = Inr (s', p)"
  have alloc_cases: "s' = s \<or> (\<exists>b. s' = file_mmgr_grant b s \<and> p = int b \<and>
      least_free (file_mmgr_memory_map s) (file_mmgr_max_blocks s) b)"
    using file_mmgr_alloc_outcome [OF inv] a by auto
  show "file_mmgr_inv s'" using alloc_cases inv
    by (auto simp: file_mmgr_inv_def file_mmgr_grant_used least_free_def)
  show "file_mmgr_used s' q" if "file_mmgr_used s q"
    using alloc_cases that by (auto simp: file_mmgr_used_def file_mmgr_grant_used least_free_def)
  show "\<not> file_mmgr_used s p" if "s' \<noteq> s"
    using alloc_cases that by (auto simp: file_mmgr_used_def least_free_def)
  show "file_mmgr_used s' p" if "s' \<noteq> s"
    using alloc_cases that by (auto simp: file_mmgr_used_def file_mmgr_grant_used least_free_def)
  show "file_mmgr_free_block (word_of_int p * 4096) s' = Inr s" if "s' \<noteq> s"
    using alloc_cases that file_mmgr_free_grant [OF inv] by auto
qed

interpretation fs: total_allocator file_mmgr_alloc_block file_mmgr_used file_mmgr_inv
  by unfold_locales (use file_mmgr_alloc_outcome in blast)

lemma file_mmgr_phy_init_zero:
  "length (file_mmgr_memory_map s) = 1100 \<Longrightarrow>
     file_mmgr_phy_init s = Inr (s\<lparr>file_mmgr_memory_map := replicate 1100 0\<rparr>)"
  by (simp add: file_mmgr_phy_init_def memset_u64_zero)

lemma file_mmgr_seq_bounds:
  assumes "file_mmgr_inv s" and "alloc_seq file_mmgr_alloc_block n s = Inr (t, bs)" and "b \<in> set bs"
  shows "0 < b \<and> b < 65536"
proof (rule fs.seq_all [where J = "\<lambda>_. True", OF _ assms(1) _ assms(2,3)])
  fix u u' q
  assume u: "file_mmgr_inv u" and a: "file_mmgr_alloc_block u = Inr (u', q)"
  have "0 < b \<and> b < 65536" if "least_free (file_mmgr_memory_map u) (file_mmgr_max_blocks u) b" for b
  proof -
    have "b div 64 < 1024" "\<not> bm_used (file_mmgr_memory_map u) b"
      using that u by (auto simp: least_free_def file_mmgr_inv_def)
    moreover have "bm_used (file_mmgr_memory_map u) 0" using u by (simp add: file_mmgr_inv_def)
    ultimately show ?thesis by (auto simp: div_less_iff_less_mult intro: gr0I)
  qed
  then show "True \<and> (u' \<noteq> u \<longrightarrow> 0 < q \<and> q < 65536)"
    using file_mmgr_alloc_outcome [OF u] a by fastforce
qed simp

section \<open>Properties\<close>

text \<open>The least free block is handed out, whenever there is one and the counter does not say otherwise.\<close>

lemma file_mmgr_alloc_least:
  assumes "file_mmgr_inv s" and "file_mmgr_used_blocks s \<noteq> 65536"
    and "least_free (file_mmgr_memory_map s) (file_mmgr_max_blocks s) b"
  shows "file_mmgr_alloc_block s = Inr (file_mmgr_grant b s, int b)"
proof -
  let ?m = "file_mmgr_memory_map s"
  have inv: "file_mmgr_max_blocks s = 65536" using assms(1) by (simp add: file_mmgr_inv_def)
  obtain r where r: "bm_get_first_free ?m (file_mmgr_max_blocks s) = Inr r" "r \<noteq> -1"
    using bm_scan_finds [of 0 b "unat (file_mmgr_max_blocks s div 64)" ?m] assms(3)
    by (auto simp: bm_get_first_free_def least_free_def)
  have "u64_of_int r \<noteq> -1"
    using r(1) by (rule first_free_blockE) (use assms(1) r(2) in \<open>auto simp: file_mmgr_inv_def\<close>)
  moreover have "file_mmgr_get_total_usable_blocks s \<noteq> 0"
    using assms(2) inv by (simp add: file_mmgr_get_total_usable_blocks_def file_mmgr_get_total_blocks_def file_mmgr_get_used_blocks_def)
  ultimately have "file_mmgr_alloc_block s = rbind (file_mmgr_set_block (int_of_u64 (u64_of_int r)) s) (\<lambda>s.
      Inr (s\<lparr>file_mmgr_used_blocks := file_mmgr_used_blocks s + 1\<rparr>, int_of_u64 (u64_of_int r)))"
    using r(1) by (simp add: file_mmgr_alloc_block_def file_mmgr_get_first_free_def file_mmgr_get_total_blocks_def Let_def)
  moreover have "s1\<lparr>file_mmgr_used_blocks := file_mmgr_used_blocks s1 + 1\<rparr> \<noteq> s"
    if "file_mmgr_set_block k s = Inr s1" for k s1
  proof
    assume eq: "s1\<lparr>file_mmgr_used_blocks := file_mmgr_used_blocks s1 + 1\<rparr> = s"
    have "file_mmgr_used_blocks s1 = file_mmgr_used_blocks s" using that by (auto simp: file_mmgr_set_block_def)
    then show False using arg_cong [OF eq, of file_mmgr_used_blocks] by simp
  qed
  ultimately have "file_mmgr_alloc_block s \<noteq> Inr (s, -1)" by (auto simp: rbind_eq_Inr_iff)
  then show ?thesis using file_mmgr_alloc_outcome [OF assms(1)] least_free_unique [OF _ assms(3)] by auto
qed

lemma file_mmgr_grant_neq: "file_mmgr_grant b s \<noteq> s"
proof
  assume "file_mmgr_grant b s = s"
  then have "file_mmgr_used_blocks s + 1 = file_mmgr_used_blocks s" by (metis file_mmgr_grant_simps(3))
  then show False by simp
qed

lemma file_mmgr_slots_seq:
  "file_mmgr_inv s \<Longrightarrow> first_slots k (file_mmgr_memory_map s) \<Longrightarrow> unat (file_mmgr_used_blocks s) \<le> k \<Longrightarrow> k + n \<le> 32768 \<Longrightarrow>
    \<exists>t. alloc_seq file_mmgr_alloc_block n s = Inr (t, map (\<lambda>k. int (slot_block k)) [k..<k + n])"
proof (induction n arbitrary: k s)
  case (Suc n)
  let ?m = "file_mmgr_memory_map s" and ?t = "file_mmgr_grant (slot_block k) s"
  have inv: "length ?m = 1100" "file_mmgr_max_blocks s = 65536" using Suc.prems(1) by (auto simp: file_mmgr_inv_def)
  have l: "least_free ?m (file_mmgr_max_blocks s) (slot_block k)"
    using first_slots_least [OF Suc.prems(2)] inv Suc.prems(4) by simp
  have "file_mmgr_used_blocks s \<noteq> 65536" using Suc.prems(3,4) by auto
  then have a: "file_mmgr_alloc_block s = Inr (?t, int (slot_block k))" by (rule file_mmgr_alloc_least [OF Suc.prems(1) _ l])
  have "file_mmgr_inv ?t" using fs.alloc_inv [OF Suc.prems(1) a] .
  moreover have "first_slots (Suc k) (file_mmgr_memory_map ?t)"
    using first_slots_grant [OF Suc.prems(2)] file_mmgr_grant_used [OF least_freeD(1) [OF l]] by simp
  moreover have "unat (file_mmgr_used_blocks ?t) \<le> Suc k"
    using Suc.prems(3) by (simp add: unat_word_ariths(1) le_trans [OF mod_less_eq_dividend])
  moreover have "[k..<k + Suc n] = k # [Suc k..<Suc k + n]" by (simp add: upt_conv_Cons)
  ultimately show ?case using Suc.IH [of ?t "Suc k"] Suc.prems(4) a file_mmgr_grant_neq by (auto simp del: upt_Suc)
qed simp

text \<open>
  C19. In every state with a bitmap of its declared size in which block 0 is reserved, any number of calls of
  \<open>file_mmgr_alloc_block\<close> returns without a fault. The blocks that are handed out were free before and are marked as used
  afterwards, are pairwise distinct and lie between 1 and 65535, the range of the bitmap; blocks that were in use stay so. There
  are as many of them as calls, unless in the end the allocator answers \<open>-1\<close>. Freeing them in the opposite order, by their byte
  addresses, restores the state.
\<close>

theorem file_mmgr_blocks:
  assumes "file_mmgr_inv s"
  shows "\<exists>t bs. alloc_seq file_mmgr_alloc_block n s = Inr (t, bs) \<and> distinct bs \<and>
    (\<forall>b\<in>set bs. 0 < b \<and> b < 65536 \<and> \<not> file_mmgr_used s b \<and> file_mmgr_used t b) \<and>
    (\<forall>b. file_mmgr_used s b \<longrightarrow> file_mmgr_used t b) \<and>
    (length bs = n \<or> file_mmgr_alloc_block t = Inr (t, -1)) \<and>
    rfold (\<lambda>b. file_mmgr_free_block (word_of_int b * 4096)) (rev bs) t = Inr s"
proof -
  obtain t bs where a: "alloc_seq file_mmgr_alloc_block n s = Inr (t, bs)"
    using fs.seq_total [OF assms] by blast
  have "length bs = n \<or> file_mmgr_alloc_block t = Inr (t, -1)"
    using alloc_seq_short [OF a] file_mmgr_alloc_outcome [OF fs.seq_inv [OF assms a]] file_mmgr_grant_neq by auto
  with a fs.seq_distinct [OF assms a] fs.seq_free [OF assms a] file_mmgr_seq_bounds [OF assms a] fs.seq_fresh [OF assms a]
    fs.seq_keeps [OF assms a]
  show ?thesis by blast
qed

text \<open>The state that the boot code leaves, with block 0 set.\<close>

lemma file_mmgr_boot_state:
  "file_mmgr_phy_init file_mmgr_boot = Inr file_mmgr_boot"
  "file_mmgr_set_block 0 file_mmgr_boot = Inr (file_mmgr_boot\<lparr>file_mmgr_memory_map := (replicate 1100 0)[0 := shl1_u64 0]\<rparr>)"
  using file_mmgr_phy_init_zero [of file_mmgr_boot] file_mmgr_set_block_Inr [of 0 file_mmgr_boot]
  by (simp_all add: file_mmgr_boot_def)

lemma file_mmgr_boot_slots:
  assumes "s = file_mmgr_boot\<lparr>file_mmgr_memory_map := (replicate 1100 0)[0 := shl1_u64 0]\<rparr>"
  shows "file_mmgr_inv s" and "first_slots 1 (file_mmgr_memory_map s)"
proof -
  have used: "bm_used (file_mmgr_memory_map s) c \<longleftrightarrow> same_slot 0 c" if "c div 64 < 1100" for c
    using bm_used_set [of 0 "replicate 1100 0" c] that by (simp add: assms bm_used_def [of "replicate 1100 0"])
  then have "bm_used (file_mmgr_memory_map s) 0" by (simp add: same_slot_def)
  then show "file_mmgr_inv s" by (simp add: file_mmgr_inv_def assms file_mmgr_boot_def)
  have "same_slot 0 c \<longleftrightarrow> slot_no c < 1" for c using slot_no_eq_iff [of 0 c] by (auto simp: slot_no_def)
  then show "first_slots 1 (file_mmgr_memory_map s)" using used by (simp add: first_slots_def assms)
qed

theorem file_mmgr_blocks_witness:
  "\<exists>s t. rbind (file_mmgr_phy_init file_mmgr_boot) (file_mmgr_set_block 0) = Inr s \<and>
     alloc_seq file_mmgr_alloc_block 4 s = Inr (t, [1, 2, 3, 4]) \<and>
     \<not> file_mmgr_used s 3 \<and> file_mmgr_used t 3 \<and>
     rfold (\<lambda>b. file_mmgr_free_block (word_of_int b * 4096)) [4, 3, 2, 1] t = Inr s"
proof -
  define s where "s = file_mmgr_boot\<lparr>file_mmgr_memory_map := (replicate 1100 0)[0 := shl1_u64 0]\<rparr>"
  note inv = file_mmgr_boot_slots [OF s_def]
  have "map (\<lambda>k. int (slot_block k)) [1..<1 + 4] = [1, 2, 3, 4]" by (simp add: slot_block_def upt_rec)
  then obtain t where t: "alloc_seq file_mmgr_alloc_block 4 s = Inr (t, [1, 2, 3, 4])"
    using file_mmgr_slots_seq [OF inv, of 4] by (auto simp: s_def file_mmgr_boot_def)
  from file_mmgr_blocks [OF inv(1), of 4] t
  have "\<not> file_mmgr_used s 3 \<and> file_mmgr_used t 3" "rfold (\<lambda>b. file_mmgr_free_block (word_of_int b * 4096)) [4, 3, 2, 1] t = Inr s"
    by auto
  then show ?thesis using t file_mmgr_boot_state by (auto simp: s_def)
qed

end
