(* ===== verification/Ahci.thy ===== *)
theory Ahci
  imports Prelude
begin

text \<open>
  The driver of the disk, \<open>sys/ahci.c\<close> with the structures of \<open>include/ahci.h\<close>: the registers of the
  host bus adapter, the command list and the command tables in memory, and the operations that build
  a command, issue it and wait for the device.

  The device is hardware: it is the argument \<open>dev\<close> of the operations, what happens to the state between
  two readings of a register the code waits on. \<open>ahci_device\<close> states what the AHCI and ATA
  documents say of it. The command list and the tables are memories of their own, indexed by the
  kernel address of the structure; the data buffers are the bytes \<open>ram\<close>. A physical address \<open>p\<close> given
  to the device is the kernel address \<open>AHCI_KERN_BASE + p\<close>. The messages printed are left out.
\<close>

section \<open>Structures\<close>

definition HBA_PxIS_TFES :: u32 where
  "HBA_PxIS_TFES = 0x40000000"

definition ATA_CMD_READ_DMA_EXT :: u8 where
  "ATA_CMD_READ_DMA_EXT = 0x25"

definition ATA_CMD_WRITE_DMA_EXT :: u8 where
  "ATA_CMD_WRITE_DMA_EXT = 0x35"

definition SATA_SIG_ATAPI :: u32 where
  "SATA_SIG_ATAPI = 0xEB140101"

definition SATA_SIG_SEMB :: u32 where
  "SATA_SIG_SEMB = 0xC33C0101"

definition SATA_SIG_PM :: u32 where
  "SATA_SIG_PM = 0x96690101"

definition AHCI_DEV_NULL :: int where
  "AHCI_DEV_NULL = 2"

definition AHCI_DEV_SATA :: int where
  "AHCI_DEV_SATA = 1"

definition AHCI_DEV_SATAPI :: int where
  "AHCI_DEV_SATAPI = 4"

definition AHCI_DEV_SEMB :: int where
  "AHCI_DEV_SEMB = 2"

definition AHCI_DEV_PM :: int where
  "AHCI_DEV_PM = 3"

definition HBA_PORT_DET_PRESENT :: u8 where
  "HBA_PORT_DET_PRESENT = 3"

definition HBA_PORT_IPM_ACTIVE :: u8 where
  "HBA_PORT_IPM_ACTIVE = 1"

definition HBA_PxCMD_CR :: u32 where
  "HBA_PxCMD_CR = 0x8000"

definition HBA_PxCMD_FR :: u32 where
  "HBA_PxCMD_FR = 0x4000"

definition HBA_PxCMD_FRE :: u32 where
  "HBA_PxCMD_FRE = 0x10"

definition HBA_PxCMD_ST :: u32 where
  "HBA_PxCMD_ST = 1"

definition AHCI_KERN_BASE :: u64 where
  "AHCI_KERN_BASE = 0xFFFFFFFF80000000"

definition FIS_TYPE_REG_H2D :: u8 where
  "FIS_TYPE_REG_H2D = 0x27"

record FIS_REG_H2D =
  fis_type :: u8
  fis_pmport :: u8
  fis_c :: u8
  fis_command :: u8
  fis_featurel :: u8
  fis_lba0 :: u8
  fis_lba1 :: u8
  fis_lba2 :: u8
  fis_device :: u8
  fis_lba3 :: u8
  fis_lba4 :: u8
  fis_lba5 :: u8
  fis_featureh :: u8
  fis_countl :: u8
  fis_counth :: u8
  fis_icc :: u8
  fis_control :: u8

record HBA_PORT =
  px_clb :: u32
  px_clbu :: u32
  px_fb :: u32
  px_fbu :: u32
  px_is :: u32
  px_ie :: u32
  px_cmd :: u32
  px_tfd :: u32
  px_sig :: u32
  px_ssts :: u32
  px_sctl :: u32
  px_serr :: u32
  px_sact :: u32
  px_ci :: u32
  px_sntf :: u32
  px_fbs :: u32

text \<open>The registers \<open>ports\<close> of all the ports of the adapter, by their index.\<close>

record HBA_MEM =
  hba_cap :: u32
  hba_ghc :: u32
  hba_is :: u32
  hba_pi :: u32
  hba_vs :: u32
  hba_ccc_ctl :: u32
  hba_ccc_pts :: u32
  hba_em_loc :: u32
  hba_em_ctl :: u32
  hba_cap2 :: u32
  hba_bohc :: u32
  hba_ports :: "nat \<Rightarrow> HBA_PORT"

record HBA_CMD_HEADER =
  hdr_cfl :: u8
  hdr_a :: u8
  hdr_w :: u8
  hdr_p :: u8
  hdr_r :: u8
  hdr_b :: u8
  hdr_c :: u8
  hdr_pmp :: u8
  hdr_prdtl :: u16
  hdr_prdbc :: u32
  hdr_ctba :: u32
  hdr_ctbau :: u32

record HBA_PRDT_ENTRY =
  prd_dba :: u32
  prd_dbau :: u32
  prd_dbc :: u32
  prd_i :: u32

record HBA_CMD_TBL =
  cfis :: FIS_REG_H2D
  prdt_entry :: HBA_PRDT_ENTRY

record ahci_state =
  hba :: HBA_MEM
  headers :: "u64 \<Rightarrow> HBA_CMD_HEADER"
  tables :: "u64 \<Rightarrow> HBA_CMD_TBL"
  ram :: "u64 \<Rightarrow> u8"
  disk :: "nat \<Rightarrow> u8"
  pages_for_ahci_start :: u64
  pages_for_ahci_start_virtual :: u64

text \<open>What \<open>memset\<close> with 0 leaves of a structure.\<close>

definition zero_header :: HBA_CMD_HEADER where
  "zero_header = \<lparr>hdr_cfl = 0, hdr_a = 0, hdr_w = 0, hdr_p = 0, hdr_r = 0, hdr_b = 0, hdr_c = 0, hdr_pmp = 0,
     hdr_prdtl = 0, hdr_prdbc = 0, hdr_ctba = 0, hdr_ctbau = 0\<rparr>"

definition zero_table :: HBA_CMD_TBL where
  "zero_table = \<lparr>cfis = \<lparr>fis_type = 0, fis_pmport = 0, fis_c = 0, fis_command = 0, fis_featurel = 0, fis_lba0 = 0,
       fis_lba1 = 0, fis_lba2 = 0, fis_device = 0, fis_lba3 = 0, fis_lba4 = 0, fis_lba5 = 0, fis_featureh = 0,
       fis_countl = 0, fis_counth = 0, fis_icc = 0, fis_control = 0\<rparr>,
     prdt_entry = \<lparr>prd_dba = 0, prd_dbau = 0, prd_dbc = 0, prd_i = 0\<rparr>\<rparr>"

section \<open>Operations\<close>

definition port :: "nat \<Rightarrow> ahci_state \<Rightarrow> HBA_PORT" where
  "port n s = hba_ports (hba s) n"

definition upd_port :: "nat \<Rightarrow> (HBA_PORT \<Rightarrow> HBA_PORT) \<Rightarrow> ahci_state \<Rightarrow> ahci_state" where
  "upd_port n f s = s\<lparr>hba := (hba s)\<lparr>hba_ports := (hba_ports (hba s))(n := f (port n s))\<rparr>\<rparr>"

text \<open>
  Three registers of a port do not keep what is stored to them: in \<open>PxIS\<close> and \<open>PxSERR\<close> a bit that is written as one is cleared,
  in \<open>PxCI\<close> it is set; bits written as zero stay as they are.
\<close>

definition write_is :: "u32 \<Rightarrow> HBA_PORT \<Rightarrow> HBA_PORT" where
  "write_is v p = p\<lparr>px_is := px_is p AND NOT v\<rparr>"

definition write_serr :: "u32 \<Rightarrow> HBA_PORT \<Rightarrow> HBA_PORT" where
  "write_serr v p = p\<lparr>px_serr := px_serr p AND NOT v\<rparr>"

definition write_ci :: "u32 \<Rightarrow> HBA_PORT \<Rightarrow> HBA_PORT" where
  "write_ci v p = p\<lparr>px_ci := px_ci p OR v\<rparr>"

text \<open>A 64-bit address kept in two registers.\<close>

definition addr64 :: "u32 \<Rightarrow> u32 \<Rightarrow> u64" where
  "addr64 upper lower = push_bit 32 (0 OR ucast upper) OR ucast lower"

fun find_slot :: "nat \<Rightarrow> u32 \<Rightarrow> int \<Rightarrow> int" where
  "find_slot 0 slots i = -1"
| "find_slot (Suc k) slots i = (if slots AND 1 = 0 then i else find_slot k (drop_bit 1 slots) (i + 1))"

definition find_cmdslot :: "nat \<Rightarrow> ahci_state \<Rightarrow> int" where
  "find_cmdslot n s =
     (let slots = px_sact (port n s) OR px_ci (port n s);
          num_of_slots = unat (drop_bit 8 (hba_cap (hba s) AND 0x0f00))
      in find_slot num_of_slots slots 0)"

definition cmd_header :: "nat \<Rightarrow> nat \<Rightarrow> ahci_state \<Rightarrow> u64" where
  "cmd_header n slot s =
     AHCI_KERN_BASE + addr64 (px_clbu (port n s)) (px_clb (port n s)) + 32 * of_nat slot"

definition cmd_table :: "nat \<Rightarrow> nat \<Rightarrow> ahci_state \<Rightarrow> u64" where
  "cmd_table n slot s =
     (let h = headers s (cmd_header n slot s) in AHCI_KERN_BASE + addr64 (hdr_ctbau h) (hdr_ctba h))"

text \<open>The command header, for a transfer to (\<open>w = 1\<close>) or from the device.\<close>

definition setup_header :: "nat \<Rightarrow> nat \<Rightarrow> u8 \<Rightarrow> ahci_state \<Rightarrow> ahci_state" where
  "setup_header n slot w s =
     (let a = cmd_header n slot s in
      s\<lparr>headers := (headers s)(a := headers s a\<lparr>hdr_cfl := 5, hdr_w := w, hdr_c := 1, hdr_prdtl := 1\<rparr>)\<rparr>)"

definition command_table :: "u8 \<Rightarrow> u8 \<Rightarrow> u32 \<Rightarrow> u32 \<Rightarrow> u64 \<Rightarrow> HBA_CMD_TBL" where
  "command_table cmd countl startl starth buf =
     zero_table\<lparr>
       prdt_entry := prdt_entry zero_table\<lparr>
         prd_dba := ucast (buf AND 0xFFFFFFFF),
         prd_dbau := ucast (drop_bit 32 buf AND 0xFFFFFFFF),
         prd_dbc := 4096 - 1,
         prd_i := 0\<rparr>,
       cfis := cfis zero_table\<lparr>
         fis_type := FIS_TYPE_REG_H2D,
         fis_c := 1,
         fis_command := cmd,
         fis_lba0 := ucast startl,
         fis_lba1 := ucast (drop_bit 8 startl),
         fis_lba2 := ucast (drop_bit 16 startl),
         fis_device := 0x40,
         fis_lba3 := ucast (drop_bit 24 startl),
         fis_lba4 := ucast starth,
         fis_lba5 := ucast (drop_bit 8 starth),
         fis_countl := countl,
         fis_counth := 0\<rparr>\<rparr>"

definition setup_table :: "nat \<Rightarrow> nat \<Rightarrow> HBA_CMD_TBL \<Rightarrow> ahci_state \<Rightarrow> ahci_state" where
  "setup_table n slot t s = s\<lparr>tables := (tables s)(cmd_table n slot s := t)\<rparr>"

text \<open>The loop that waits for the command: the result says whether it ended without a task file error.\<close>

partial_function (option) wait_command ::
  "(ahci_state \<Rightarrow> ahci_state) \<Rightarrow> nat \<Rightarrow> nat \<Rightarrow> ahci_state \<Rightarrow> (ahci_state \<times> bool) option" where
  "wait_command dev n slot s =
     (if px_ci (port n (dev s)) AND int_shl1 (int slot) = 0 then Some (dev s, True)
      else if px_is (port n (dev s)) AND HBA_PxIS_TFES \<noteq> 0 then Some (dev s, False)
      else wait_command dev n slot (dev s))"

definition run_command ::
  "(ahci_state \<Rightarrow> ahci_state) \<Rightarrow> nat \<Rightarrow> nat \<Rightarrow> ahci_state \<Rightarrow> (ahci_state \<times> int) res" where
  "run_command dev n slot s =
     (case wait_command dev n slot (upd_port n (write_ci (int_shl1 (int slot))) s) of
        None \<Rightarrow> Inl Halt
      | Some (s, fine) \<Rightarrow>
          if \<not> fine then Inr (s, 0)
          else if px_is (port n s) AND HBA_PxIS_TFES \<noteq> 0 then Inr (s, 0)
          else Inr (s, 1))"

definition write_interface ::
  "(ahci_state \<Rightarrow> ahci_state) \<Rightarrow> nat \<Rightarrow> u32 \<Rightarrow> u32 \<Rightarrow> u32 \<Rightarrow> u64 \<Rightarrow> ahci_state \<Rightarrow> (ahci_state \<times> int) res" where
  "write_interface dev n startl starth count buf s =
     (let s = upd_port n (write_is 0xffff) s;
          slot = find_cmdslot n s
      in if slot = -1 then Inr (s, 0)
         else
           let s = setup_header n (nat slot) 1 s;
               s = setup_table n (nat slot) (command_table ATA_CMD_WRITE_DMA_EXT 2 startl starth buf) s
           in run_command dev n (nat slot) s)"

definition read_interface ::
  "(ahci_state \<Rightarrow> ahci_state) \<Rightarrow> nat \<Rightarrow> u32 \<Rightarrow> u32 \<Rightarrow> u32 \<Rightarrow> u64 \<Rightarrow> ahci_state \<Rightarrow> (ahci_state \<times> int) res" where
  "read_interface dev n startl starth count buf s =
     (let s = upd_port n (write_is 0xffff) s;
          slot = find_cmdslot n s
      in if slot = -1 then Inr (s, 0)
         else
           let s = setup_header n (nat slot) 0 s;
               s = setup_table n (nat slot) (command_table ATA_CMD_READ_DMA_EXT 1 startl starth buf) s
           in run_command dev n (nat slot) s)"

text \<open>\<open>memcpy\<close> into a data buffer, of bytes held by the caller.\<close>

definition store_bytes :: "u64 \<Rightarrow> u8 list \<Rightarrow> (u64 \<Rightarrow> u8) \<Rightarrow> (u64 \<Rightarrow> u8)" where
  "store_bytes a bs m = fold (\<lambda>i m. m(a + of_nat i := bs ! i)) [0..<length bs] m"

definition load_bytes :: "u64 \<Rightarrow> nat \<Rightarrow> (u64 \<Rightarrow> u8) \<Rightarrow> u8 list" where
  "load_bytes a n m = map (\<lambda>i. m (a + of_nat i)) [0..<n]"

definition write_buffer :: "ahci_state \<Rightarrow> u64" where
  "write_buffer s = pages_for_ahci_start_virtual s + 5 * 4096"

definition read_buffer :: "ahci_state \<Rightarrow> u64" where
  "read_buffer s = pages_for_ahci_start_virtual s + 1 * 4096"

text \<open>
  Writing \<open>bs\<close> through the buffer, as \<open>write_disk\<close> does with the string it is given and the functions of
  \<open>sys/fs.c\<close> with a structure.
\<close>

definition write_through :: "(ahci_state \<Rightarrow> ahci_state) \<Rightarrow> u32 \<Rightarrow> u8 list \<Rightarrow> ahci_state \<Rightarrow> (ahci_state \<times> int) res" where
  "write_through dev offset bs s =
     (let s = s\<lparr>ram := store_bytes (write_buffer s) bs (ram s)\<rparr>
      in write_interface dev 0 offset 0 1 (write_buffer s - 0xFFFFFFFF80000000) s)"

text \<open>The string is given without its terminator, which \<open>memcpy\<close> with \<open>strlen\<close> does not copy.\<close>

definition write_disk :: "(ahci_state \<Rightarrow> ahci_state) \<Rightarrow> u32 \<Rightarrow> u8 list \<Rightarrow> ahci_state \<Rightarrow> (ahci_state \<times> int) res" where
  "write_disk dev offset buf s = write_through dev offset buf s"

definition read_disk :: "(ahci_state \<Rightarrow> ahci_state) \<Rightarrow> u32 \<Rightarrow> ahci_state \<Rightarrow> (ahci_state \<times> u64) res" where
  "read_disk dev offset s =
     rbind (read_interface dev 0 offset 0 1 (read_buffer s - 0xFFFFFFFF80000000) s) (\<lambda>(s, _).
     Inr (s, read_buffer s))"

section \<open>Setting up the ports\<close>

definition check_type :: "nat \<Rightarrow> ahci_state \<Rightarrow> int" where
  "check_type n s =
     (let ssts = px_ssts (port n s);
          ipm = (ucast (drop_bit 8 ssts AND 0x0F) :: u8);
          det = (ucast (ssts AND 0x0F) :: u8)
      in if det \<noteq> HBA_PORT_DET_PRESENT then AHCI_DEV_NULL
         else if ipm \<noteq> HBA_PORT_IPM_ACTIVE then AHCI_DEV_NULL
         else if px_sig (port n s) = SATA_SIG_ATAPI then AHCI_DEV_SATAPI
         else if px_sig (port n s) = SATA_SIG_SEMB then AHCI_DEV_SEMB
         else if px_sig (port n s) = SATA_SIG_PM then AHCI_DEV_PM
         else AHCI_DEV_SATA)"

text \<open>Waiting until the given bits of the command register are clear.\<close>

partial_function (option) wait_clear ::
  "(ahci_state \<Rightarrow> ahci_state) \<Rightarrow> nat \<Rightarrow> u32 \<Rightarrow> ahci_state \<Rightarrow> ahci_state option" where
  "wait_clear dev n bits s =
     (if px_cmd (port n (dev s)) AND bits \<noteq> 0 then wait_clear dev n bits (dev s) else Some (dev s))"

definition start_cmd :: "(ahci_state \<Rightarrow> ahci_state) \<Rightarrow> nat \<Rightarrow> ahci_state \<Rightarrow> ahci_state res" where
  "start_cmd dev n s =
     (case wait_clear dev n HBA_PxCMD_CR s of
        None \<Rightarrow> Inl Halt
      | Some s \<Rightarrow>
          let s = upd_port n (\<lambda>p. p\<lparr>px_cmd := px_cmd p OR HBA_PxCMD_FRE\<rparr>) s
          in Inr (upd_port n (\<lambda>p. p\<lparr>px_cmd := px_cmd p OR HBA_PxCMD_ST\<rparr>) s))"

definition stop_cmd :: "(ahci_state \<Rightarrow> ahci_state) \<Rightarrow> nat \<Rightarrow> ahci_state \<Rightarrow> ahci_state res" where
  "stop_cmd dev n s =
     (let s = upd_port n (\<lambda>p. p\<lparr>px_cmd := px_cmd p AND NOT HBA_PxCMD_ST\<rparr>) s;
          s = upd_port n (\<lambda>p. p\<lparr>px_cmd := px_cmd p AND NOT HBA_PxCMD_FRE\<rparr>) s
      in case wait_clear dev n (HBA_PxCMD_FR OR HBA_PxCMD_CR) s of None \<Rightarrow> Inl Halt | Some s \<Rightarrow> Inr s)"

text \<open>One round of the loop over the command headers: the header of slot \<open>i\<close> and its cleared table.\<close>

definition rebase_header :: "u64 \<Rightarrow> nat \<Rightarrow> ahci_state \<Rightarrow> ahci_state" where
  "rebase_header cmdheader i s =
     (let a = cmdheader + 32 * of_nat i;
          t = pages_for_ahci_start s + 40960 + push_bit 8 (of_nat i);
          h = headers s a\<lparr>hdr_prdtl := 8, hdr_ctba := ucast (t AND 0xffffffff),
                hdr_ctbau := ucast (drop_bit 32 t AND 0xffffffff)\<rparr>
      in s\<lparr>headers := (headers s)(a := h),
           tables := (tables s)(addr64 (hdr_ctbau h) (hdr_ctba h) + AHCI_KERN_BASE := zero_table)\<rparr>)"

definition port_rebase :: "(ahci_state \<Rightarrow> ahci_state) \<Rightarrow> nat \<Rightarrow> nat \<Rightarrow> ahci_state \<Rightarrow> ahci_state res" where
  "port_rebase dev n portno s =
     rbind (stop_cmd dev n s) (\<lambda>s.
     let base = pages_for_ahci_start s;
         s = upd_port n (\<lambda>p. p\<lparr>
           px_clb := ucast (base AND 0xffffffff),
           px_clbu := 0,
           px_fb := ucast ((base + 32768) AND 0xffffffff),
           px_fbu := ucast (drop_bit 32 (base + 32768) AND 0xffffffff)\<rparr>) s;
         s = upd_port n (\<lambda>p. (write_is 0 (write_serr 1 p))\<lparr>px_ie := 1\<rparr>) s;
         clb_addr = addr64 (px_clbu (port n s)) (px_clb (port n s)) + AHCI_KERN_BASE;
         s = s\<lparr>headers := fold (\<lambda>i h. h(clb_addr + 32 * of_nat i := zero_header)) [0..<32] (headers s)\<rparr>;
         fbu_addr = addr64 (px_fbu (port n s)) (px_fb (port n s)) + AHCI_KERN_BASE;
         s = s\<lparr>ram := store_bytes fbu_addr (replicate 256 0) (ram s)\<rparr>;
         s = fold (rebase_header clb_addr) [0..<32] s
     in rbind (start_cmd dev n s) (\<lambda>s.
     Inr (upd_port n (\<lambda>p. (write_is 0 p)\<lparr>px_ie := 0xffffffff\<rparr>) s)))"

text \<open>The search over the ports: the port that is set up is the first, whichever has the disk.\<close>

fun probe_loop :: "(ahci_state \<Rightarrow> ahci_state) \<Rightarrow> nat \<Rightarrow> nat \<Rightarrow> u32 \<Rightarrow> ahci_state \<Rightarrow> ahci_state res" where
  "probe_loop dev 0 i pi s = Inr s"
| "probe_loop dev (Suc k) i pi s =
     (if pi AND 1 \<noteq> 0 \<and> check_type i s = AHCI_DEV_SATA then port_rebase dev 0 i s
      else probe_loop dev k (i + 1) (drop_bit 1 pi) s)"

definition probe_port :: "(ahci_state \<Rightarrow> ahci_state) \<Rightarrow> ahci_state \<Rightarrow> ahci_state res" where
  "probe_port dev s = probe_loop dev 32 0 (hba_pi (hba s)) s"

section \<open>The device\<close>

text \<open>The block address, the number of sectors and the buffer of a command.\<close>

definition fis_lba :: "FIS_REG_H2D \<Rightarrow> u64" where
  "fis_lba f = ucast (fis_lba0 f) OR push_bit 8 (ucast (fis_lba1 f)) OR push_bit 16 (ucast (fis_lba2 f)) OR
     push_bit 24 (ucast (fis_lba3 f)) OR push_bit 32 (ucast (fis_lba4 f)) OR push_bit 40 (ucast (fis_lba5 f))"

definition fis_count :: "FIS_REG_H2D \<Rightarrow> nat" where
  "fis_count f = 256 * unat (fis_counth f) + unat (fis_countl f)"

definition prd_buffer :: "HBA_CMD_TBL \<Rightarrow> u64" where
  "prd_buffer t = AHCI_KERN_BASE + addr64 (prd_dbau (prdt_entry t)) (prd_dba (prdt_entry t))"

definition disk_store :: "nat \<Rightarrow> nat \<Rightarrow> (nat \<Rightarrow> u8) \<Rightarrow> (nat \<Rightarrow> u8) \<Rightarrow> (nat \<Rightarrow> u8)" where
  "disk_store lba count src d = (\<lambda>x. if 512 * lba \<le> x \<and> x < 512 * (lba + count) then src (x - 512 * lba) else d x)"

text \<open>The data that a command moves: sectors of 512 bytes.\<close>

definition moved_disk :: "HBA_CMD_TBL \<Rightarrow> ahci_state \<Rightarrow> nat \<Rightarrow> u8" where
  "moved_disk t s =
     (if fis_command (cfis t) = ATA_CMD_WRITE_DMA_EXT
      then disk_store (unat (fis_lba (cfis t))) (fis_count (cfis t)) (\<lambda>i. ram s (prd_buffer t + of_nat i)) (disk s)
      else disk s)"

definition moved_ram :: "HBA_CMD_TBL \<Rightarrow> ahci_state \<Rightarrow> u64 \<Rightarrow> u8" where
  "moved_ram t s =
     (if fis_command (cfis t) = ATA_CMD_READ_DMA_EXT
      then (\<lambda>a. if unat (a - prd_buffer t) < 512 * fis_count (cfis t)
               then disk s (512 * unat (fis_lba (cfis t)) + unat (a - prd_buffer t)) else ram s a)
      else ram s)"

text \<open>A command as the documents want it: a register FIS of five words, one buffer large enough.\<close>

definition command_ok :: "HBA_CMD_HEADER \<Rightarrow> HBA_CMD_TBL \<Rightarrow> bool" where
  "command_ok h t \<longleftrightarrow>
     hdr_cfl h = 5 \<and> hdr_prdtl h = 1 \<and> fis_type (cfis t) = FIS_TYPE_REG_H2D \<and> fis_c (cfis t) = 1 \<and>
     fis_device (cfis t) = 0x40 \<and> 0 < fis_count (cfis t) \<and>
     512 * fis_count (cfis t) \<le> unat (prd_dbc (prdt_entry t)) + 1 \<and>
     (fis_command (cfis t) = ATA_CMD_WRITE_DMA_EXT \<and> hdr_w h = 1 \<or>
      fis_command (cfis t) = ATA_CMD_READ_DMA_EXT \<and> hdr_w h = 0)"

text \<open>The area where the device puts the FIS it sends.\<close>

definition received_fis :: "nat \<Rightarrow> ahci_state \<Rightarrow> u64" where
  "received_fis n s = AHCI_KERN_BASE + addr64 (px_fbu (port n s)) (px_fb (port n s))"

text \<open>
  The state after the command of a slot: its data moved, its bit of \<open>PxCI\<close> cleared, no task file error;
  the interrupt status, the task file, the byte count and the received FIS are whatever they are.
\<close>

definition completed :: "nat \<Rightarrow> nat \<Rightarrow> ahci_state \<Rightarrow> ahci_state \<Rightarrow> bool" where
  "completed n slot s s' \<longleftrightarrow>
     (let t = tables s (cmd_table n slot s); a = cmd_header n slot s in
      \<exists>v tfd b m. v AND HBA_PxIS_TFES = 0 \<and>
        (\<forall>x. 256 \<le> unat (x - received_fis n s) \<longrightarrow> m x = moved_ram t s x) \<and>
        s' = (upd_port n (\<lambda>p. p\<lparr>px_is := v, px_tfd := tfd, px_ci := px_ci p AND NOT (int_shl1 (int slot))\<rparr>) s)
               \<lparr>headers := (headers s)(a := headers s a\<lparr>hdr_prdbc := b\<rparr>), ram := m, disk := moved_disk t s\<rparr>)"

text \<open>
  The device of port \<open>n\<close>, a disk of \<open>cap\<close> sectors, completes a command for sectors of the disk that is issued alone while the
  port is started, and until then keeps its bit of \<open>PxCI\<close> and signals no error. Of other commands nothing is said.
\<close>

definition issued :: "nat \<Rightarrow> nat \<Rightarrow> ahci_state \<Rightarrow> bool" where
  "issued n slot s \<longleftrightarrow> px_ci (port n s) AND int_shl1 (int slot) \<noteq> 0 \<and> px_is (port n s) AND HBA_PxIS_TFES = 0"

definition issued_alone :: "nat \<Rightarrow> nat \<Rightarrow> ahci_state \<Rightarrow> bool" where
  "issued_alone n slot s \<longleftrightarrow>
     px_ci (port n s) = int_shl1 (int slot) \<and> px_is (port n s) AND HBA_PxIS_TFES = 0 \<and>
     (\<forall>m. m \<noteq> n \<longrightarrow> px_ci (port m s) = 0)"

definition ahci_device :: "nat \<Rightarrow> nat \<Rightarrow> (ahci_state \<Rightarrow> ahci_state) \<Rightarrow> bool" where
  "ahci_device cap n dev \<longleftrightarrow>
     (\<forall>slot s. slot < 32 \<longrightarrow> issued_alone n slot s \<longrightarrow> px_cmd (port n s) AND HBA_PxCMD_ST \<noteq> 0 \<longrightarrow>
        command_ok (headers s (cmd_header n slot s)) (tables s (cmd_table n slot s)) \<longrightarrow>
        unat (fis_lba (cfis (tables s (cmd_table n slot s)))) + fis_count (cfis (tables s (cmd_table n slot s))) \<le> cap \<longrightarrow>
        (\<exists>k. (\<forall>i<k. issued n slot ((dev ^^ Suc i) s)) \<and> completed n slot s ((dev ^^ Suc k) s)))"

section \<open>Issuing commands\<close>

lemma port_simps [simp]:
  "port n (upd_port n f s) = f (port n s)" "m \<noteq> n \<Longrightarrow> port m (upd_port n f s) = port m s"
  "headers (upd_port n f s) = headers s" "tables (upd_port n f s) = tables s" "ram (upd_port n f s) = ram s"
  "disk (upd_port n f s) = disk s" "pages_for_ahci_start (upd_port n f s) = pages_for_ahci_start s"
  "pages_for_ahci_start_virtual (upd_port n f s) = pages_for_ahci_start_virtual s"
  "hba_cap (hba (upd_port n f s)) = hba_cap (hba s)"
  "port k (s\<lparr>headers := h\<rparr>) = port k s" "port k (s\<lparr>tables := t\<rparr>) = port k s" "port k (s\<lparr>ram := r\<rparr>) = port k s"
  "port k (s\<lparr>disk := d\<rparr>) = port k s"
  by (simp_all add: upd_port_def port_def)

lemma addr64_split: "addr64 (ucast (drop_bit 32 x AND 0xFFFFFFFF)) (ucast (x AND 0xFFFFFFFF)) = x"
proof -
  have m: "bit (0xFFFFFFFF :: u64) k \<longleftrightarrow> k < 32" for k
  proof -
    have "(0xFFFFFFFF :: u64) = mask 32" by (simp add: mask_eq_exp_minus_1)
    then show ?thesis by (simp only: bit_mask_iff possible_bit_word) auto
  qed
  show ?thesis
    by (rule bit_word_eqI) (auto simp: addr64_def bit_simps m simp del: bit_numeral_word_iff)
qed

lemma fis_lba_bytes:
  "fis_lba (f\<lparr>fis_lba0 := ucast startl, fis_lba1 := ucast (drop_bit 8 startl), fis_lba2 := ucast (drop_bit 16 startl),
     fis_device := d, fis_lba3 := ucast (drop_bit 24 startl), fis_lba4 := 0, fis_lba5 := 0,
     fis_countl := c, fis_counth := c'\<rparr>) = ucast (startl :: u32)"
  apply (rule bit_word_eqI)
  apply (auto simp: fis_lba_def bit_simps)
  subgoal for n using bit_imp_le_length [of startl n] by simp
  subgoal for n by (cases "24 \<le> n") simp_all
  done

lemma unat_ucast_u32_u64 [simp]: "unat (ucast (x :: u32) :: u64) = unat x"
  by transfer (simp add: take_bit_eq_mod)

lemma find_map: "find P (map f xs) = map_option f (find (\<lambda>x. P (f x)) xs)"
  by (induction xs) auto

lemma find_slot_find:
  "find_slot k w i = (case find (\<lambda>j. \<not> bit w j) [0..<k] of None \<Rightarrow> -1 | Some j \<Rightarrow> i + int j)"
proof (induction k w i rule: find_slot.induct)
  case (2 k slots i)
  have "[0..<Suc k] = 0 # map Suc [0..<k]" by (simp add: upt_conv_Cons map_Suc_upt)
  moreover have "slots AND 1 = 0 \<longleftrightarrow> \<not> bit slots 0" by (simp add: and_one_eq bit_0 even_iff_mod_2_eq_zero)
  ultimately show ?case using 2 by (simp add: find_map bit_drop_bit_eq split: option.split)
qed simp

lemma find_cmdslot_find:
  "find_cmdslot n s =
     (case find (\<lambda>j. \<not> bit (px_sact (port n s) OR px_ci (port n s)) j)
             [0..<unat (drop_bit 8 (hba_cap (hba s) AND 0x0f00))] of None \<Rightarrow> -1 | Some j \<Rightarrow> int j)"
  by (simp add: find_cmdslot_def Let_def find_slot_find split: option.split)

lemma number_of_slots: "unat (drop_bit 8 (c AND 0x0f00 :: u32)) < 16"
proof -
  have "drop_bit 8 (c AND 0x0f00) = drop_bit 8 c AND 0xF" by (simp add: drop_bit_and)
  then have "drop_bit 8 (c AND 0x0f00) \<le> 0xF" by (simp add: word_and_le1)
  then show ?thesis by (simp add: word_le_nat_alt)
qed

lemma find_cmdslot_bound:
  assumes "find_cmdslot n s \<noteq> -1"
  shows "0 \<le> find_cmdslot n s" and "nat (find_cmdslot n s) < 16"
  using assms number_of_slots [of "hba_cap (hba s)"]
  by (auto simp: find_cmdslot_find find_Some_iff split: option.splits)

lemma waits:
  assumes "\<forall>i<k. issued n slot ((dev ^^ Suc i) s)" and "completed n slot s ((dev ^^ Suc k) s)"
    and "px_ci (port n ((dev ^^ Suc k) s)) AND int_shl1 (int slot) = 0"
  shows "wait_command dev n slot s = Some ((dev ^^ Suc k) s, True)"
proof -
  have "wait_command dev n slot ((dev ^^ j) s) = Some ((dev ^^ Suc k) s, True)" if "j \<le> k" for j
    using that
  proof (induction j rule: inc_induct)
    case base
    show ?case using assms(3) by (simp add: wait_command.simps [of dev n slot "(dev ^^ k) s"])
  next
    case (step j)
    then have "issued n slot (dev ((dev ^^ j) s))" using assms(1) by simp
    then show ?case using step.IH by (simp add: wait_command.simps [of dev n slot "(dev ^^ j) s"] issued_def)
  qed
  from this [of 0] show ?thesis by simp
qed

lemma and_zero_kept: "(w :: u32) AND t = 0 \<Longrightarrow> (w AND v) AND t = 0"
  by (metis and.assoc and.commute and_zero_eq)

lemma and_not_and: "(w AND NOT v) AND (v :: u32) = 0"
  by (rule bit_word_eqI) (simp add: bit_simps)

lemma run_command_completed:
  assumes dev: "ahci_device cap n dev" and slot: "slot < 32"
    and p: "px_is (port n s) AND HBA_PxIS_TFES = 0" "px_cmd (port n s) AND HBA_PxCMD_ST \<noteq> 0" "\<forall>m. px_ci (port m s) = 0"
    and c: "command_ok (headers s (cmd_header n slot s)) (tables s (cmd_table n slot s))"
      "unat (fis_lba (cfis (tables s (cmd_table n slot s)))) + fis_count (cfis (tables s (cmd_table n slot s))) \<le> cap"
  shows "\<exists>s'. run_command dev n slot s = Inr (s', 1) \<and> completed n slot (upd_port n (write_ci (int_shl1 (int slot))) s) s'"
proof -
  let ?t = "upd_port n (write_ci (int_shl1 (int slot))) s"
  have a: "cmd_header n slot ?t = cmd_header n slot s" "cmd_table n slot ?t = cmd_table n slot s"
    by (simp_all add: cmd_header_def cmd_table_def Let_def write_ci_def)
  have "issued_alone n slot ?t" using p by (simp add: issued_alone_def write_ci_def)
  moreover have "px_cmd (port n ?t) = px_cmd (port n s)" by (simp add: write_ci_def)
  ultimately obtain k where k: "\<forall>i<k. issued n slot ((dev ^^ Suc i) ?t)" "completed n slot ?t ((dev ^^ Suc k) ?t)"
    using dev slot p(2) c a unfolding ahci_device_def by fastforce
  let ?u = "(dev ^^ Suc k) ?t"
  have u: "px_ci (port n ?u) AND int_shl1 (int slot) = 0" "px_is (port n ?u) AND HBA_PxIS_TFES = 0"
    using k(2) unfolding completed_def Let_def by (auto simp: and_not_and)
  have "wait_command dev n slot ?t = Some (?u, True)" using waits [OF k u(1)] .
  then show ?thesis using u(2) k(2) by (simp add: run_command_def del: funpow.simps)
qed

lemma command_table_simps [simp]:
  "fis_command (cfis (command_table cmd countl startl starth buf)) = cmd"
  "fis_count (cfis (command_table cmd countl startl starth buf)) = unat countl"
  "fis_lba (cfis (command_table cmd countl startl 0 buf)) = ucast startl"
  "prd_buffer (command_table cmd countl startl starth buf) = AHCI_KERN_BASE + buf"
  by (simp_all add: command_table_def fis_count_def prd_buffer_def addr64_split fis_lba_bytes)

lemma setup_simps [simp]:
  "port m (setup_header n slot w s) = port m s" "port m (setup_table n slot t s) = port m s"
  "ram (setup_header n slot w s) = ram s" "ram (setup_table n slot t s) = ram s"
  "disk (setup_header n slot w s) = disk s" "disk (setup_table n slot t s) = disk s"
  "hba (setup_header n slot w s) = hba s" "hba (setup_table n slot t s) = hba s"
  "pages_for_ahci_start_virtual (setup_header n slot w s) = pages_for_ahci_start_virtual s"
  "pages_for_ahci_start_virtual (setup_table n slot t s) = pages_for_ahci_start_virtual s"
  "cmd_header n slot (setup_header n slot w s) = cmd_header n slot s"
  "cmd_header n slot (setup_table n slot t s) = cmd_header n slot s"
  "headers (setup_table n slot t s) = headers s"
  "cmd_table n slot (setup_table n slot t s) = cmd_table n slot s"
  "tables (setup_table n slot t s) (cmd_table n slot s) = t"
  "headers (setup_header n slot w s) (cmd_header n slot s) =
     headers s (cmd_header n slot s)\<lparr>hdr_cfl := 5, hdr_w := w, hdr_c := 1, hdr_prdtl := 1\<rparr>"
  by (simp_all add: setup_header_def setup_table_def cmd_header_def cmd_table_def Let_def)

text \<open>The port is started, has a slot free and no error latched, and no command is in flight.\<close>

definition disk_ready :: "nat \<Rightarrow> ahci_state \<Rightarrow> bool" where
  "disk_ready n s \<longleftrightarrow>
     px_cmd (port n s) AND HBA_PxCMD_ST \<noteq> 0 \<and> find_cmdslot n s \<noteq> -1 \<and> px_is (port n s) AND HBA_PxIS_TFES = 0 \<and>
     (\<forall>m. px_ci (port m s) = 0)"

lemma free_slot_kept:
  assumes "find_cmdslot n s \<noteq> -1" and "px_sact (port n s') = px_sact (port n s)" and "px_ci (port n s') = 0"
    and "hba_cap (hba s') = hba_cap (hba s)"
  shows "find_cmdslot n s' \<noteq> -1"
proof -
  let ?k = "unat (drop_bit 8 (hba_cap (hba s) AND 0x0f00))"
  obtain j where "find (\<lambda>j. \<not> bit (px_sact (port n s) OR px_ci (port n s)) j) [0..<?k] = Some j"
    using assms(1) by (auto simp: find_cmdslot_find simp del: drop_bit_and split: option.splits)
  then have "j \<in> set [0..<?k] \<and> \<not> bit (px_sact (port n s')) j"
    using assms(2) by (auto simp: find_Some_iff bit_or_iff)
  then have "find (\<lambda>j. \<not> bit (px_sact (port n s') OR px_ci (port n s')) j) [0..<?k] \<noteq> None"
    using assms(3) by (simp add: find_None_iff del: set_upt) blast
  then show ?thesis using assms(4) by (auto simp: find_cmdslot_find split: option.splits)
qed

text \<open>What both interfaces do with a free slot and a started port: the data moves, and the port is ready again.\<close>

lemma command_effect:
  assumes dev: "ahci_device cap n dev" and ready: "disk_ready n s"
    and slot: "slot = nat (find_cmdslot n s)"
    and ok: "cmd = ATA_CMD_WRITE_DMA_EXT \<and> w = 1 \<and> countl = 2 \<or> cmd = ATA_CMD_READ_DMA_EXT \<and> w = 0 \<and> countl = 1"
    and cap: "unat startl + unat countl \<le> cap"
  shows "\<exists>s'. run_command dev n slot (setup_table n slot (command_table cmd countl startl 0 buf)
        (setup_header n slot w (upd_port n (write_is 0xffff) s))) = Inr (s', 1) \<and>
      disk s' = moved_disk (command_table cmd countl startl 0 buf) s \<and>
      (\<forall>x. 256 \<le> unat (x - received_fis n s) \<longrightarrow> ram s' x = moved_ram (command_table cmd countl startl 0 buf) s x) \<and>
      disk_ready n s' \<and> received_fis n s' = received_fis n s \<and>
      pages_for_ahci_start_virtual s' = pages_for_ahci_start_virtual s"
proof -
  let ?T = "command_table cmd countl startl 0 buf"
  define u where "u = setup_table n slot ?T (setup_header n slot w (upd_port n (write_is 0xffff) s))"
  define v where "v = upd_port n (write_ci (int_shl1 (int slot))) u"
  have "slot < 32" using find_cmdslot_bound [of n s] ready slot by (simp add: disk_ready_def)
  moreover have "px_is (port n u) AND HBA_PxIS_TFES = 0" 
    using ready by (simp add: u_def disk_ready_def write_is_def and_zero_kept)
  moreover have "px_cmd (port n u) AND HBA_PxCMD_ST \<noteq> 0" using ready by (simp add: u_def disk_ready_def write_is_def)
  moreover have "px_ci (port m u) = 0" for m using ready by (cases "m = n") (simp_all add: u_def disk_ready_def write_is_def)
  moreover have t: "tables u (cmd_table n slot u) = ?T" by (simp add: u_def)
  moreover have "command_ok (headers u (cmd_header n slot u)) ?T"
  proof -
    have "fis_type (cfis ?T) = FIS_TYPE_REG_H2D" "fis_c (cfis ?T) = 1" "fis_device (cfis ?T) = 0x40"
      "prd_dbc (prdt_entry ?T) = 4095" by (simp_all add: command_table_def)
    then show ?thesis using ok by (auto simp: u_def command_ok_def)
  qed
  ultimately obtain s' where s': "run_command dev n slot u = Inr (s', 1)" "completed n slot v s'"
    unfolding v_def using run_command_completed [OF dev, of slot u] cap by auto
  have v: "tables v (cmd_table n slot v) = ?T" "received_fis n v = received_fis n s" "ram v = ram s" "disk v = disk s"
    using t by (simp_all add: v_def u_def cmd_table_def cmd_header_def received_fis_def Let_def write_is_def write_ci_def)
  have m: "moved_disk ?T v = moved_disk ?T s" "moved_ram ?T v = moved_ram ?T s"
    using v(3,4) by (simp_all add: moved_disk_def moved_ram_def cong: if_cong)
  have "disk s' = moved_disk ?T s" "\<forall>x. 256 \<le> unat (x - received_fis n s) \<longrightarrow> ram s' x = moved_ram ?T s x"
    using s'(2) v m unfolding completed_def Let_def by auto
  moreover have f: "px_cmd (port n s') = px_cmd (port n s)" "px_sact (port n s') = px_sact (port n s)"
      "px_ci (port n s') = 0" "px_is (port n s') AND HBA_PxIS_TFES = 0" "hba_cap (hba s') = hba_cap (hba s)"
      "pages_for_ahci_start_virtual s' = pages_for_ahci_start_virtual s" "received_fis n s' = received_fis n s"
      "\<forall>m. m \<noteq> n \<longrightarrow> port m s' = port m s"
    using s'(2) unfolding completed_def Let_def
    using ready by (auto simp: v_def u_def received_fis_def write_is_def write_ci_def disk_ready_def)
  moreover have "disk_ready n s'"
    using free_slot_kept [of n s s'] ready f by (auto simp: disk_ready_def)
  ultimately show ?thesis using s'(1) unfolding u_def by blast
qed

lemma write_interface_effect:
  assumes "ahci_device cap n dev" and "disk_ready n s" and "unat startl + 2 \<le> cap"
  shows "\<exists>s'. write_interface dev n startl 0 count buf s = Inr (s', 1) \<and>
      disk s' = disk_store (unat startl) 2 (\<lambda>i. ram s (AHCI_KERN_BASE + buf + of_nat i)) (disk s) \<and>
      (\<forall>x. 256 \<le> unat (x - received_fis n s) \<longrightarrow> ram s' x = ram s x) \<and>
      disk_ready n s' \<and> received_fis n s' = received_fis n s \<and>
      pages_for_ahci_start_virtual s' = pages_for_ahci_start_virtual s"
proof -
  have "find_cmdslot n (upd_port n (write_is 0xffff) s) = find_cmdslot n s"
    by (simp add: find_cmdslot_def write_is_def)
  then show ?thesis
    using command_effect [OF assms(1,2) refl, of ATA_CMD_WRITE_DMA_EXT 1 2 startl buf] assms(2,3)
    by (simp add: write_interface_def Let_def disk_ready_def moved_disk_def moved_ram_def
        ATA_CMD_WRITE_DMA_EXT_def ATA_CMD_READ_DMA_EXT_def)
qed

lemma read_interface_effect:
  assumes "ahci_device cap n dev" and "disk_ready n s" and "unat startl + 1 \<le> cap"
  shows "\<exists>s'. read_interface dev n startl 0 count buf s = Inr (s', 1) \<and> disk s' = disk s \<and>
      (\<forall>x. 256 \<le> unat (x - received_fis n s) \<longrightarrow>
         ram s' x = (if unat (x - (AHCI_KERN_BASE + buf)) < 512
                     then disk s (512 * unat startl + unat (x - (AHCI_KERN_BASE + buf))) else ram s x)) \<and>
      disk_ready n s' \<and> received_fis n s' = received_fis n s \<and>
      pages_for_ahci_start_virtual s' = pages_for_ahci_start_virtual s"
proof -
  have "find_cmdslot n (upd_port n (write_is 0xffff) s) = find_cmdslot n s"
    by (simp add: find_cmdslot_def write_is_def)
  then show ?thesis
    using command_effect [OF assms(1,2) refl, of ATA_CMD_READ_DMA_EXT 0 1 startl buf] assms(2,3)
    by (simp add: read_interface_def Let_def disk_ready_def moved_disk_def moved_ram_def
        ATA_CMD_WRITE_DMA_EXT_def ATA_CMD_READ_DMA_EXT_def cong: if_cong)
qed

section \<open>The buffers\<close>

lemma store_bytes_apply:
  assumes "length bs < 2 ^ 64"
  shows "store_bytes a bs m x = (if unat (x - a) < length bs then bs ! unat (x - a) else m x)"
proof -
  have "fold (\<lambda>i m. m(a + of_nat i := bs ! i)) [0..<k] m x =
      (if unat (x - a) < k then bs ! unat (x - a) else m x)" if "k \<le> length bs" for k
    using that
  proof (induction k)
    case (Suc k)
    have "unat (of_nat k :: u64) = k" using Suc.prems assms by (simp add: unat_of_nat)
    then have "x = a + of_nat k \<longleftrightarrow> unat (x - a) = k" 
      by (metis add_diff_cancel_left' diff_add_cancel add.commute word_unat_eq_iff)
    then show ?case using Suc by (auto simp: less_Suc_eq)
  qed simp
  then show ?thesis unfolding store_bytes_def by blast
qed

lemma load_bytes_nth [simp]: "length (load_bytes a n m) = n" "i < n \<Longrightarrow> load_bytes a n m ! i = m (a + of_nat i)"
  by (simp_all add: load_bytes_def)

text \<open>The pages of the driver: the received FIS lies 32 KB from their start, outside the read buffer.\<close>

definition ahci_layout :: "ahci_state \<Rightarrow> bool" where
  "ahci_layout s \<longleftrightarrow> disk_ready 0 s \<and> received_fis 0 s = pages_for_ahci_start_virtual s + 32768"

lemma below:
  assumes "k < b" and "b < 2 ^ 32"
  shows "2 ^ 32 \<le> unat (p + of_nat k - (p + of_nat b :: u64))"
proof (rule ccontr)
  define w :: u64 where "w = p + of_nat k - (p + of_nat b)"
  assume "\<not> 2 ^ 32 \<le> unat (p + of_nat k - (p + of_nat b :: u64))"
  then have "unat w < 2 ^ 32" by (simp add: w_def)
  then have "unat (w + of_nat b) = unat w + b" using assms(2) by (simp add: unat_word_ariths unat_of_nat)
  moreover have "w + of_nat b = of_nat k" by (simp add: w_def)
  then have "unat (w + of_nat b) = k" using assms by (simp add: unat_of_nat)
  ultimately show False using assms(1) by simp
qed

lemma below_fis: "k < 32768 \<Longrightarrow> 256 \<le> unat (p + of_nat k - (p + 32768 :: u64))"
  using below [of k 32768 p] by simp

lemma disk_store_cong:
  "(\<And>i. i < 512 * count \<Longrightarrow> f i = g i) \<Longrightarrow> disk_store lba count f d = disk_store lba count g d"
  by (rule ext) (auto simp: disk_store_def)

lemma unat_small_diff: "k < 2 ^ 64 \<Longrightarrow> unat (p + of_nat k - p :: u64) = k"
  by (simp add: unat_of_nat)

text \<open>
  Writing through the buffer: two sectors of it reach the disk, the given bytes and after them what the
  buffer held before. All of the memory below the received FIS but the buffer stays as it is.
\<close>

lemma write_through_effect:
  assumes dev: "ahci_device cap 0 dev" and lay: "ahci_layout s" and len: "length bs < 2 ^ 64" and cap: "unat offset + 2 \<le> cap"
  shows "\<exists>s'. write_through dev offset bs s = Inr (s', 1) \<and>
      disk s' = disk_store (unat offset) 2
        (\<lambda>i. if i < length bs then bs ! i else ram s (write_buffer s + of_nat i)) (disk s) \<and>
      (\<forall>k<32768. ram s' (pages_for_ahci_start_virtual s + of_nat k) =
         store_bytes (write_buffer s) bs (ram s) (pages_for_ahci_start_virtual s + of_nat k)) \<and>
      ahci_layout s' \<and> pages_for_ahci_start_virtual s' = pages_for_ahci_start_virtual s"
proof -
  let ?m = "store_bytes (write_buffer s) bs (ram s)"
  define u where "u = s\<lparr>ram := ?m\<rparr>"
  have u: "disk_ready 0 u" "received_fis 0 u = received_fis 0 s" "ram u = ?m" "disk u = disk s" "write_buffer u = write_buffer s"
      "pages_for_ahci_start_virtual u = pages_for_ahci_start_virtual s"
  proof -
    have "find_cmdslot 0 u = find_cmdslot 0 s" by (simp add: u_def find_cmdslot_def)
    then show "disk_ready 0 u" using lay by (simp add: u_def disk_ready_def ahci_layout_def)
  qed (simp_all add: u_def received_fis_def write_buffer_def)
  obtain s' where s': "write_interface dev 0 offset 0 1 (write_buffer u - 0xFFFFFFFF80000000) u = Inr (s', 1)"
      "disk s' = disk_store (unat offset) 2
        (\<lambda>i. ram u (AHCI_KERN_BASE + (write_buffer u - 0xFFFFFFFF80000000) + of_nat i)) (disk u)"
      "\<forall>x. 256 \<le> unat (x - received_fis 0 u) \<longrightarrow> ram s' x = ram u x" "disk_ready 0 s'"
      "received_fis 0 s' = received_fis 0 u" "pages_for_ahci_start_virtual s' = pages_for_ahci_start_virtual u"
    using write_interface_effect [OF dev u(1) cap, of 1 "write_buffer u - 0xFFFFFFFF80000000"] by blast
  have "disk_store (unat offset) 2 (\<lambda>i. ram u (AHCI_KERN_BASE + (write_buffer u - 0xFFFFFFFF80000000) + of_nat i)) (disk u) =
      disk_store (unat offset) 2 (\<lambda>i. if i < length bs then bs ! i else ram s (write_buffer s + of_nat i)) (disk s)"
  proof -
    have "?m (write_buffer s + of_nat i) = (if i < length bs then bs ! i else ram s (write_buffer s + of_nat i))"
      if "i < 1024" for i
      using that by (simp add: store_bytes_apply [OF len] unat_small_diff unat_of_nat)
    then show ?thesis unfolding u(3-5) by (intro disk_store_cong) (simp add: AHCI_KERN_BASE_def)
  qed
  moreover have "ram s' (pages_for_ahci_start_virtual s + of_nat k) = ?m (pages_for_ahci_start_virtual s + of_nat k)"
    if "k < 32768" for k
    using s'(3) u below_fis [OF that] lay by (simp add: ahci_layout_def)
  moreover have "ahci_layout s'" using s'(4-6) u lay by (simp add: ahci_layout_def)
  ultimately show ?thesis using s' u unfolding write_through_def u_def [symmetric] Let_def by auto
qed

text \<open>Reading fills the first 512 bytes of the read buffer and nothing else.\<close>

lemma read_disk_effect:
  assumes dev: "ahci_device cap 0 dev" and lay: "ahci_layout s" and cap: "unat offset + 1 \<le> cap"
  shows "\<exists>s'. read_disk dev offset s = Inr (s', read_buffer s) \<and> disk s' = disk s \<and>
      (\<forall>k<32768. ram s' (pages_for_ahci_start_virtual s + of_nat k) =
         (if 4096 \<le> k \<and> k < 4608 then disk s (512 * unat offset + (k - 4096))
          else ram s (pages_for_ahci_start_virtual s + of_nat k))) \<and>
      ahci_layout s' \<and> pages_for_ahci_start_virtual s' = pages_for_ahci_start_virtual s"
proof -
  have r: "disk_ready 0 s" using lay by (simp add: ahci_layout_def)
  obtain s' where s': "read_interface dev 0 offset 0 1 (read_buffer s - 0xFFFFFFFF80000000) s = Inr (s', 1)"
      "disk s' = disk s"
      "\<forall>x. 256 \<le> unat (x - received_fis 0 s) \<longrightarrow>
         ram s' x = (if unat (x - (AHCI_KERN_BASE + (read_buffer s - 0xFFFFFFFF80000000))) < 512
                     then disk s (512 * unat offset + unat (x - (AHCI_KERN_BASE + (read_buffer s - 0xFFFFFFFF80000000))))
                     else ram s x)" "disk_ready 0 s'"
      "received_fis 0 s' = received_fis 0 s" "pages_for_ahci_start_virtual s' = pages_for_ahci_start_virtual s"
    using read_interface_effect [OF dev r cap, of 1 "read_buffer s - 0xFFFFFFFF80000000"] by blast
  let ?p = "pages_for_ahci_start_virtual s"
  have "ram s' (?p + of_nat k) = (if 4096 \<le> k \<and> k < 4608 then disk s (512 * unat offset + (k - 4096)) else ram s (?p + of_nat k))"
    if "k < 32768" for k
  proof -
    have b: "AHCI_KERN_BASE + (read_buffer s - 0xFFFFFFFF80000000) = ?p + 4096"
      by (simp add: AHCI_KERN_BASE_def read_buffer_def)
    have "unat (?p + of_nat k - (?p + 4096)) = k - 4096" if "4096 \<le> k"
    proof -
      have "?p + of_nat k - (?p + 4096) = of_nat (k - 4096)" using that by (simp add: of_nat_diff)
      then show ?thesis using \<open>k < 32768\<close> by (simp add: unat_of_nat del: of_nat_diff)
    qed
    moreover have "\<not> unat (?p + of_nat k - (?p + 4096)) < 512" if "\<not> 4096 \<le> k" using below [of k 4096 ?p] that by simp
    moreover have "256 \<le> unat (?p + of_nat k - received_fis 0 s)" using below_fis [OF that] lay by (simp add: ahci_layout_def)
    ultimately show ?thesis using s'(3) unfolding b by auto
  qed
  then show ?thesis
    using s' lay by (simp add: read_disk_def ahci_layout_def read_buffer_def)
qed

text \<open>A device that completes the command in one step, and a driver with all slots free.\<close>

definition example_dev :: "ahci_state \<Rightarrow> ahci_state" where
  "example_dev s =
     (case find (\<lambda>j. px_ci (port 0 s) = int_shl1 (int j)) [0..<32] of
        None \<Rightarrow> s
      | Some j \<Rightarrow>
          let t = tables s (cmd_table 0 j s)
          in (upd_port 0 (\<lambda>p. p\<lparr>px_ci := px_ci p AND NOT (int_shl1 (int j))\<rparr>) s)
               \<lparr>ram := moved_ram t s, disk := moved_disk t s\<rparr>)"

lemma int_shl1_inj: "i < 32 \<Longrightarrow> j < 32 \<Longrightarrow> int_shl1 (int i) = int_shl1 (int j) \<Longrightarrow> i = j"
proof -
  assume a: "i < 32" "j < 32" "int_shl1 (int i) = int_shl1 (int j)"
  have "nat (int k mod 32) = k" if "k < 32" for k using that by simp
  then have "push_bit i (1 :: u32) = push_bit j 1" using a unfolding int_shl1_def by simp
  then have "bit (push_bit i (1 :: u32)) i = bit (push_bit j (1 :: u32)) i" by (simp only:)
  then show "i = j" using a by (simp add: bit_push_bit_iff bit_1_iff del: push_bit_of_1)
qed

lemma example_dev_device: "ahci_device cap 0 example_dev"
  unfolding ahci_device_def
proof (intro allI impI)
  fix slot s
  assume slot: "slot < 32" and i: "issued_alone 0 slot s"
  let ?t = "tables s (cmd_table 0 slot s)"
  have "px_ci (port 0 s) \<noteq> int_shl1 (int j)" if "j < slot" for j
    using that slot i int_shl1_inj [of j slot] by (auto simp: issued_alone_def)
  then have "find (\<lambda>j. px_ci (port 0 s) = int_shl1 (int j)) [0..<32] = Some slot"
    using slot i unfolding issued_alone_def find_Some_iff by (intro exI [of _ slot]) auto
  then have d: "example_dev s = (upd_port 0 (\<lambda>p. p\<lparr>px_ci := px_ci p AND NOT (int_shl1 (int slot))\<rparr>) s)
      \<lparr>ram := moved_ram ?t s, disk := moved_disk ?t s\<rparr>" by (simp add: example_dev_def Let_def)
  have "completed 0 slot s (example_dev s)"
    unfolding completed_def Let_def d
    using i
    by (intro exI [of _ "px_is (port 0 s)"] exI [of _ "px_tfd (port 0 s)"]
        exI [of _ "hdr_prdbc (headers s (cmd_header 0 slot s))"] exI [of _ "moved_ram ?t s"])
      (simp add: issued_alone_def upd_port_def)
  then show "\<exists>k. (\<forall>i<k. issued 0 slot ((example_dev ^^ Suc i) s)) \<and> completed 0 slot s ((example_dev ^^ Suc k) s)"
    by (intro exI [of _ 0]) simp
qed

definition example_port :: HBA_PORT where
  "example_port = \<lparr>px_clb = 0x200000, px_clbu = 0, px_fb = 0x208000, px_fbu = 0, px_is = 0, px_ie = 0, px_cmd = 1,
     px_tfd = 0, px_sig = 0, px_ssts = 0, px_sctl = 0, px_serr = 0, px_sact = 0, px_ci = 0, px_sntf = 0, px_fbs = 0\<rparr>"

definition example_ahci :: ahci_state where
  "example_ahci =
     \<lparr>hba = \<lparr>hba_cap = 0x0100, hba_ghc = 0, hba_is = 0, hba_pi = 1, hba_vs = 0, hba_ccc_ctl = 0, hba_ccc_pts = 0,
              hba_em_loc = 0, hba_em_ctl = 0, hba_cap2 = 0, hba_bohc = 0, hba_ports = (\<lambda>_. example_port)\<rparr>,
      headers = (\<lambda>_. zero_header), tables = (\<lambda>_. zero_table), ram = (\<lambda>_. 0), disk = (\<lambda>_. 0),
      pages_for_ahci_start = 0x200000, pages_for_ahci_start_virtual = 0xFFFFFFFF80200000\<rparr>"

lemma example_ahci_layout: "ahci_layout example_ahci"
  by (simp add: ahci_layout_def disk_ready_def received_fis_def example_ahci_def example_port_def port_def
      find_cmdslot_def addr64_def AHCI_KERN_BASE_def HBA_PxCMD_ST_def HBA_PxIS_TFES_def Let_def)

section \<open>Properties\<close>

text \<open>
  \<open>find_cmdslot\<close> returns the least slot whose bit is clear in both \<open>PxSACT\<close> and \<open>PxCI\<close>, among the slots
  the code takes the adapter to have, and \<open>-1\<close> exactly when there is none.
\<close>

theorem find_cmdslot_least:
  "if \<exists>j<unat (drop_bit 8 (hba_cap (hba s) AND 0x0f00)). \<not> bit (px_sact (port n s)) j \<and> \<not> bit (px_ci (port n s)) j
   then find_cmdslot n s = int (LEAST j. \<not> bit (px_sact (port n s)) j \<and> \<not> bit (px_ci (port n s)) j)
   else find_cmdslot n s = -1"
proof -
  let ?P = "\<lambda>j. \<not> bit (px_sact (port n s)) j \<and> \<not> bit (px_ci (port n s)) j"
  let ?k = "unat (drop_bit 8 (hba_cap (hba s) AND 0x0f00))"
  have e: "find_cmdslot n s = (case find ?P [0..<?k] of None \<Rightarrow> -1 | Some j \<Rightarrow> int j)"
    by (simp add: find_cmdslot_find bit_or_iff)
  show ?thesis
  proof (cases "find ?P [0..<?k]")
    case None
    then have "\<not> (\<exists>j<?k. ?P j)" by (auto simp: find_None_iff)
    then show ?thesis using e None by simp
  next
    case (Some j)
    then have j: "j < ?k" "?P j" "\<forall>i<j. \<not> ?P i" by (auto simp: find_Some_iff)
    then have "(LEAST j. ?P j) = j" by (intro Least_equality) (auto simp: not_less [symmetric])
    then show ?thesis using e Some j by auto
  qed
qed

text \<open>
  C20. Writing a string of at most 512 bytes with \<open>write_disk\<close> and reading the same sector back with \<open>read_disk\<close>
  returns the string, on any device that does what the AHCI documents say, for sectors that the disk has. But the write always takes
  two sectors: the sector after the one written is overwritten with the second half of the buffer, and
  the rest of the disk is untouched.
\<close>

theorem write_read_disk:
  assumes dev: "ahci_device cap 0 dev" and lay: "ahci_layout s" and len: "length bs \<le> 512" and cap: "unat offset + 2 \<le> cap"
  shows "\<exists>s1 s2. write_disk dev offset bs s = Inr (s1, 1) \<and> read_disk dev offset s1 = Inr (s2, read_buffer s) \<and>
    load_bytes (read_buffer s) (length bs) (ram s2) = bs \<and>
    (\<forall>x<512. disk s2 (512 * (unat offset + 1) + x) = ram s (write_buffer s + 512 + of_nat x)) \<and>
    (\<forall>x. x < 512 * unat offset \<or> 512 * (unat offset + 2) \<le> x \<longrightarrow> disk s2 x = disk s x)"
proof -
  let ?p = "pages_for_ahci_start_virtual s"
  obtain s1 where s1: "write_through dev offset bs s = Inr (s1, 1)"
      "disk s1 = disk_store (unat offset) 2 (\<lambda>i. if i < length bs then bs ! i else ram s (write_buffer s + of_nat i)) (disk s)"
      "ahci_layout s1" "pages_for_ahci_start_virtual s1 = ?p"
    using write_through_effect [OF dev lay _ cap, of bs] len by auto
  obtain s2 where s2: "read_disk dev offset s1 = Inr (s2, read_buffer s)" "disk s2 = disk s1"
      "\<And>k. k < 32768 \<Longrightarrow> ram s2 (?p + of_nat k) =
         (if 4096 \<le> k \<and> k < 4608 then disk s1 (512 * unat offset + (k - 4096)) else ram s1 (?p + of_nat k))"
    using read_disk_effect [OF dev s1(3), of offset] cap s1(4) by (auto simp: read_buffer_def)
  have "load_bytes (read_buffer s) (length bs) (ram s2) = bs"
  proof (rule nth_equalityI)
    fix i assume "i < length (load_bytes (read_buffer s) (length bs) (ram s2))"
    then have i: "i < length bs" by simp
    then show "load_bytes (read_buffer s) (length bs) (ram s2) ! i = bs ! i"
      using s2(3) [of "4096 + i"] len s1(2) by (simp add: read_buffer_def disk_store_def add.assoc)
  qed simp
  moreover have "disk s2 (512 * (unat offset + 1) + x) = ram s (write_buffer s + 512 + of_nat x)" if "x < 512" for x
    using that len s1(2) s2(2) by (simp add: disk_store_def add.assoc)
  moreover have "disk s2 x = disk s x" if "x < 512 * unat offset \<or> 512 * (unat offset + 2) \<le> x" for x
    using that s1(2) s2(2) by (auto simp: disk_store_def)
  ultimately show ?thesis using s1(1) s2(1) unfolding write_disk_def by blast
qed

theorem write_read_disk_witness:
  "\<exists>s1 s2. write_disk example_dev 7 [72, 105] example_ahci = Inr (s1, 1) \<and>
     read_disk example_dev 7 s1 = Inr (s2, read_buffer example_ahci) \<and>
     load_bytes (read_buffer example_ahci) 2 (ram s2) = [72, 105]"
proof -
  have "unat (7 :: u32) + 2 \<le> 32768" "length [72, 105 :: u8] \<le> 512" by simp_all
  from write_read_disk [OF example_dev_device example_ahci_layout this(2,1)] obtain s1 s2 where
    "write_disk example_dev 7 [72, 105] example_ahci = Inr (s1, 1)" "read_disk example_dev 7 s1 = Inr (s2, read_buffer example_ahci)"
    "load_bytes (read_buffer example_ahci) (length [72, 105 :: u8]) (ram s2) = [72, 105]" by blast
  then show ?thesis by (auto simp: numeral_2_eq_2)
qed

end
