(* ===== verification/File_System.thy ===== *)
theory File_System
  imports Fs_Alloc Ahci Std_Fns
begin

text \<open>
  The file system of \<open>sys/fs.c\<close> with the structures of \<open>include/fs.h\<close>: superblock, block bitmap and inodes in
  memory, their images on the disk, and the operations on files. \<open>dev\<close> is the device of the driver.

  The structures are copied to and from the disk byte by byte: their images are lists of bytes, little
  endian, with the layout of the compiler (an inode takes 128 bytes, \<open>bool\<close> being an enumeration of four
  bytes). The four bytes of padding of an inode, which nothing reads, are zero. The messages printed are
  left out, but for the listing of \<open>ls_fs\<close>.
\<close>

section \<open>Structures and their images\<close>

record super_block =
  no_blocks :: u64
  no_inodes :: u64
  start_bitmap :: u64
  start_inodes :: u64
  start_blocks :: u64

record inodes =
  ino_name :: "u8 list"
  ino_position :: u32
  ino_size :: u32
  ino_start_block :: u64
  ino_usage :: u32
  ino_type :: u32

record fs_state =
  ahci :: ahci_state
  sb :: super_block
  fs_mmgr :: file_mmgr_state
  inode_list :: "inodes list"

definition TYPE_FILE :: u32 where
  "TYPE_FILE = 1"

definition TYPE_DIR :: u32 where
  "TYPE_DIR = 0"

definition INODE_COUNT :: nat where
  "INODE_COUNT = 100"

definition BITMAP_COUNT :: nat where
  "BITMAP_COUNT = 1100 * 8"

definition INFLATE_CONSTANT :: int where
  "INFLATE_CONSTANT = 100"

definition sb_bytes :: "super_block \<Rightarrow> u8 list" where
  "sb_bytes b = le_bytes 8 (no_blocks b) @ le_bytes 8 (no_inodes b) @ le_bytes 8 (start_bitmap b) @
     le_bytes 8 (start_inodes b) @ le_bytes 8 (start_blocks b)"

definition sb_of_bytes :: "u8 list \<Rightarrow> super_block" where
  "sb_of_bytes bs = \<lparr>no_blocks = le_word (take 8 bs), no_inodes = le_word (take 8 (drop 8 bs)),
     start_bitmap = le_word (take 8 (drop 16 bs)), start_inodes = le_word (take 8 (drop 24 bs)),
     start_blocks = le_word (take 8 (drop 32 bs))\<rparr>"

definition map_bytes :: "u64 list \<Rightarrow> u8 list" where
  "map_bytes m = concat (map (le_bytes 8) m)"

definition map_of_bytes :: "nat \<Rightarrow> u8 list \<Rightarrow> u64 list" where
  "map_of_bytes n bs = map (\<lambda>i. le_word (take 8 (drop (8 * i) bs))) [0..<n]"

definition inode_bytes :: "inodes \<Rightarrow> u8 list" where
  "inode_bytes e = ino_name e @ le_bytes 4 (ino_position e) @ le_bytes 4 (ino_size e) @ replicate 4 0 @
     le_bytes 8 (ino_start_block e) @ le_bytes 4 (ino_usage e) @ le_bytes 4 (ino_type e)"

definition inode_of_bytes :: "u8 list \<Rightarrow> inodes" where
  "inode_of_bytes bs = \<lparr>ino_name = take 100 bs, ino_position = le_word (take 4 (drop 100 bs)),
     ino_size = le_word (take 4 (drop 104 bs)), ino_start_block = le_word (take 8 (drop 112 bs)),
     ino_usage = le_word (take 4 (drop 120 bs)), ino_type = le_word (take 4 (drop 124 bs))\<rparr>"

definition inodes_bytes :: "inodes list \<Rightarrow> u8 list" where
  "inodes_bytes es = concat (map inode_bytes es)"

definition inodes_of_bytes :: "nat \<Rightarrow> u8 list \<Rightarrow> inodes list" where
  "inodes_of_bytes n bs = map (\<lambda>i. inode_of_bytes (take 128 (drop (128 * i) bs))) [0..<n]"

definition zero_inode :: inodes where
  "zero_inode = \<lparr>ino_name = replicate 100 0, ino_position = 0, ino_size = 0, ino_start_block = 0, ino_usage = 0, ino_type = 0\<rparr>"

section \<open>Operations\<close>

definition inflate :: "int \<Rightarrow> int" where
  "inflate fd = fd + INFLATE_CONSTANT"

definition deflate :: "int \<Rightarrow> int" where
  "deflate fd = fd - INFLATE_CONSTANT"

definition write_disk_superblock :: "(ahci_state \<Rightarrow> ahci_state) \<Rightarrow> u32 \<Rightarrow> super_block \<Rightarrow> ahci_state \<Rightarrow> (ahci_state \<times> int) res" where
  "write_disk_superblock dev offset b a = write_through dev offset (sb_bytes b) a"

definition write_disk_memory_map :: "(ahci_state \<Rightarrow> ahci_state) \<Rightarrow> u32 \<Rightarrow> u64 list \<Rightarrow> ahci_state \<Rightarrow> (ahci_state \<times> int) res" where
  "write_disk_memory_map dev offset m a = write_through dev offset (take BITMAP_COUNT (map_bytes m)) a"

definition write_disk_inode :: "(ahci_state \<Rightarrow> ahci_state) \<Rightarrow> u32 \<Rightarrow> inodes list \<Rightarrow> ahci_state \<Rightarrow> (ahci_state \<times> int) res" where
  "write_disk_inode dev offset es a = write_through dev offset (inodes_bytes es) a"

text \<open>
  What \<open>update_structures\<close> and the second half of \<open>rsync\<close> both do: read superblock, bitmap and inodes. Each
  is copied in full from the read buffer, into which \<open>read_disk\<close> brings one sector.
\<close>

definition load_structures :: "(ahci_state \<Rightarrow> ahci_state) \<Rightarrow> fs_state \<Rightarrow> fs_state res" where
  "load_structures dev s =
     rbind (read_disk dev 0 (ahci s)) (\<lambda>(a, sbp).
     let b = sb_of_bytes (load_bytes sbp 40 (ram a));
         bitmap_offset = start_bitmap b;
         node_offset = start_inodes b
     in rbind (read_disk dev (ucast bitmap_offset) a) (\<lambda>(a, d).
        let m = map_of_bytes 1100 (load_bytes d BITMAP_COUNT (ram a))
        in rbind (read_disk dev (ucast node_offset) a) (\<lambda>(a, d1).
           let es = inodes_of_bytes INODE_COUNT (load_bytes d1 12800 (ram a))
           in Inr (s\<lparr>ahci := a, sb := b, fs_mmgr := (fs_mmgr s)\<lparr>file_mmgr_memory_map := m\<rparr>, inode_list := es\<rparr>))))"

definition update_structures :: "(ahci_state \<Rightarrow> ahci_state) \<Rightarrow> fs_state \<Rightarrow> fs_state res" where
  "update_structures dev s = load_structures dev s"

definition store_structures :: "(ahci_state \<Rightarrow> ahci_state) \<Rightarrow> fs_state \<Rightarrow> fs_state res" where
  "store_structures dev s =
     rbind (write_disk_superblock dev 0 (sb s) (ahci s)) (\<lambda>(a, _).
     rbind (write_disk_memory_map dev 1 (file_mmgr_memory_map (fs_mmgr s)) a) (\<lambda>(a, _).
     rbind (write_disk_inode dev 3 (inode_list s) a) (\<lambda>(a, _).
     Inr (s\<lparr>ahci := a\<rparr>))))"

definition rsync :: "(ahci_state \<Rightarrow> ahci_state) \<Rightarrow> fs_state \<Rightarrow> fs_state res" where
  "rsync dev s = rbind (store_structures dev s) (load_structures dev)"

definition create_superblock :: "fs_state \<Rightarrow> fs_state res" where
  "create_superblock s =
     (let b = (sb s)\<lparr>no_blocks := 65536, no_inodes := 124, start_bitmap := 1, start_inodes := 3, start_blocks := 6\<rparr>
      in rbind (memset_u64 (file_mmgr_memory_map (fs_mmgr s)) 0 8800) (\<lambda>m.
         Inr (s\<lparr>sb := b, fs_mmgr := (fs_mmgr s)\<lparr>file_mmgr_memory_map := m\<rparr>, inode_list := replicate INODE_COUNT zero_inode\<rparr>)))"

fun free_inode_loop :: "nat \<Rightarrow> int \<Rightarrow> inodes list \<Rightarrow> (inodes list \<times> int) res" where
  "free_inode_loop 0 i es = Inr (es, -1)"
| "free_inode_loop (Suc k) i es =
     rbind (arr_get es i) (\<lambda>e.
     if ino_usage e \<noteq> 1
     then rbind (arr_set es i (e\<lparr>ino_usage := 1\<rparr>)) (\<lambda>es. Inr (es, i))
     else free_inode_loop k (i + 1) es)"

definition get_free_inode :: "fs_state \<Rightarrow> (fs_state \<times> int) res" where
  "get_free_inode s =
     rbind (free_inode_loop INODE_COUNT 0 (inode_list s)) (\<lambda>(es, i). Inr (s\<lparr>inode_list := es\<rparr>, i))"

definition get_free_block :: "fs_state \<Rightarrow> (fs_state \<times> int) res" where
  "get_free_block s =
     rbind (file_mmgr_alloc_block (fs_mmgr s)) (\<lambda>(m, block). Inr (s\<lparr>fs_mmgr := m\<rparr>, block))"

fun find_inode_loop :: "nat \<Rightarrow> int \<Rightarrow> u32 \<Rightarrow> u8 list \<Rightarrow> inodes list \<Rightarrow> int res" where
  "find_inode_loop 0 i typ nm es = Inr (-1)"
| "find_inode_loop (Suc k) i typ nm es =
     rbind (arr_get es i) (\<lambda>e.
     rbind (strcmp (ino_name e) nm) (\<lambda>r.
     if r = 0 \<and> ino_type e = typ then Inr i else find_inode_loop k (i + 1) typ nm es))"

definition find_file :: "u8 list \<Rightarrow> fs_state \<Rightarrow> int res" where
  "find_file nm s = find_inode_loop INODE_COUNT 0 TYPE_FILE nm (inode_list s)"

definition find_directory :: "u8 list \<Rightarrow> fs_state \<Rightarrow> int res" where
  "find_directory nm s = find_inode_loop INODE_COUNT 0 TYPE_DIR nm (inode_list s)"

text \<open>The string written is the text before the terminator of \<open>contents\<close>.\<close>

definition flush_blocks :: "(ahci_state \<Rightarrow> ahci_state) \<Rightarrow> int \<Rightarrow> u8 list \<Rightarrow> fs_state \<Rightarrow> fs_state res" where
  "flush_blocks dev block_number contents s =
     rbind (strlen contents) (\<lambda>n.
     rbind (write_disk dev (word_of_int block_number) (take (nat n) contents) (ahci s)) (\<lambda>(a, _).
     Inr (s\<lparr>ahci := a\<rparr>)))"

definition upd_inode :: "int \<Rightarrow> (inodes \<Rightarrow> inodes) \<Rightarrow> fs_state \<Rightarrow> fs_state res" where
  "upd_inode i f s =
     rbind (arr_get (inode_list s) i) (\<lambda>e.
     rbind (arr_set (inode_list s) i (f e)) (\<lambda>es. Inr (s\<lparr>inode_list := es\<rparr>)))"

text \<open>Copying a name into an inode.\<close>

definition set_name :: "int \<Rightarrow> u8 list \<Rightarrow> fs_state \<Rightarrow> fs_state res" where
  "set_name i nm s =
     rbind (arr_get (inode_list s) i) (\<lambda>e.
     rbind (strlen nm) (\<lambda>n.
     rbind (strncpy (ino_name e) nm (word_of_int n)) (\<lambda>d. upd_inode i (\<lambda>e. e\<lparr>ino_name := d\<rparr>) s)))"

definition create_file :: "(ahci_state \<Rightarrow> ahci_state) \<Rightarrow> u8 list \<Rightarrow> fs_state \<Rightarrow> (fs_state \<times> int) res" where
  "create_file dev nm s =
     rbind (find_file nm s) (\<lambda>r.
     if r \<noteq> -1 then Inr (s, -1)
     else
       rbind (get_free_inode s) (\<lambda>(s, inode).
       rbind (get_free_block s) (\<lambda>(s, sector_block).
       if inode = -1 \<or> sector_block = -1 then Inr (s, -1)
       else
         rbind (set_name inode nm s) (\<lambda>s.
         rbind (upd_inode inode (\<lambda>e. e\<lparr>ino_start_block := u64_of_int sector_block, ino_type := TYPE_FILE\<rparr>) s) (\<lambda>s.
         rbind (rsync dev s) (\<lambda>s. Inr (s, inflate inode)))))))"

definition write_file :: "(ahci_state \<Rightarrow> ahci_state) \<Rightarrow> u8 list \<Rightarrow> int \<Rightarrow> fs_state \<Rightarrow> (fs_state \<times> int) res" where
  "write_file dev contents fd s =
     (let inode = deflate fd in
      if inode = -1 then Inr (s, -1)
      else
        rbind (strlen contents) (\<lambda>n.
        rbind (upd_inode inode (\<lambda>e. e\<lparr>ino_size := word_of_int n\<rparr>) s) (\<lambda>s.
        rbind (rsync dev s) (\<lambda>s.
        rbind (arr_get (inode_list s) inode) (\<lambda>e.
        rbind (flush_blocks dev (int_of_u64 (ino_start_block e)) contents s) (\<lambda>s. Inr (s, 1)))))))"

definition create_write_file :: "(ahci_state \<Rightarrow> ahci_state) \<Rightarrow> u8 list \<Rightarrow> u8 list \<Rightarrow> fs_state \<Rightarrow> fs_state res" where
  "create_write_file dev nm contents s =
     rbind (create_file dev nm s) (\<lambda>(s, fd). rbind (write_file dev contents fd s) (\<lambda>(s, _). Inr s))"

definition make_directory :: "(ahci_state \<Rightarrow> ahci_state) \<Rightarrow> u8 list \<Rightarrow> fs_state \<Rightarrow> (fs_state \<times> int) res" where
  "make_directory dev nm s =
     rbind (find_directory nm s) (\<lambda>r.
     if r \<noteq> -1 then Inr (s, -1)
     else
       rbind (get_free_inode s) (\<lambda>(s, inode).
       rbind (set_name inode nm s) (\<lambda>s.
       rbind (upd_inode inode (\<lambda>e. e\<lparr>ino_size := 0, ino_start_block := 0, ino_usage := 1, ino_type := TYPE_DIR\<rparr>) s) (\<lambda>s.
       rbind (rsync dev s) (\<lambda>s. Inr (s, inode))))))"

definition get_file_descriptor :: "u8 list \<Rightarrow> fs_state \<Rightarrow> int res" where
  "get_file_descriptor nm s = find_file nm s"

text \<open>The new position is computed in \<open>uint32_t\<close>, the type of the inode's fields.\<close>

definition seek_file :: "int \<Rightarrow> int \<Rightarrow> fs_state \<Rightarrow> fs_state res" where
  "seek_file fd position s =
     (let inode = deflate fd in
      rbind (arr_get (inode_list s) inode) (\<lambda>e.
      if ino_size e = 0 then Inl DivByZero
      else upd_inode inode (\<lambda>e. e\<lparr>ino_position := (word_of_int position + ino_position e) mod ino_size e\<rparr>) s))"

text \<open>The loop that moves the pointer \<open>contents\<close> forward.\<close>

fun advance :: "nat \<Rightarrow> u64 \<Rightarrow> u64" where
  "advance 0 contents = contents"
| "advance (Suc position) contents = advance position (contents + 1)"

text \<open>\<open>memcpy\<close> from memory into the caller's array.\<close>

definition copy_out :: "u8 list \<Rightarrow> u8 list \<Rightarrow> u8 list res" where
  "copy_out buf bs = (if length bs \<le> length buf then Inr (bs @ drop (length bs) buf) else Inl OutOfBounds)"

text \<open>
  A position beyond the range of \<open>int\<close> makes the loop count down past the least \<open>int\<close>, which C leaves undefined.
\<close>

definition read_file :: "(ahci_state \<Rightarrow> ahci_state) \<Rightarrow> int \<Rightarrow> int \<Rightarrow> u8 list \<Rightarrow> fs_state \<Rightarrow> (fs_state \<times> u8 list option) res" where
  "read_file dev fd count buf s =
     (let inode = deflate fd in
      if inode = -1 then Inr (s, None)
      else
        rbind (arr_get (inode_list s) inode) (\<lambda>e.
        rbind (read_disk dev (ucast (ino_start_block e)) (ahci s)) (\<lambda>(a, contents).
        let position = sint (ino_position e) in
        if position < 0 then Inl Halt
        else
          let contents = advance (nat position) contents in
          rbind (copy_out buf (replicate 8 0)) (\<lambda>buf.
          rbind (copy_out buf (load_bytes contents (unat (word_of_int count :: u32)) (ram a))) (\<lambda>buf.
          if ino_size e = 0 then Inl DivByZero
          else
            rbind (upd_inode inode (\<lambda>e. e\<lparr>ino_position := (word_of_int (position + count)) mod ino_size e\<rparr>) (s\<lparr>ahci := a\<rparr>)) (\<lambda>s.
            Inr (s, Some buf)))))))"

text \<open>The local array of \<open>read_file_by_name\<close> is not initialised: its bytes are an argument.\<close>

definition read_file_by_name :: "(ahci_state \<Rightarrow> ahci_state) \<Rightarrow> u8 list \<Rightarrow> u8 list \<Rightarrow> fs_state \<Rightarrow> (fs_state \<times> u8 list option) res" where
  "read_file_by_name dev nm buf s =
     rbind (get_file_descriptor nm s) (\<lambda>fd. read_file dev fd 100 buf s)"

text \<open>The lines printed: the name, and whether it is printed as a directory.\<close>

definition ls_fs :: "(ahci_state \<Rightarrow> ahci_state) \<Rightarrow> fs_state \<Rightarrow> (fs_state \<times> (u8 list \<times> bool) list) res" where
  "ls_fs dev s =
     rbind (update_structures dev s) (\<lambda>s.
     Inr (s, map (\<lambda>e. (cstring (ino_name e), ino_size e = 0))
               (filter (\<lambda>e. ino_usage e = 1) (take (INODE_COUNT - 95) (inode_list s)))))"

definition set_sb :: "(ahci_state \<Rightarrow> ahci_state) \<Rightarrow> fs_state \<Rightarrow> fs_state res" where
  "set_sb dev s =
     rbind (create_superblock s) (\<lambda>s.
     rbind (rsync dev s) (\<lambda>s.
     rbind (rfold (\<lambda>i m. file_mmgr_set_block (int i) m) [0..<6] (fs_mmgr s)) (\<lambda>m.
     rsync dev (s\<lparr>fs_mmgr := m\<rparr>))))"

section \<open>Images\<close>

lemma le_bytes_length [simp]: "length (le_bytes k w) = k"
  by (simp add: le_bytes_def)

lemma bit_le_word:
  "bit (le_word bs :: 'a::len word) n \<longleftrightarrow> n < LENGTH('a) \<and> n div 8 < length bs \<and> bit (bs ! (n div 8)) (n mod 8)"
proof (induction bs arbitrary: n)
  case (Cons b bs)
  have "bit b n \<Longrightarrow> n < 8" using bit_imp_le_length [of b n] by simp
  moreover have "n div 8 = Suc ((n - 8) div 8)" "n mod 8 = (n - 8) mod 8" if "8 \<le> n"
    using that by (simp_all add: le_div_geq le_mod_geq)
  ultimately show ?case using Cons.IH [of "n - 8"]
    by (cases "n < 8") (auto simp: bit_or_iff bit_push_bit_iff bit_unsigned_iff)
qed simp

lemma le_word_bytes: "8 * k = LENGTH('a) \<Longrightarrow> le_word (le_bytes k w) = (w :: 'a::len word)"
proof (rule bit_word_eqI)
  fix n assume k: "8 * k = LENGTH('a)" and n: "n < LENGTH('a)"
  then have "n div 8 < k" by (simp add: less_mult_imp_div_less mult.commute)
  then have "le_bytes k w ! (n div 8) = ucast (drop_bit (8 * (n div 8)) w)" by (simp add: le_bytes_def)
  moreover have "8 * (n div 8) + n mod 8 = n" by simp
  ultimately show "bit (le_word (le_bytes k w) :: 'a word) n = bit w n"
    using n \<open>n div 8 < k\<close> by (simp add: bit_le_word bit_unsigned_iff bit_drop_bit_eq)
qed

lemma le_word_bytes_simps [simp]: "le_word (le_bytes 8 (w :: u64)) = w" "le_word (le_bytes 4 (v :: u32)) = v"
  by (simp_all add: le_word_bytes)

lemma sb_bytes_length [simp]: "length (sb_bytes b) = 40"
  by (simp add: sb_bytes_def)

lemma sb_of_bytes: "sb_of_bytes (sb_bytes b @ bs) = b"
  by (simp add: sb_of_bytes_def sb_bytes_def)

lemma inode_bytes_length [simp]: "length (ino_name e) = 100 \<Longrightarrow> length (inode_bytes e) = 128"
  by (simp add: inode_bytes_def)

lemma inode_of_bytes: "length (ino_name e) = 100 \<Longrightarrow> inode_of_bytes (inode_bytes e) = e"
  by (simp add: inode_of_bytes_def inode_bytes_def)

text \<open>A chunk of a concatenation of lists of the same length.\<close>

lemma concat_chunk:
  assumes "\<forall>x\<in>set xs. length x = k" and "i < length xs"
  shows "take k (drop (k * i) (concat xs)) = xs ! i"
  using assms
proof (induction xs arbitrary: i)
  case (Cons x xs)
  then show ?case by (cases i) simp_all
qed simp

lemma concat_chunks_length: "\<forall>x\<in>set xs. length x = k \<Longrightarrow> length (concat xs) = k * length xs"
  by (induction xs) simp_all

text \<open>A chunk that lies within the first \<open>n\<close> bytes.\<close>

lemma chunk_prefix: "k * i + k \<le> n \<Longrightarrow> n \<le> length bs \<Longrightarrow> take k (drop (k * i) (take n bs @ r)) = take k (drop (k * i) bs)"
  by (simp add: drop_take min_def) arith

definition inodes_ok :: "inodes list \<Rightarrow> bool" where
  "inodes_ok es \<longleftrightarrow> length es = 100 \<and> (\<forall>e\<in>set es. length (ino_name e) = 100)"

lemma map_bytes_length: "length (map_bytes m) = 8 * length m"
  unfolding map_bytes_def by (subst concat_chunks_length [where k = 8]) auto

lemma inodes_bytes_length: "inodes_ok es \<Longrightarrow> length (inodes_bytes es) = 12800"
  unfolding inodes_bytes_def by (subst concat_chunks_length [where k = 128]) (auto simp: inodes_ok_def)

text \<open>What comes back when the first sector of an image is read in front of other bytes.\<close>

lemma inodes_of_sector:
  assumes "inodes_ok es" and "i < 4"
  shows "inodes_of_bytes 100 (take 512 (inodes_bytes es) @ r) ! i = es ! i"
proof -
  have "length (ino_name (es ! i)) = 100" using assms by (simp add: inodes_ok_def)
  moreover have "take 128 (drop (128 * i) (inodes_bytes es)) = inode_bytes (es ! i)"
    using assms unfolding inodes_bytes_def by (subst concat_chunk) (auto simp: inodes_ok_def)
  ultimately show ?thesis
    using assms chunk_prefix [of 128 i 512 "inodes_bytes es" r]
    by (simp add: inodes_of_bytes_def inode_of_bytes inodes_bytes_length)
qed

lemma map_of_sector:
  assumes "length m = 1100" and "i < 64"
  shows "map_of_bytes 1100 (take 512 (take 8800 (map_bytes m)) @ r) ! i = m ! i"
proof -
  have "take 8 (drop (8 * i) (map_bytes m)) = le_bytes 8 (m ! i)"
    using assms unfolding map_bytes_def by (subst concat_chunk) auto
  then show ?thesis
    using assms chunk_prefix [of 8 i 512 "map_bytes m" r] by (simp add: map_of_bytes_def map_bytes_length)
qed

lemma inodes_of_bytes_ok: "length bs = 12800 \<Longrightarrow> inodes_ok (inodes_of_bytes 100 bs)"
  by (auto simp: inodes_ok_def inodes_of_bytes_def inode_of_bytes_def)

section \<open>The buffers of the driver\<close>

text \<open>Byte \<open>k\<close> of the pages of the driver: the read buffer is at 4096, the write buffer at 20480.\<close>

definition page_byte :: "ahci_state \<Rightarrow> nat \<Rightarrow> u8" where
  "page_byte a k = ram a (pages_for_ahci_start_virtual a + of_nat k)"

lemma write_page_bytes:
  assumes dev: "ahci_device cap 0 dev" and lay: "ahci_layout a" and len: "length bs \<le> 12800" and cap: "unat offset + 2 \<le> cap"
  shows "\<exists>a'. write_through dev offset bs a = Inr (a', 1) \<and> ahci_layout a' \<and>
      disk a' = disk_store (unat offset) 2 (\<lambda>i. if i < length bs then bs ! i else page_byte a (20480 + i)) (disk a) \<and>
      (\<forall>k<32768. page_byte a' k = (if 20480 \<le> k \<and> k < 20480 + length bs then bs ! (k - 20480) else page_byte a k))"
proof -
  let ?p = "pages_for_ahci_start_virtual a"
  have "length bs < 2 ^ 64" using len by simp
  from write_through_effect [OF dev lay this cap] obtain a' where a': "write_through dev offset bs a = Inr (a', 1)"
      "disk a' = disk_store (unat offset) 2 (\<lambda>i. if i < length bs then bs ! i else ram a (write_buffer a + of_nat i)) (disk a)"
      "\<forall>k<32768. ram a' (?p + of_nat k) = store_bytes (write_buffer a) bs (ram a) (?p + of_nat k)"
      "ahci_layout a'" "pages_for_ahci_start_virtual a' = ?p" by blast
  have "store_bytes (write_buffer a) bs (ram a) (?p + of_nat k) =
      (if 20480 \<le> k \<and> k < 20480 + length bs then bs ! (k - 20480) else ram a (?p + of_nat k))" if "k < 32768" for k
  proof (cases "20480 \<le> k")
    case True
    then have "?p + of_nat k - write_buffer a = of_nat (k - 20480)" by (simp add: write_buffer_def of_nat_diff)
    then have "unat (?p + of_nat k - write_buffer a) = k - 20480" using that by (simp add: unat_of_nat)
    then show ?thesis using True \<open>length bs < 2 ^ 64\<close> by (auto simp: store_bytes_apply)
  next
    case False
    then have "2 ^ 32 \<le> unat (?p + of_nat k - write_buffer a)" using below [of k 20480 ?p] by (simp add: write_buffer_def)
    then show ?thesis using False len \<open>length bs < 2 ^ 64\<close> by (simp add: store_bytes_apply)
  qed
  then have "\<forall>k<32768. page_byte a' k = (if 20480 \<le> k \<and> k < 20480 + length bs then bs ! (k - 20480) else page_byte a k)"
    using a'(3,5) by (simp add: page_byte_def)
  moreover have "ram a (write_buffer a + of_nat i) = page_byte a (20480 + i)" for i
    by (simp add: page_byte_def write_buffer_def add.assoc)
  ultimately show ?thesis using a'(1,2,4) by (intro exI [of _ a']) (simp only: simp_thms)
qed

lemma read_page_bytes:
  assumes "ahci_device cap 0 dev" and "ahci_layout a" and "unat offset + 1 \<le> cap"
  shows "\<exists>a'. read_disk dev offset a = Inr (a', read_buffer a) \<and> ahci_layout a' \<and> disk a' = disk a \<and>
      (\<forall>k<32768. page_byte a' k = (if 4096 \<le> k \<and> k < 4608 then disk a (512 * unat offset + (k - 4096)) else page_byte a k)) \<and>
      (\<forall>n. load_bytes (read_buffer a) n (ram a') = map (\<lambda>i. page_byte a' (4096 + i)) [0..<n])"
proof -
  let ?p = "pages_for_ahci_start_virtual a"
  from read_disk_effect [OF assms] obtain a' where a': "read_disk dev offset a = Inr (a', read_buffer a)"
      "disk a' = disk a" "\<forall>k<32768. ram a' (?p + of_nat k) =
         (if 4096 \<le> k \<and> k < 4608 then disk a (512 * unat offset + (k - 4096)) else ram a (?p + of_nat k))"
      "ahci_layout a'" "pages_for_ahci_start_virtual a' = ?p" by blast
  have "load_bytes (read_buffer a) n (ram a') = map (\<lambda>i. page_byte a' (4096 + i)) [0..<n]" for n
    using a'(5) by (simp add: load_bytes_def page_byte_def read_buffer_def add.assoc)
  then show ?thesis using a' by (intro exI [of _ a']) (simp add: page_byte_def)
qed

section \<open>Writing the structures to the disk\<close>

definition fs_ok :: "fs_state \<Rightarrow> bool" where
  "fs_ok s \<longleftrightarrow> ahci_layout (ahci s) \<and> start_bitmap (sb s) = 1 \<and> start_inodes (sb s) = 3 \<and>
     length (file_mmgr_memory_map (fs_mmgr s)) = 1100 \<and> inodes_ok (inode_list s)"

text \<open>The bytes of the read buffer behind the sector that \<open>read_disk\<close> fills.\<close>

definition buffer_rest :: "ahci_state \<Rightarrow> nat \<Rightarrow> u8 list" where
  "buffer_rest a n = map (\<lambda>i. page_byte a (4608 + i)) [0..<n]"

lemma load_sector:
  assumes "512 \<le> n" and "n \<le> 12800" and "512 \<le> length bs"
    and "\<And>i. i < 512 \<Longrightarrow> page_byte a (4096 + i) = bs ! i"
    and "\<And>k. 4608 \<le> k \<Longrightarrow> k < 20480 \<Longrightarrow> page_byte a k = page_byte a0 k"
  shows "map (\<lambda>i. page_byte a (4096 + i)) [0..<n] = take 512 bs @ buffer_rest a0 (n - 512)"
proof (rule nth_equalityI)
  fix i assume "i < length (map (\<lambda>i. page_byte a (4096 + i)) [0..<n])"
  then have i: "i < n" by simp
  show "map (\<lambda>i. page_byte a (4096 + i)) [0..<n] ! i = (take 512 bs @ buffer_rest a0 (n - 512)) ! i"
  proof (cases "i < 512")
    case True
    then show ?thesis using i assms(3,4) by (simp add: nth_append)
  next
    case False
    then have "i - 512 < n - 512" using i by simp
    then show ?thesis using False i assms(2,3) assms(5) [of "4096 + i"]
      by (simp add: nth_append buffer_rest_def nth_upt del: upt_Suc)
  qed
qed (use assms in \<open>simp add: buffer_rest_def\<close>)

text \<open>The images on the disk: sector 0 has the superblock, 1 and 2 the bitmap, 3 and 4 the inodes.\<close>

lemma store_structures_effect:
  assumes dev: "ahci_device cap 0 dev" "5 \<le> cap" and ok: "fs_ok s"
  shows "\<exists>a. store_structures dev s = Inr (s\<lparr>ahci := a\<rparr>) \<and> ahci_layout a \<and>
      (\<forall>x<40. disk a x = sb_bytes (sb s) ! x) \<and>
      (\<forall>i<512. disk a (512 + i) = map_bytes (file_mmgr_memory_map (fs_mmgr s)) ! i) \<and>
      (\<forall>i<512. disk a (1536 + i) = inodes_bytes (inode_list s) ! i) \<and>
      (\<forall>x\<ge>2560. disk a x = disk (ahci s) x) \<and>
      (\<forall>k<20480. page_byte a k = page_byte (ahci s) k) \<and>
      (\<forall>i<12288. page_byte a (20480 + i) = inodes_bytes (inode_list s) ! i)"
proof -
  define mb where "mb = take 8800 (map_bytes (file_mmgr_memory_map (fs_mmgr s)))"
  define ib where "ib = inodes_bytes (inode_list s)"
  have len: "length mb = 8800" "length ib = 12800" "ahci_layout (ahci s)"
    and mb: "\<And>i. i < 512 \<Longrightarrow> map_bytes (file_mmgr_memory_map (fs_mmgr s)) ! i = mb ! i"
    using ok inodes_bytes_length by (simp_all add: fs_ok_def map_bytes_length mb_def ib_def)
  obtain a1 where a1: "write_through dev 0 (sb_bytes (sb s)) (ahci s) = Inr (a1, 1)" "ahci_layout a1"
      "disk a1 = disk_store 0 2 (\<lambda>i. if i < 40 then sb_bytes (sb s) ! i else page_byte (ahci s) (20480 + i)) (disk (ahci s))"
      "\<And>k. k < 20480 \<Longrightarrow> page_byte a1 k = page_byte (ahci s) k"
    using write_page_bytes [OF dev(1) len(3), of "sb_bytes (sb s)" 0] dev(2) by auto
  obtain a2 where a2: "write_through dev 1 mb a1 = Inr (a2, 1)" "ahci_layout a2"
      "disk a2 = disk_store 1 2 (\<lambda>i. if i < 8800 then mb ! i else page_byte a1 (20480 + i)) (disk a1)"
      "\<And>k. k < 20480 \<Longrightarrow> page_byte a2 k = page_byte a1 k"
    using write_page_bytes [OF dev(1) a1(2), of mb 1] len dev(2) by auto
  obtain a3 where a3: "write_through dev 3 ib a2 = Inr (a3, 1)" "ahci_layout a3"
      "disk a3 = disk_store 3 2 (\<lambda>i. if i < 12800 then ib ! i else page_byte a2 (20480 + i)) (disk a2)"
      "\<And>k. k < 32768 \<Longrightarrow> page_byte a3 k = (if 20480 \<le> k \<and> k < 20480 + 12800 then ib ! (k - 20480) else page_byte a2 k)"
    using write_page_bytes [OF dev(1) a2(2), of ib 3] len dev(2) by auto
  have "store_structures dev s = Inr (s\<lparr>ahci := a3\<rparr>)"
    using a1(1) a2(1) a3(1)
    by (simp add: store_structures_def write_disk_superblock_def write_disk_memory_map_def write_disk_inode_def
        BITMAP_COUNT_def mb_def ib_def)
  then show ?thesis
    using a3(2) mb by (intro exI [of _ a3]) (simp add: a3(3,4) a2(3,4) a1(3,4) disk_store_def ib_def)
qed

text \<open>Reading the structures back.\<close>

lemma load_structures_effect:
  assumes dev: "ahci_device cap 0 dev" "5 \<le> cap" and lay: "ahci_layout (ahci s)"
    and sb: "\<forall>x<40. disk (ahci s) x = sb_bytes b ! x" "start_bitmap b = 1" "start_inodes b = 3"
    and mb: "\<forall>i<512. disk (ahci s) (512 + i) = mb ! i" "512 \<le> length mb"
    and ib: "\<forall>i<512. disk (ahci s) (1536 + i) = ib ! i" "512 \<le> length ib"
  shows "\<exists>a. load_structures dev s = Inr (s\<lparr>ahci := a, sb := b,
        fs_mmgr := (fs_mmgr s)\<lparr>file_mmgr_memory_map := map_of_bytes 1100 (take 512 mb @ buffer_rest (ahci s) 8288)\<rparr>,
        inode_list := inodes_of_bytes 100 (take 512 ib @ buffer_rest (ahci s) 12288)\<rparr>) \<and>
      ahci_layout a \<and> disk a = disk (ahci s) \<and>
      (\<forall>k<32768. k < 4096 \<or> 4608 \<le> k \<longrightarrow> page_byte a k = page_byte (ahci s) k)"
proof -
  let ?a = "ahci s"
  obtain a4 where a4: "read_disk dev 0 ?a = Inr (a4, read_buffer ?a)" "ahci_layout a4" "disk a4 = disk ?a"
      "\<And>k. k < 32768 \<Longrightarrow> page_byte a4 k = (if 4096 \<le> k \<and> k < 4608 then disk ?a (k - 4096) else page_byte ?a k)"
      "\<And>n. load_bytes (read_buffer ?a) n (ram a4) = map (\<lambda>i. page_byte a4 (4096 + i)) [0..<n]"
    using read_page_bytes [OF dev(1) lay, of 0] dev(2) by auto
  obtain a5 where a5: "read_disk dev 1 a4 = Inr (a5, read_buffer a4)" "ahci_layout a5" "disk a5 = disk a4"
      "\<And>k. k < 32768 \<Longrightarrow> page_byte a5 k = (if 4096 \<le> k \<and> k < 4608 then disk a4 (512 + (k - 4096)) else page_byte a4 k)"
      "\<And>n. load_bytes (read_buffer a4) n (ram a5) = map (\<lambda>i. page_byte a5 (4096 + i)) [0..<n]"
    using read_page_bytes [OF dev(1) a4(2), of 1] dev(2) by auto
  obtain a6 where a6: "read_disk dev 3 a5 = Inr (a6, read_buffer a5)" "ahci_layout a6" "disk a6 = disk a5"
      "\<And>k. k < 32768 \<Longrightarrow> page_byte a6 k = (if 4096 \<le> k \<and> k < 4608 then disk a5 (1536 + (k - 4096)) else page_byte a5 k)"
      "\<And>n. load_bytes (read_buffer a5) n (ram a6) = map (\<lambda>i. page_byte a6 (4096 + i)) [0..<n]"
    using read_page_bytes [OF dev(1) a5(2), of 3] dev(2) by auto
  have "map (\<lambda>i. page_byte a4 (4096 + i)) [0..<40] = sb_bytes b" by (rule nth_equalityI) (simp_all add: a4(4) sb)
  then have b: "sb_of_bytes (load_bytes (read_buffer ?a) 40 (ram a4)) = b"
    using sb_of_bytes [of b "[]"] by (simp add: a4(5))
  have m: "load_bytes (read_buffer a4) 8800 (ram a5) = take 512 mb @ buffer_rest ?a 8288"
    unfolding a5(5) using load_sector [of 8800 mb a5 ?a] mb by (simp add: a5(4) a4(3,4))
  have i: "load_bytes (read_buffer a5) 12800 (ram a6) = take 512 ib @ buffer_rest ?a 12288"
    unfolding a6(5) using load_sector [of 12800 ib a6 ?a] ib by (simp add: a6(4) a5(3,4) a4(3,4))
  show ?thesis
    using a4(1) a5(1) a6(1,2) b m i sb(2,3)
    by (intro exI [of _ a6])
      (simp add: load_structures_def BITMAP_COUNT_def INODE_COUNT_def Let_def a6(3,4) a5(3,4) a4(3,4))
qed

lemma rsync_effect:
  assumes dev: "ahci_device cap 0 dev" "5 \<le> cap" and ok: "fs_ok s"
  shows "\<exists>s'. rsync dev s = Inr s' \<and> fs_ok s' \<and> sb s' = sb s \<and>
      file_mmgr_memory_map (fs_mmgr s') =
        map_of_bytes 1100 (take 512 (map_bytes (file_mmgr_memory_map (fs_mmgr s))) @ buffer_rest (ahci s) 8288) \<and>
      inode_list s' = inodes_of_bytes 100 (take 512 (inodes_bytes (inode_list s)) @ buffer_rest (ahci s) 12288) \<and>
      (\<forall>x\<ge>2560. disk (ahci s') x = disk (ahci s) x) \<and>
      (\<forall>i<12288. page_byte (ahci s') (20480 + i) = inodes_bytes (inode_list s) ! i)"
proof -
  obtain a where a: "store_structures dev s = Inr (s\<lparr>ahci := a\<rparr>)" "ahci_layout a" "\<forall>x<40. disk a x = sb_bytes (sb s) ! x"
      "\<forall>i<512. disk a (512 + i) = map_bytes (file_mmgr_memory_map (fs_mmgr s)) ! i"
      "\<forall>i<512. disk a (1536 + i) = inodes_bytes (inode_list s) ! i" "\<forall>x\<ge>2560. disk a x = disk (ahci s) x"
      "\<forall>k<20480. page_byte a k = page_byte (ahci s) k" "\<forall>i<12288. page_byte a (20480 + i) = inodes_bytes (inode_list s) ! i"
    using store_structures_effect [OF assms] by blast
  have len: "512 \<le> length (map_bytes (file_mmgr_memory_map (fs_mmgr s)))" "512 \<le> length (inodes_bytes (inode_list s))"
    "start_bitmap (sb s) = 1" "start_inodes (sb s) = 3"
    using ok inodes_bytes_length [of "inode_list s"] by (simp_all add: fs_ok_def map_bytes_length)
  have "ahci_layout (ahci (s\<lparr>ahci := a\<rparr>))" using a(2) by simp
  from load_structures_effect [OF dev this, of "sb s" "map_bytes (file_mmgr_memory_map (fs_mmgr s))" "inodes_bytes (inode_list s)"]
  obtain b where b: "load_structures dev (s\<lparr>ahci := a\<rparr>) = Inr (s\<lparr>ahci := b, sb := sb s,
        fs_mmgr := (fs_mmgr s)\<lparr>file_mmgr_memory_map :=
          map_of_bytes 1100 (take 512 (map_bytes (file_mmgr_memory_map (fs_mmgr s))) @ buffer_rest a 8288)\<rparr>,
        inode_list := inodes_of_bytes 100 (take 512 (inodes_bytes (inode_list s)) @ buffer_rest a 12288)\<rparr>)"
      "ahci_layout b" "disk b = disk a" "\<forall>k<32768. k < 4096 \<or> 4608 \<le> k \<longrightarrow> page_byte b k = page_byte a k"
    using a(3-5) len by auto
  have r: "buffer_rest a n = buffer_rest (ahci s) n" if "n \<le> 12288" for n
    using that a(7) by (simp add: buffer_rest_def)
  have "inodes_ok (inodes_of_bytes 100 (take 512 (inodes_bytes (inode_list s)) @ buffer_rest (ahci s) 12288))"
    using len(2) by (intro inodes_of_bytes_ok) (simp add: buffer_rest_def)
  then show ?thesis
    using a(1,6,8) b len(3,4) r by (simp add: rsync_def fs_ok_def map_of_bytes_def)
qed

lemma rsync_first:
  assumes "ahci_device cap 0 dev" "5 \<le> cap" and "fs_ok s"
  shows "\<exists>s'. rsync dev s = Inr s' \<and> fs_ok s' \<and> (\<forall>i<4. inode_list s' ! i = inode_list s ! i) \<and>
      (\<forall>i<64. file_mmgr_memory_map (fs_mmgr s') ! i = file_mmgr_memory_map (fs_mmgr s) ! i) \<and>
      (\<forall>x\<ge>2560. disk (ahci s') x = disk (ahci s) x) \<and>
      (\<forall>i<12288. page_byte (ahci s') (20480 + i) = inodes_bytes (inode_list s) ! i)"
proof -
  have "take 512 (take 8800 (map_bytes m)) = take 512 (map_bytes m)" for m by simp
  then show ?thesis
    using rsync_effect [OF assms] inodes_of_sector [of "inode_list s"] map_of_sector [of "file_mmgr_memory_map (fs_mmgr s)"] assms(3)
    unfolding fs_ok_def by fastforce
qed

section \<open>Files\<close>

lemma upd_inode_Inr:
  "i < length (inode_list s) \<Longrightarrow> upd_inode (int i) f s = Inr (s\<lparr>inode_list := (inode_list s)[i := f (inode_list s ! i)]\<rparr>)"
  by (simp add: upd_inode_def)

lemma fs_ok_upd:
  "fs_ok s \<Longrightarrow> i < 100 \<Longrightarrow> length (ino_name e) = 100 \<Longrightarrow> fs_ok (s\<lparr>inode_list := (inode_list s)[i := e]\<rparr>)"
  by (auto simp: fs_ok_def inodes_ok_def dest: set_update_subset_insert [THEN subsetD])

lemma cstring_terminated [simp]: "0 \<notin> set t \<Longrightarrow> cstring (t @ 0 # r) = t"
  by (induction t) (auto simp: cstring_def)

text \<open>Where the contents of a file go.\<close>

lemma write_file_effect:
  assumes dev: "ahci_device cap 0 dev" and ok: "fs_ok s" and i: "i < 4"
    and b: "ino_start_block (inode_list s ! i) = of_nat b" "5 \<le> b" "b < 2 ^ 31" "b + 2 \<le> cap"
    and t: "0 \<notin> set t" "length t \<le> 512"
  defines "e \<equiv> (inode_list s ! i)\<lparr>ino_size := of_nat (length t)\<rparr>"
  shows "\<exists>s'. write_file dev (t @ [0]) (inflate (int i)) s = Inr (s', 1) \<and> fs_ok s' \<and> inode_list s' ! i = e \<and>
      (\<forall>x<1024. disk (ahci s') (512 * b + x) =
         (if x < length t then t ! x else inodes_bytes ((inode_list s)[i := e]) ! x))"
proof -
  have li: "i < length (inode_list s)" "length (ino_name (inode_list s ! i)) = 100"
    using ok i by (auto simp: fs_ok_def inodes_ok_def)
  define u where "u = s\<lparr>inode_list := (inode_list s)[i := e]\<rparr>"
  have u: "upd_inode (int i) (\<lambda>e. e\<lparr>ino_size := word_of_int (int (length t))\<rparr>) s = Inr u"
    unfolding upd_inode_Inr [OF li(1)] u_def e_def by simp
  have "fs_ok u" unfolding u_def using ok i li by (intro fs_ok_upd) (simp_all add: e_def)
  from rsync_first [OF dev _ this] b(2,4) obtain r where r: "rsync dev u = Inr r" "fs_ok r" "\<forall>i<4. inode_list r ! i = inode_list u ! i"
      "\<forall>i<12288. page_byte (ahci r) (20480 + i) = inodes_bytes (inode_list u) ! i" by auto
  have e: "inode_list r ! i = e" "ino_start_block e = of_nat b" "i < length (inode_list r)"
    using r(2,3) i li b(1) by (auto simp: u_def e_def fs_ok_def inodes_ok_def)
  have blk: "int_of_u64 (of_nat b) = int b" "unat (word_of_int (int b) :: u32) = b"
    using b(3) by (simp_all add: int_of_u64_small unat_of_nat)
  have "ahci_layout (ahci r)" using r(2) by (simp add: fs_ok_def)
  from write_page_bytes [OF dev this, of t "word_of_int (int b)"] obtain a where
    a: "write_through dev (word_of_int (int b)) t (ahci r) = Inr (a, 1)" "ahci_layout a"
      "disk a = disk_store b 2 (\<lambda>i. if i < length t then t ! i else page_byte (ahci r) (20480 + i)) (disk (ahci r))"
    using t(2) blk(2) b(4) by auto
  have n: "strlen (t @ [0]) = Inr (int (length t))" using t(1) by (simp add: strlen_Inr)
  have "flush_blocks dev (int b) (t @ [0]) r = Inr (r\<lparr>ahci := a\<rparr>)"
    using a(1) n by (simp add: flush_blocks_def write_disk_def)
  then have "write_file dev (t @ [0]) (inflate (int i)) s = Inr (r\<lparr>ahci := a\<rparr>, 1)"
    using u r(1) e n blk(1) by (simp add: write_file_def inflate_def deflate_def)
  moreover have "disk a (512 * b + x) = (if x < length t then t ! x else inodes_bytes (inode_list u) ! x)" if "x < 1024" for x
    using that r(4) by (simp add: a(3) disk_store_def)
  ultimately show ?thesis using r(2) a(2) e(1) by (intro exI [of _ "r\<lparr>ahci := a\<rparr>"]) (simp add: fs_ok_def u_def)
qed

text \<open>The search for a name.\<close>

lemma find_inode_bounds: "find_inode_loop k i typ nm es = Inr r \<Longrightarrow> 0 \<le> i \<Longrightarrow> r = -1 \<or> i \<le> r \<and> r < i + int k"
proof (induction k arbitrary: i)
  case (Suc k)
  then show ?case by (fastforce split: if_splits)
qed simp

definition other_inode :: "u32 \<Rightarrow> u8 list \<Rightarrow> inodes \<Rightarrow> bool" where
  "other_inode typ nm e \<longleftrightarrow> (\<exists>r. strcmp (ino_name e) nm = Inr r \<and> (r \<noteq> 0 \<or> ino_type e \<noteq> typ))"

lemma find_inode_none:
  "find_inode_loop k (int i) typ nm es = Inr (-1) \<Longrightarrow> j < k \<Longrightarrow> other_inode typ nm (es ! (i + j))"
proof (induction k arbitrary: i j)
  case (Suc k)
  then obtain e r where e: "arr_get es (int i) = Inr e" "strcmp (ino_name e) nm = Inr r" "\<not> (r = 0 \<and> ino_type e = typ)"
      "find_inode_loop k (int (Suc i)) typ nm es = Inr (-1)"
    by (auto simp: add.commute split: if_splits)
  then have "other_inode typ nm (es ! i)" by (auto simp: other_inode_def arr_get_Inr_iff)
  then show ?case using Suc.IH [OF e(4), of "j - 1"] Suc.prems(2) by (cases j) auto
qed simp

lemma find_inode_at:
  assumes "\<And>j. j < n \<Longrightarrow> other_inode typ nm (es ! (i + j))" and "strcmp (ino_name (es ! (i + n))) nm = Inr 0"
    and "ino_type (es ! (i + n)) = typ" and "n < k" and "i + n < length es"
  shows "find_inode_loop k (int i) typ nm es = Inr (int (i + n))"
  using assms
proof (induction n arbitrary: i k)
  case 0
  then show ?case by (cases k) auto
next
  case (Suc n)
  obtain k' where k: "k = Suc k'" using Suc.prems(4) by (cases k) auto
  have "other_inode typ nm (es ! (Suc i + j))" if "j < n" for j using Suc.prems(1) [of "Suc j"] that by simp
  then have "find_inode_loop k' (int (Suc i)) typ nm es = Inr (int (Suc i + n))"
    using Suc.prems(2-5) k by (intro Suc.IH) simp_all
  moreover have "other_inode typ nm (es ! i)" using Suc.prems(1) [of 0] by simp
  ultimately show ?case using Suc.prems(5) k by (auto simp: other_inode_def add.commute)
qed

lemma free_inode_at:
  assumes "\<And>j. j < n \<Longrightarrow> ino_usage (es ! (i + j)) = 1" and "ino_usage (es ! (i + n)) \<noteq> 1" and "n < k" and "i + n < length es"
  shows "free_inode_loop k (int i) es = Inr (es[i + n := (es ! (i + n))\<lparr>ino_usage := 1\<rparr>], int (i + n))"
  using assms
proof (induction n arbitrary: i k)
  case 0
  then show ?case by (cases k) auto
next
  case (Suc n)
  obtain k' where k: "k = Suc k'" using Suc.prems(3) by (cases k) auto
  have "ino_usage (es ! (Suc i + j)) = 1" if "j < n" for j using Suc.prems(1) [of "Suc j"] that by simp
  then have "free_inode_loop k' (int (Suc i)) es = Inr (es[Suc i + n := (es ! (Suc i + n))\<lparr>ino_usage := 1\<rparr>], int (Suc i + n))"
    using Suc.prems(2-4) k by (intro Suc.IH) simp_all
  moreover have "ino_usage (es ! i) = 1" using Suc.prems(1) [of 0] by simp
  ultimately show ?case using Suc.prems(4) k by (simp add: add.commute)
qed

text \<open>A file system with an empty file in block 6.\<close>

definition example_fs :: fs_state where
  "example_fs =
     \<lparr>ahci = example_ahci,
      sb = \<lparr>no_blocks = 65536, no_inodes = 124, start_bitmap = 1, start_inodes = 3, start_blocks = 6\<rparr>,
      fs_mmgr = \<lparr>file_mmgr_used_blocks = 0, file_mmgr_max_blocks = 65536, file_mmgr_memory_map = (replicate 1100 0)[0 := 0x7F]\<rparr>,
      inode_list = (replicate 100 zero_inode)
        [0 := zero_inode\<lparr>ino_name := [65] @ replicate 99 0, ino_start_block := 6, ino_usage := 1, ino_type := 1\<rparr>]\<rparr>"

lemma example_fs_ok: "fs_ok example_fs"
  by (auto simp: fs_ok_def inodes_ok_def example_fs_def example_ahci_layout zero_inode_def
      dest!: set_update_subset_insert [THEN subsetD])

section \<open>Properties\<close>

text \<open>
  C5. What is written to a file can be read back: after \<open>write_file\<close> of a text of at most one sector to one
  of the first four files, \<open>read_file\<close> from its beginning returns the text.
\<close>

theorem write_read_file:
  assumes dev: "ahci_device cap 0 dev" and ok: "fs_ok s" and i: "i < 4"
    and b: "ino_start_block (inode_list s ! i) = of_nat b" "5 \<le> b" "b < 2 ^ 31" "b + 2 \<le> cap" and p: "ino_position (inode_list s ! i) = 0"
    and t: "0 \<notin> set t" "t \<noteq> []" "length t \<le> 512" and buf: "8 \<le> length buf" "length t \<le> length buf"
  shows "\<exists>s1 s2 buf'. write_file dev (t @ [0]) (inflate (int i)) s = Inr (s1, 1) \<and>
    read_file dev (inflate (int i)) (int (length t)) buf s1 = Inr (s2, Some buf') \<and> take (length t) buf' = t"
proof -
  let ?e = "(inode_list s ! i)\<lparr>ino_size := of_nat (length t)\<rparr>"
  obtain s1 where s1: "write_file dev (t @ [0]) (inflate (int i)) s = Inr (s1, 1)" "fs_ok s1" "inode_list s1 ! i = ?e"
      "\<forall>x<1024. disk (ahci s1) (512 * b + x) = (if x < length t then t ! x else inodes_bytes ((inode_list s)[i := ?e]) ! x)"
    using write_file_effect [OF dev ok i b t(1,3)] by blast
  have lay: "ahci_layout (ahci s1)" "i < length (inode_list s1)" using s1(2) i by (auto simp: fs_ok_def inodes_ok_def)
  have "(ucast (of_nat b :: u64) :: u32) = of_nat b" by transfer simp
  then have blk: "unat (ucast (of_nat b :: u64) :: u32) = b" using b(3) by (simp add: unat_of_nat)
  have len: "unat (word_of_int (int (length t)) :: u32) = length t" using t(3) by (simp add: unat_of_nat)
  from read_page_bytes [OF dev lay(1), of "ucast (of_nat b :: u64)"] obtain a where
    a: "read_disk dev (ucast (of_nat b :: u64)) (ahci s1) = Inr (a, read_buffer (ahci s1))"
      "\<And>k. k < 32768 \<Longrightarrow> page_byte a k = (if 4096 \<le> k \<and> k < 4608 then disk (ahci s1) (512 * b + (k - 4096)) else page_byte (ahci s1) k)"
      "\<And>n. load_bytes (read_buffer (ahci s1)) n (ram a) = map (\<lambda>i. page_byte a (4096 + i)) [0..<n]"
    using blk b(4) by auto
  have "load_bytes (read_buffer (ahci s1)) (length t) (ram a) = t"
    unfolding a(3) by (rule nth_equalityI) (use t(3) s1(4) in \<open>simp_all add: a(2)\<close>)
  moreover have "(of_nat (length t) :: u32) \<noteq> 0" using t(2) len by (metis length_0_conv of_int_of_nat_eq unsigned_0)
  ultimately have "\<exists>s2 buf'. read_file dev (inflate (int i)) (int (length t)) buf s1 = Inr (s2, Some buf') \<and> take (length t) buf' = t"
    using a(1) lay(2) s1(3) b(1) p buf len
    by (simp add: read_file_def inflate_def deflate_def copy_out_def Let_def upd_inode_def)
  then show ?thesis using s1(1) by blast
qed

theorem write_read_file_witness:
  "\<exists>s1 s2 buf'. write_file example_dev [72, 105, 0] 100 example_fs = Inr (s1, 1) \<and>
     read_file example_dev 100 2 (replicate 16 0) s1 = Inr (s2, Some buf') \<and> take (Suc 1) buf' = [72, 105]"
  using write_read_file [OF example_dev_device example_fs_ok, of 0 6 32768 "[72, 105]" "replicate 16 0"]
  by (auto simp: example_fs_def zero_inode_def inflate_def INFLATE_CONSTANT_def)

text \<open>
  C36. Writing a file destroys the block that follows its own: whatever was there, it then holds the image of
  the fifth to eighth inode, which the preceding \<open>rsync\<close> has left in the buffer.
\<close>

theorem write_file_destroys_next:
  assumes dev: "ahci_device cap 0 dev" and ok: "fs_ok s" and i: "i < 4"
    and b: "ino_start_block (inode_list s ! i) = of_nat b" "5 \<le> b" "b < 2 ^ 31" "b + 2 \<le> cap" and t: "0 \<notin> set t" "length t \<le> 512"
  shows "\<exists>s'. write_file dev (t @ [0]) (inflate (int i)) s = Inr (s', 1) \<and>
    (\<forall>x<512. disk (ahci s') (512 * (b + 1) + x) = concat (map inode_bytes (take 4 (drop 4 (inode_list s)))) ! x)"
proof -
  let ?es = "(inode_list s)[i := (inode_list s ! i)\<lparr>ino_size := of_nat (length t)\<rparr>]"
  obtain s' where s': "write_file dev (t @ [0]) (inflate (int i)) s = Inr (s', 1)"
      "\<forall>x<1024. disk (ahci s') (512 * b + x) = (if x < length t then t ! x else inodes_bytes ?es ! x)"
    using write_file_effect [OF assms] by blast
  have l: "length (inode_list s) = 100" "\<forall>e\<in>set (inode_list s). length (ino_name e) = 100"
    using ok by (auto simp: fs_ok_def inodes_ok_def)
  have d: "drop 4 ?es = drop 4 (inode_list s)" "length (ino_name (inode_list s ! i)) = 100" using i l by auto
  have "inodes_ok ?es" using fs_ok_upd [OF ok, of i] i d(2) by (simp add: fs_ok_def)
  then have "\<forall>x\<in>set (map inode_bytes (take 4 ?es)). length x = 128" by (auto simp: inodes_ok_def dest: in_set_takeD)
  from concat_chunks_length [OF this] have n: "length (concat (map inode_bytes (take 4 ?es))) = 512" using l by simp
  have "\<forall>x\<in>set (map inode_bytes (take 4 (drop 4 (inode_list s)))). length x = 128"
    using l by (auto dest!: in_set_takeD in_set_dropD)
  from concat_chunks_length [OF this] have m: "length (concat (map inode_bytes (take 4 (drop 4 (inode_list s))))) = 512"
    using l by simp
  have "?es = take 4 ?es @ take 4 (drop 4 (inode_list s)) @ drop 4 (drop 4 (inode_list s))"
    unfolding d(1) [symmetric] by (simp only: append_take_drop_id)
  then have "inodes_bytes ?es = concat (map inode_bytes (take 4 ?es)) @
      concat (map inode_bytes (take 4 (drop 4 (inode_list s)))) @ concat (map inode_bytes (drop 4 (drop 4 (inode_list s))))"
    unfolding inodes_bytes_def by (metis map_append concat_append)
  then have "inodes_bytes ?es ! (512 + x) = concat (map inode_bytes (take 4 (drop 4 (inode_list s)))) ! x" if "x < 512" for x
    using that n m by (simp add: nth_append)
  moreover have "disk (ahci s') (512 * (b + 1) + x) = inodes_bytes ?es ! (512 + x)" if "x < 512" for x
    using s'(2) [rule_format, of "512 + x"] that t(2) by (simp add: algebra_simps)
  ultimately show ?thesis using s'(1) by auto
qed

theorem write_file_destroys_next_witness:
  "\<exists>s'. write_file example_dev [72, 105, 0] 100 example_fs = Inr (s', 1) \<and>
     (\<forall>x<512. disk (ahci s') (3584 + x) = concat (map inode_bytes (take 4 (drop 4 (inode_list example_fs)))) ! x)"
proof -
  have "ino_start_block (inode_list example_fs ! 0) = of_nat 6" by (simp add: example_fs_def zero_inode_def)
  from write_file_destroys_next [OF example_dev_device example_fs_ok _ this, of 32768 "[72, 105]"] show ?thesis
    by (simp add: inflate_def INFLATE_CONSTANT_def)
qed

text \<open>
  C35. \<open>rsync\<close> keeps the superblock, the first 64 words of the bitmap (blocks 0 to 4095) and the first four inodes. All the
  other words of the bitmap and all the other inodes are replaced by what lies in the buffer behind the one sector that is read.
\<close>

theorem rsync_keeps_first_sector:
  assumes "ahci_device cap 0 dev" and "5 \<le> cap" and "fs_ok s"
  shows "\<exists>s'. rsync dev s = Inr s' \<and> sb s' = sb s \<and>
    length (file_mmgr_memory_map (fs_mmgr s')) = 1100 \<and> length (inode_list s') = 100 \<and>
    (\<forall>i<64. file_mmgr_memory_map (fs_mmgr s') ! i = file_mmgr_memory_map (fs_mmgr s) ! i) \<and>
    (\<forall>i<1036. file_mmgr_memory_map (fs_mmgr s') ! (64 + i) = le_word (take 8 (drop (8 * i) (buffer_rest (ahci s) 8288)))) \<and>
    (\<forall>i<4. inode_list s' ! i = inode_list s ! i) \<and>
    (\<forall>i<96. inode_list s' ! (4 + i) = inode_of_bytes (take 128 (drop (128 * i) (buffer_rest (ahci s) 12288))))"
proof -
  obtain s' where s': "rsync dev s = Inr s'" "sb s' = sb s"
      "file_mmgr_memory_map (fs_mmgr s') =
        map_of_bytes 1100 (take 512 (map_bytes (file_mmgr_memory_map (fs_mmgr s))) @ buffer_rest (ahci s) 8288)"
      "inode_list s' = inodes_of_bytes 100 (take 512 (inodes_bytes (inode_list s)) @ buffer_rest (ahci s) 12288)"
    using rsync_effect [OF assms] by blast
  have ok: "length (file_mmgr_memory_map (fs_mmgr s)) = 1100" "inodes_ok (inode_list s)" using assms(3) by (simp_all add: fs_ok_def)
  have "take 512 (take 8800 (map_bytes (file_mmgr_memory_map (fs_mmgr s)))) = take 512 (map_bytes (file_mmgr_memory_map (fs_mmgr s)))" by simp
  then have "\<forall>i<64. file_mmgr_memory_map (fs_mmgr s') ! i = file_mmgr_memory_map (fs_mmgr s) ! i"
    using map_of_sector [OF ok(1)] s'(3) by metis
  moreover have "\<forall>i<4. inode_list s' ! i = inode_list s ! i" using inodes_of_sector [OF ok(2)] s'(4) by simp
  moreover have "inode_list s' ! (4 + i) = inode_of_bytes (take 128 (drop (128 * i) (buffer_rest (ahci s) 12288)))" if "i < 96" for i
    using that inodes_bytes_length [OF ok(2)] unfolding s'(4) by (simp add: inodes_of_bytes_def algebra_simps)
  moreover have "file_mmgr_memory_map (fs_mmgr s') ! (64 + i) = le_word (take 8 (drop (8 * i) (buffer_rest (ahci s) 8288)))" if "i < 1036" for i
    using that map_bytes_length [of "file_mmgr_memory_map (fs_mmgr s)"] ok(1) unfolding s'(3) by (simp add: map_of_bytes_def algebra_simps)
  moreover have "length (file_mmgr_memory_map (fs_mmgr s')) = 1100" "length (inode_list s') = 100"
    by (simp_all add: s'(3,4) map_of_bytes_def inodes_of_bytes_def)
  ultimately show ?thesis using s'(1,2) by blast
qed

theorem rsync_keeps_first_sector_witness:
  "\<exists>s'. rsync example_dev example_fs = Inr s' \<and> sb s' = sb example_fs \<and> inode_list s' ! 0 = inode_list example_fs ! 0"
  using rsync_keeps_first_sector [OF example_dev_device _ example_fs_ok, of 32768] by auto

text \<open>
  C6. Creating one of the first four files: when the first free inode is one of the first four, \<open>create_file\<close> with a new name
  of less than 100 characters takes this inode and the first free block. The inode is then in use as a file, with this block;
  \<open>find_file\<close> returns it; the others of the first four are as before; and the block is marked as used, if it is one of the 4096
  whose part of the bitmap \<open>rsync\<close> keeps.
\<close>

theorem create_then_find:
  assumes dev: "ahci_device cap 0 dev" "5 \<le> cap" and ok: "fs_ok s" and nm: "0 \<notin> set t" "length t < 100"
    and new: "find_file (t @ [0]) s = Inr (-1)"
    and i: "i < 4" "\<forall>j<i. ino_usage (inode_list s ! j) = 1" "ino_usage (inode_list s ! i) \<noteq> 1"
      "ino_name (inode_list s ! i) = replicate 100 0"
    and b: "file_mmgr_inv (fs_mmgr s)" "file_mmgr_used_blocks (fs_mmgr s) \<noteq> 65536"
      "least_free (file_mmgr_memory_map (fs_mmgr s)) (file_mmgr_max_blocks (fs_mmgr s)) b"
  shows "\<exists>s'. create_file dev (t @ [0]) s = Inr (s', inflate (int i)) \<and> find_file (t @ [0]) s' = Inr (int i) \<and>
    inode_list s' ! i = (inode_list s ! i)\<lparr>ino_usage := 1, ino_name := t @ replicate (100 - length t) 0,
      ino_start_block := of_nat b, ino_type := TYPE_FILE\<rparr> \<and>
    (\<forall>j<4. j \<noteq> i \<longrightarrow> inode_list s' ! j = inode_list s ! j) \<and> (b < 4096 \<longrightarrow> file_mmgr_used (fs_mmgr s') (int b))"
proof -
  let ?nm = "t @ [0]" and ?es = "inode_list s" and ?m = "file_mmgr_grant b (fs_mmgr s)"
  define f where "f = (?es ! i)\<lparr>ino_usage := 1, ino_name := t @ replicate (100 - length t) 0,
    ino_start_block := of_nat b, ino_type := TYPE_FILE\<rparr>"
  define u where "u = s\<lparr>fs_mmgr := ?m, inode_list := ?es[i := f]\<rparr>"
  have l: "length ?es = 100" "i < length ?es" using ok i(1) by (auto simp: fs_ok_def inodes_ok_def)
  have blk: "file_mmgr_alloc_block (fs_mmgr s) = Inr (?m, int b)" using b by (rule file_mmgr_alloc_least)
  have inode: "get_free_inode s = Inr (s\<lparr>inode_list := ?es[i := (?es ! i)\<lparr>ino_usage := 1\<rparr>]\<rparr>, int i)"
    using free_inode_at [of i ?es 0 100] i l by (simp add: get_free_inode_def INODE_COUNT_def)
  have "strlen ?nm = Inr (int (length t))" "unat (word_of_int (int (length t)) :: u32) = length t"
    using nm by (simp_all add: strlen_Inr unat_of_nat)
  then have created: "create_file dev ?nm s = rbind (rsync dev u) (\<lambda>s. Inr (s, inflate (int i)))"
    using new inode blk l(2) i(4) nm(2)
    by (simp add: create_file_def get_free_block_def set_name_def strncpy_Inr upd_inode_def u_def f_def)
  have "length (ino_name f) = 100" using nm(2) by (simp add: f_def)
  then have "fs_ok u" using fs_ok_upd [OF ok, of i f] i(1) b(1) by (simp add: u_def fs_ok_def file_mmgr_inv_def)
  from rsync_first [OF dev this] obtain s' where
    s': "rsync dev u = Inr s'" "fs_ok s'" "\<forall>j<4. inode_list s' ! j = inode_list u ! j"
      "\<forall>j<64. file_mmgr_memory_map (fs_mmgr s') ! j = file_mmgr_memory_map ?m ! j" by (auto simp: u_def)
  have "100 - length t = Suc (99 - length t)" using nm(2) by simp
  then have "ino_name f = t @ 0 # replicate (99 - length t) 0" by (simp add: f_def)
  then have cmp: "strcmp (ino_name f) ?nm = Inr 0" using nm(1) by (simp add: strcmp_Inr)
  have f: "inode_list s' ! i = f" "ino_type f = TYPE_FILE" "i < length (inode_list s')"
    using s'(2,3) i(1) l by (simp_all add: f_def u_def fs_ok_def inodes_ok_def)
  have "other_inode TYPE_FILE ?nm (inode_list s' ! j)" if "j < i" for j
    using find_inode_none [of 100 0 TYPE_FILE ?nm ?es j] new s'(3) i(1) that
    by (simp add: find_file_def INODE_COUNT_def u_def)
  then have "find_file ?nm s' = Inr (int i)"
    using find_inode_at [of i TYPE_FILE ?nm "inode_list s'" 0 100] f cmp i(1) by (simp add: find_file_def INODE_COUNT_def)
  moreover have "file_mmgr_used (fs_mmgr s') (int b)" if "b < 4096"
  proof -
    have "b div 64 < 64" using that by simp
    moreover have "bm_used (file_mmgr_memory_map ?m) b" using file_mmgr_grant_used [OF least_freeD(1) [OF b(3)]] by simp
    ultimately show ?thesis using s'(2,4) by (simp add: file_mmgr_used_def bm_used_def fs_ok_def)
  qed
  ultimately show ?thesis using created s'(1,3) f(1) by (simp add: f_def u_def)
qed

theorem create_then_find_witness:
  "\<exists>s'. create_file example_dev [66, 0] example_fs = Inr (s', 101) \<and> find_file [66, 0] s' = Inr 1 \<and>
     ino_start_block (inode_list s' ! 1) = 7 \<and> file_mmgr_used (fs_mmgr s') 7"
proof -
  have new: "find_file ([66] @ [0]) example_fs = Inr (-1)"
    by (simp add: find_file_def INODE_COUNT_def) code_simp
  have "file_mmgr_inv (fs_mmgr example_fs) \<and> (case file_mmgr_alloc_block (fs_mmgr example_fs) of Inr (m, b) \<Rightarrow> b = 7 | Inl _ \<Rightarrow> False)"
    by code_simp
  then have b: "file_mmgr_inv (fs_mmgr example_fs)"
    "least_free (file_mmgr_memory_map (fs_mmgr example_fs)) (file_mmgr_max_blocks (fs_mmgr example_fs)) 7"
    using file_mmgr_alloc_outcome [of "fs_mmgr example_fs"] by (auto split: sum.splits prod.splits)
  have e: "file_mmgr_used_blocks (fs_mmgr example_fs) \<noteq> 65536" "\<forall>j<1. ino_usage (inode_list example_fs ! j) = 1"
    "ino_usage (inode_list example_fs ! 1) \<noteq> 1" "ino_name (inode_list example_fs ! 1) = replicate 100 0"
    by (simp_all add: example_fs_def zero_inode_def)
  show ?thesis
    using create_then_find [OF example_dev_device _ example_fs_ok _ _ new _ e(2-4) b(1) e(1) b(2), of 32768]
    by (auto simp: inflate_def INFLATE_CONSTANT_def)
qed

text \<open>
  \<open>read_file_by_name\<close> never returns a file: it passes the index of the inode where a descriptor, greater by
  100, is expected, so that \<open>read_file\<close> leaves the inode table, or takes the file for missing.
\<close>

theorem read_file_by_name_never_reads:
  assumes "inodes_ok (inode_list s)" and "find_file nm s = Inr r"
  shows "read_file_by_name dev nm buf s = (if r = 99 then Inr (s, None) else Inl OutOfBounds)"
proof -
  have "r = -1 \<or> 0 \<le> r \<and> r < 100" using find_inode_bounds [of 100 0] assms(2) by (auto simp: find_file_def INODE_COUNT_def)
  then show ?thesis
    using assms by (auto simp: read_file_by_name_def get_file_descriptor_def read_file_def deflate_def INFLATE_CONSTANT_def arr_get_def Let_def)
qed

theorem read_file_by_name_never_reads_witness:
  "read_file_by_name example_dev [65, 0] (replicate 100 0) example_fs = Inl OutOfBounds"
proof -
  have "find_file [65, 0] example_fs = Inr 0"
    by (simp add: find_file_def INODE_COUNT_def) code_simp
  moreover have "inodes_ok (inode_list example_fs)" using example_fs_ok by (simp add: fs_ok_def)
  ultimately show ?thesis using read_file_by_name_never_reads [of example_fs "[65, 0]" 0] by simp
qed

text \<open>
  The error value of \<open>create_file\<close> is not recognised by \<open>write_file\<close>: writing to a file whose creation
  failed, in particular \<open>create_write_file\<close> with a name that exists, writes outside the inode table.
\<close>

theorem write_after_failed_create:
  assumes "inodes_ok (inode_list s)" and "find_file nm s = Inr r" "r \<noteq> -1" and "0 \<in> set contents"
  shows "create_file dev nm s = Inr (s, -1) \<and> create_write_file dev nm contents s = Inl OutOfBounds"
proof -
  have "create_file dev nm s = Inr (s, -1)" using assms by (simp add: create_file_def)
  moreover have "write_file dev contents (-1) s = Inl OutOfBounds"
    using strlen_Inr [OF assms(4)] by (simp add: write_file_def deflate_def INFLATE_CONSTANT_def upd_inode_def arr_get_def)
  ultimately show ?thesis by (simp add: create_write_file_def)
qed

theorem write_after_failed_create_witness:
  "create_file example_dev [65, 0] example_fs = Inr (example_fs, -1) \<and>
   create_write_file example_dev [65, 0] [72, 105, 0] example_fs = Inl OutOfBounds"
proof -
  have "find_file [65, 0] example_fs = Inr 0"
    by (simp add: find_file_def INODE_COUNT_def) code_simp
  moreover have "inodes_ok (inode_list example_fs)" using example_fs_ok by (simp add: fs_ok_def)
  ultimately show ?thesis
    using write_after_failed_create [of example_fs "[65, 0]" 0 "[72, 105, 0]"] by simp
qed

end
