(* ===== verification/Syscalls.thy ===== *)
theory Syscalls
  imports Process Preemption File_System
begin

text \<open>
  System calls and exceptions: \<open>sys/isr.c\<close>, \<open>fault_handler\<close> of \<open>sys/idt.c\<close>, and what the stubs of \<open>sys/isr.s\<close> do to the
  data of the C code. The state joins the machine of the interrupts, the processes, the file system, the table of open
  files and the tree of directories. The kernel reaches the memory of the current process through its page tables and
  writes regardless of the write bit of an entry, as the processor does in kernel mode while write protection is off.

  A system call that waits with interrupts enabled takes the list of what happens at each turn of its loop as an argument;
  when the list ends and the condition still holds, the call has not returned. Of the file system the messages are left
  out, as in \<open>File_System\<close>, but for the listing.
\<close>

section \<open>State\<close>

record sys_state =
  sys_machine :: machine
  sys_vmas :: "u64 \<Rightarrow> vm_area_struct"
  sys_mem :: "u64 \<Rightarrow> u8"
  sys_fs :: fs_state
  sys_files :: file_table
  sys_dirs :: dir_state
  reading_finished :: int

text \<open>
  What the handlers take from outside: the archive, the disk, the address of the name of memory areas, the contents of the
  uninitialised array of segments, the address of the array \<open>temp\<close>, the register CR2, the stack pointer at a switch, the
  strings of the kernel by address, and what happens during a wait.
\<close>

record sys_env =
  e_img :: tar_image
  e_dev :: "ahci_state \<Rightarrow> ahci_state"
  e_area_name :: u64
  e_executable :: "exec list"
  e_temp_ptr :: u64
  e_cr2 :: u64
  e_frame :: u64
  e_string :: "u64 \<Rightarrow> u8 list"
  e_events :: "(sys_state \<Rightarrow> sys_state res) list"

definition proc_of :: "sys_state \<Rightarrow> proc_state" where
  "proc_of s = \<lparr>kern_st = m_kernel (sys_machine s), vma_mem = sys_vmas s, user_mem = sys_mem s\<rparr>"

definition set_proc :: "proc_state \<Rightarrow> sys_state \<Rightarrow> sys_state" where
  "set_proc p s =
     s\<lparr>sys_machine := (sys_machine s)\<lparr>m_kernel := kern_st p\<rparr>, sys_vmas := vma_mem p, sys_mem := user_mem p\<rparr>"

definition on_proc :: "(proc_state \<Rightarrow> proc_state res) \<Rightarrow> sys_state \<Rightarrow> sys_state res" where
  "on_proc f s = rbind (f (proc_of s)) (\<lambda>p. Inr (set_proc p s))"

definition sys_kernel :: "sys_state \<Rightarrow> kernel_state" where
  "sys_kernel s = m_kernel (sys_machine s)"

definition sys_line :: "sys_state \<Rightarrow> line_buffer" where
  "sys_line s = kb_line (m_keyboard (sys_machine s))"

definition set_line :: "line_buffer \<Rightarrow> sys_state \<Rightarrow> sys_state" where
  "set_line b s = s\<lparr>sys_machine := (sys_machine s)\<lparr>m_keyboard := (m_keyboard (sys_machine s))\<lparr>kb_line := b\<rparr>\<rparr>\<rparr>"

definition on_console :: "(console \<Rightarrow> console res) \<Rightarrow> sys_state \<Rightarrow> sys_state res" where
  "on_console f s =
     rbind (f (kb_console (m_keyboard (sys_machine s)))) (\<lambda>con.
     Inr (s\<lparr>sys_machine := (sys_machine s)\<lparr>m_keyboard := (m_keyboard (sys_machine s))\<lparr>kb_console := con\<rparr>\<rparr>\<rparr>))"

definition c_string :: "string \<Rightarrow> u8 list" where
  "c_string t = map of_char t @ [0]"

definition sys_printf :: "string \<Rightarrow> printf_arg list \<Rightarrow> sys_state \<Rightarrow> sys_state res" where
  "sys_printf fmt args = on_console (\<lambda>con. rbind (printf (c_string fmt) args con) (\<lambda>(con, _). Inr con))"

text \<open>A string in the memory of the current process, with its terminator, and a conversion of an argument to \<open>int\<close>.\<close>

partial_function (option) user_string_loop :: "u64 \<Rightarrow> u8 list \<Rightarrow> proc_state \<Rightarrow> u8 list res option" where
  "user_string_loop a acc p =
     (case get_byte a p of
        Inl e \<Rightarrow> Some (Inl e)
      | Inr c \<Rightarrow> if c = 0 then Some (Inr (acc @ [0])) else user_string_loop (a + 1) (acc @ [c]) p)"

definition user_string :: "u64 \<Rightarrow> sys_state \<Rightarrow> u8 list res" where
  "user_string a s = (case user_string_loop a [] (proc_of s) of None \<Rightarrow> Inl Halt | Some r \<Rightarrow> r)"

section \<open>Exit and faults\<close>

definition sys_exit :: "kernel_state \<Rightarrow> kernel_state res" where
  "sys_exit s =
     rbind (get_thread (currentThread s) s) (\<lambda>t.
     rbind (arr_get (ptable s) (pid t)) (\<lambda>k.
     rbind (thread_cleanup k s) (\<lambda>s.
     rbind (arr_set (ptable s) (pid t) 0) (\<lambda>pt.
     Inr (free_pid (s\<lparr>ptable := pt\<rparr>))))))"

definition kill_current :: "kernel_state \<Rightarrow> kernel_state res" where
  "kill_current s =
     rbind (upd_thread (currentThread s) (\<lambda>t. t\<lparr>alive := False\<rparr>) s) (\<lambda>s.
     rbind (remove_runnable_kthread (currentThread s) s) (\<lambda>s.
     rbind (remove_alllist_kthread (currentThread s) s) sys_exit))"

partial_function (option) near_area :: "(u64 \<Rightarrow> vm_area_struct) \<Rightarrow> u64 \<Rightarrow> u64 \<Rightarrow> bool option" where
  "near_area m faulting_address crawl =
     (if crawl \<noteq> 0 then
        if vm_start (m crawl) - faulting_address \<le> 100 then Some True
        else near_area m faulting_address (vm_next (m crawl))
      else Some False)"

definition grow_stack :: "u64 \<Rightarrow> proc_state \<Rightarrow> proc_state res" where
  "grow_stack area_name p =
     (let cur = currentThread (kern_st p) in
      rbind (on_kern (upd_thread cur (\<lambda>t. t\<lparr>no_stack_pages := no_stack_pages t + 1\<rparr>)) p) (\<lambda>p.
      rbind (get_thread cur (kern_st p)) (\<lambda>t.
      if mmap_cache t = 0 then Inl NullPointer
      else mmap area_name (vm_start (vma_mem p (mmap_cache t)) - 0x1000) 4096 cur p)))"

definition cow_fault :: "u64 \<Rightarrow> proc_state \<Rightarrow> proc_state res" where
  "cow_fault faulting_address p =
     rbind (kalloc_block (kern_st p)) (\<lambda>(s, phys).
     let p = p\<lparr>kern_st := s\<rparr>;
         fault_page = PAGE_PHYSICAL_ADDRESS faulting_address in
     rbind (copy_from_user fault_page 4096 p) (\<lambda>buf.
     rbind (on_kern (on_vm (vmmgr_map_page_after_paging phys faulting_address True)) p) (\<lambda>p.
     rbind (get_thread (currentThread (kern_st p)) (kern_st p)) (\<lambda>t.
     copy_to_user fault_page buf (p\<lparr>kern_st := reload_cr3 (pcr3 t) (kern_st p)\<rparr>)))))"

text \<open>
  The code behind the two branches, which prints the bits of the error code, is never reached: both return.
\<close>

definition page_fault_handler :: "sys_env \<Rightarrow> sys_state \<Rightarrow> sys_state res" where
  "page_fault_handler e s =
     (let faulting_address = e_cr2 e; pte = get_pte_recurse faulting_address in
      rbind (get_thread (currentThread (sys_kernel s)) (sys_kernel s)) (\<lambda>t.
      rbind (if kernel_thread t = 0
             then case near_area (sys_vmas s) faulting_address (mmap_first t) of None \<Rightarrow> Inl Halt | Some b \<Rightarrow> Inr b
             else Inr False) (\<lambda>near.
      if near then
        if no_stack_pages t \<le> 4 then on_proc (grow_stack (e_area_name e)) s
        else
          rbind (sys_printf ''Stack Overflow! Killing the process %d'' [IntArg (pid t)] s)
            (on_proc (on_kern kill_current))
      else
        rbind (vload pte (vm (kheap (sys_kernel s)))) (\<lambda>v.
        if v AND PTE_COW \<noteq> 0 then on_proc (cow_fault faulting_address) s
        else
          rbind (sys_printf ''Segmentation fault. Killing the process %d'' [IntArg (pid t)] s)
            (on_proc (on_kern kill_current))))))"

definition general_protection_fault_handler :: "u64 \<Rightarrow> sys_state \<Rightarrow> sys_state res" where
  "general_protection_fault_handler err_code s = Inl Halt"

section \<open>Writing and processes\<close>

definition sys_write :: "sys_env \<Rightarrow> u64 \<Rightarrow> int \<Rightarrow> sys_state \<Rightarrow> sys_state res" where
  "sys_write e str fd s =
     rbind (user_string str s) (\<lambda>t.
     if fd = 1 then sys_printf ''%s'' [StrArg t] s
     else rbind (write_file (e_dev e) t fd (sys_fs s)) (\<lambda>(f, _). Inr (s\<lparr>sys_fs := f\<rparr>)))"

definition sys_getpid :: "kernel_state \<Rightarrow> int res" where
  "sys_getpid s = rbind (get_thread (currentThread s) s) (\<lambda>t. Inr (pid t))"

definition fork_int :: "u64 \<Rightarrow> regs \<Rightarrow> kernel_state \<Rightarrow> kernel_state res" where
  "fork_int k r s =
     rbind (get_thread k s) (\<lambda>t.
     rfold (PushU k)
       [0x23, reg_rsp r, reg_rflags r, reg_cs r, reg_rip r, reg_intNo r, reg_errCode r, u64_of_int (pid t), reg_rbx r,
        reg_rcx r, reg_rdx r, reg_rbp r, reg_rdi r, reg_rsi r, reg_r8 r, reg_r9 r, reg_r10 r, reg_r11 r, reg_r12 r,
        reg_r13 r, reg_r14 r, reg_r15 r] s)"

text \<open>The check of \<open>k_thread\<close> comes after the first use: a thread at NULL has faulted by then.\<close>

definition fork :: "regs \<Rightarrow> kernel_state \<Rightarrow> kernel_state res" where
  "fork r s =
     (let cur = currentThread s in
      rbind (kmalloc 0 True s) (\<lambda>(s, k).
      rbind (get_thread cur s) (\<lambda>t.
      rbind (upd_thread k (\<lambda>_. t) s) (\<lambda>s.
      let (s, n) = alloc_pid s in
      rbind (upd_thread k (\<lambda>t. t\<lparr>pid := n\<rparr>) s) (\<lambda>s.
      rbind (arr_set (ptable s) n k) (\<lambda>pt.
      rbind (kmalloc 1 True (s\<lparr>ptable := pt\<rparr>)) (\<lambda>(s, stack).
      rbind (upd_thread k (\<lambda>t. t\<lparr>krsp := stack + 2 * 4096 - 8, kstack := stack + 2 * 4096 - 8, parent := cur\<rparr>) s) (\<lambda>s.
      rbind (fork_int k r s) (\<lambda>s.
      rbind (kmalloc 0 True s) (\<lambda>(s, dir).
      rbind (upd_thread k (\<lambda>t. t\<lparr>thr_cr3 := dir, pcr3 := dir - 0xFFFFFFFF80000000\<rparr>) s) (\<lambda>s.
      rbind (on_vm (clone_pgdir (thr_cr3 t) dir) s) (\<lambda>s.
      rbind (on_vm (copy_page_table (thr_cr3 t) dir True) s) (\<lambda>s.
      rbind (add_to_joinQueue cur k s) (\<lambda>s.
      rbind (alllist_kthread k s) (runnable_kthread k)))))))))))))))"

definition sys_sleep :: "u64 \<Rightarrow> kernel_state \<Rightarrow> kernel_state res" where
  "sys_sleep time s = upd_thread (currentThread s) (\<lambda>t. t\<lparr>sleeping := int_of_u64 time\<rparr>) s"

section \<open>Waiting and reading\<close>

fun busy_wait :: "(sys_state \<Rightarrow> bool) \<Rightarrow> (sys_state \<Rightarrow> sys_state res) list \<Rightarrow> sys_state \<Rightarrow> sys_state res" where
  "busy_wait c [] s = (if c s then Inl Halt else Inr s)"
| "busy_wait c (ev # evs) s = (if c s then rbind (ev s) (busy_wait c evs) else Inr s)"

definition sys_sti :: "sys_state \<Rightarrow> sys_state" where
  "sys_sti s = s\<lparr>sys_machine := (sys_machine s)\<lparr>m_kernel := enable_interrupts (sys_kernel s)\<rparr>\<rparr>"

definition doread_line :: "sys_env \<Rightarrow> u64 \<Rightarrow> sys_state \<Rightarrow> (sys_state \<times> int) res" where
  "doread_line e buf s =
     (let s = sys_sti s in
      if reading (sys_line s) = 1 \<or> reading_finished s = 0 then Inr (s, -1)
      else
        let s = set_line ((sys_line s)\<lparr>reading := 1, io_buff := Some 0\<rparr>) (s\<lparr>reading_finished := 0\<rparr>) in
        rbind (busy_wait (\<lambda>s. reading (sys_line s) = 1) (e_events e) s) (\<lambda>s.
        rbind (strlen (iobuff (sys_line s))) (\<lambda>n.
        rbind (on_proc (copy_to_user buf (take (nat n) (iobuff (sys_line s)))) s) (\<lambda>s.
        let s = set_line ((sys_line s)\<lparr>reading := 0\<rparr>) (s\<lparr>reading_finished := 1\<rparr>) in
        rbind (user_string buf s) (\<lambda>t. rbind (strlen t) (\<lambda>n. Inr (s, n)))))))"

text \<open>\<open>read_file\<close> clears eight bytes of the buffer and stores \<open>cnt\<close> bytes into it.\<close>

definition doread :: "sys_env \<Rightarrow> u64 \<Rightarrow> int \<Rightarrow> int \<Rightarrow> sys_state \<Rightarrow> (sys_state \<times> int) res" where
  "doread e buf fd cnt s =
     (if fd = 0 then doread_line e buf s
      else if 100 \<le> fd then
        rbind (copy_from_user buf (max 8 (unat (word_of_int cnt :: u32))) (proc_of s)) (\<lambda>bs.
        rbind (read_file (e_dev e) fd cnt bs (sys_fs s)) (\<lambda>(f, r).
        rbind (case r of None \<Rightarrow> Inr s | Some bs \<Rightarrow> on_proc (copy_to_user buf bs) s) (\<lambda>s.
        rbind (user_string buf s) (\<lambda>t.
        rbind (sys_printf (''read: %s'' @ [CHR 0x0A]) [StrArg t] (s\<lparr>sys_fs := f\<rparr>)) (\<lambda>s. Inr (s, 0))))))
      else
        rbind (arr_get (file_used (sys_files s)) fd) (\<lambda>used.
        if used = 1 then
          rbind (arr_get (files (sys_files s)) fd) (\<lambda>name.
          rbind (tarfs_read (e_img e) name) (\<lambda>src.
          rbind (ptr (e_img e) src) (\<lambda>bs.
          let n = unat (word_of_int cnt :: u32) in
          if n \<le> length bs then rbind (on_proc (copy_to_user buf (take n bs)) s) (\<lambda>s. Inr (s, 0))
          else Inl OutOfBounds)))
        else
          rbind (sys_printf (''File is already open by another process'' @ [CHR 0x0A]) [] s) (\<lambda>s. Inr (s, -1))))"

definition children_left :: "sys_state \<Rightarrow> bool" where
  "children_left s \<longleftrightarrow> jnext (join_head (threads (sys_kernel s) (currentThread (sys_kernel s)))) \<noteq> 0"

definition sys_wait :: "sys_env \<Rightarrow> sys_state \<Rightarrow> sys_state res" where
  "sys_wait e s = busy_wait children_left (e_events e) (sys_sti s)"

section \<open>The other system calls\<close>

definition do_execve :: "sys_env \<Rightarrow> u64 \<Rightarrow> sys_state \<Rightarrow> (sys_state \<times> int) res" where
  "do_execve e name_ptr s =
     rbind (user_string name_ptr s) (\<lambda>name.
     rbind (tarfs_read (e_img e) name) (\<lambda>start.
     if start = 0 then Inr (s, -1)
     else
       rbind (on_proc (main_execve (e_img e) (e_area_name e) (e_executable e) (e_temp_ptr e) name) s) (\<lambda>s.
       rbind (on_proc (on_kern (Schedule (e_frame e))) s) (\<lambda>s. Inr (s, 0)))))"

definition print_process_line :: "sys_env \<Rightarrow> nat \<Rightarrow> sys_state \<Rightarrow> sys_state res" where
  "print_process_line e i s =
     rbind (arr_get (ptable (sys_kernel s)) (int i)) (\<lambda>k.
     rbind (get_thread k (sys_kernel s)) (\<lambda>t.
     sys_printf (''%s %d %s %d'' @ [CHR 0x0A])
       [StrArg (e_string e (thr_name t)), IntArg (pid t),
        StrArg (if kernel_thread t = 1 then c_string ''Kernel'' else c_string ''User''),
        IntArg (nextFreePid (sys_kernel s))] s))"

definition print_process :: "sys_env \<Rightarrow> sys_state \<Rightarrow> sys_state res" where
  "print_process e s =
     rbind (sys_printf (''Name PID Mode'' @ [CHR 0x0A]) [] s) (\<lambda>s.
     rfold (print_process_line e) [2..<nat (nextFreePid (sys_kernel s))] s)"

definition do_cls :: "sys_state \<Rightarrow> sys_state res" where
  "do_cls s = on_console cls s"

definition print_listing :: "(u8 list \<times> bool) list \<Rightarrow> sys_state \<Rightarrow> sys_state res" where
  "print_listing es s =
     rbind (sys_printf (''-------Disk Contents:-----'' @ [CHR 0x0A]) [] s)
       (rfold (\<lambda>(nm, dir). sys_printf (if dir then ''| %s'' @ [CHR 0x5C, CHR 0x20, CHR 0x0A] else ''| %s '' @ [CHR 0x0A])
          [StrArg (nm @ [0])]) es)"

definition do_ls :: "sys_env \<Rightarrow> sys_state \<Rightarrow> sys_state res" where
  "do_ls e s =
     rbind (on_console (print_ls (sys_dirs s)) s) (\<lambda>s.
     rbind (ls_fs (e_dev e) (sys_fs s)) (\<lambda>(f, es). print_listing es (s\<lparr>sys_fs := f\<rparr>)))"

definition do_ll :: "sys_env \<Rightarrow> sys_state \<Rightarrow> sys_state res" where
  "do_ll e s = on_console (print_ll (e_img e)) s"

definition do_sbrk :: "int \<Rightarrow> kernel_state \<Rightarrow> (kernel_state \<times> int) res" where
  "do_sbrk pr s =
     rbind (if pr \<noteq> 0 then upd_thread (currentThread s) (\<lambda>t. t\<lparr>brk := brk t + pr\<rparr>) s else Inr s) (\<lambda>s.
     rbind (get_thread (currentThread s) s) (\<lambda>t. Inr (s, brk t)))"

definition do_open :: "u8 list \<Rightarrow> file_table \<Rightarrow> (file_table \<times> int) res" where
  "do_open name s = tarfs_open name s"

definition do_close :: "int \<Rightarrow> file_table \<Rightarrow> file_table res" where
  "do_close fd s =
     (if fd < 50 then rbind (arr_set (file_used s) fd 0) (\<lambda>u. Inr (s\<lparr>file_used := u\<rparr>)) else Inr s)"

definition changed :: "tar_image \<Rightarrow> u8 list \<Rightarrow> dir_state \<Rightarrow> (dir_state \<times> int) res" where
  "changed img name s = do_cd img name s"

definition do_pwd :: "sys_state \<Rightarrow> sys_state res" where
  "do_pwd s = on_console (print_pwd (sys_dirs s)) s"

definition do_create :: "sys_env \<Rightarrow> u8 list \<Rightarrow> fs_state \<Rightarrow> (fs_state \<times> int) res" where
  "do_create e name s = create_file (e_dev e) name s"

definition do_seek :: "int \<Rightarrow> int \<Rightarrow> fs_state \<Rightarrow> (fs_state \<times> int) res" where
  "do_seek fd pos s = rbind (seek_file fd pos s) (\<lambda>s. Inr (s, 0))"

section \<open>Dispatch\<close>

definition with_val :: "int \<Rightarrow> sys_state res \<Rightarrow> (sys_state \<times> int) res" where
  "with_val v r = rbind r (\<lambda>s. Inr (s, v))"

text \<open>The calls of the numbers 1 to 13 and 20 to 24; every other number returns 1 and does nothing.\<close>

definition system_call :: "sys_env \<Rightarrow> regs \<Rightarrow> sys_state \<Rightarrow> (sys_state \<times> int) res" where
  "system_call e r s =
     (let callNo = (ucast (reg_rax r) :: u16); rdi_int = int_of_u64 (reg_rdi r); rsi_int = int_of_u64 (reg_rsi r) in
      if callNo = 1 then with_val 1 (on_proc (on_kern sys_exit) s)
      else if callNo = 2 then with_val 1 (sys_write e (reg_rdi r) rsi_int s)
      else if callNo = 3 then with_val 0 (on_proc (on_kern (fork r)) s)
      else if callNo = 4 then with_val 1 (on_proc (on_kern (sys_sleep (reg_rdi r))) s)
      else if callNo = 5 then doread e (reg_rdi r) rsi_int (int_of_u64 (reg_rdx r)) s
      else if callNo = 6 then with_val 1 (sys_wait e s)
      else if callNo = 7 then do_execve e (reg_rdi r) s
      else if callNo = 8 then with_val 1 (print_process e s)
      else if callNo = 9 then with_val 1 (do_cls s)
      else if callNo = 10 then with_val 1 (do_ls e s)
      else if callNo = 11 then
        rbind (do_sbrk rdi_int (sys_kernel s)) (\<lambda>(k, v). Inr (s\<lparr>sys_machine := (sys_machine s)\<lparr>m_kernel := k\<rparr>\<rparr>, v))
      else if callNo = 12 then
        rbind (user_string (reg_rdi r) s) (\<lambda>name.
        rbind (do_open name (sys_files s)) (\<lambda>(t, fd). Inr (s\<lparr>sys_files := t\<rparr>, fd)))
      else if callNo = 13 then rbind (do_close rdi_int (sys_files s)) (\<lambda>t. Inr (s\<lparr>sys_files := t\<rparr>, 1))
      else if callNo = 20 then rbind (sys_getpid (sys_kernel s)) (\<lambda>v. Inr (s, v))
      else if callNo = 21 then
        rbind (user_string (reg_rdi r) s) (\<lambda>name.
        rbind (changed (e_img e) name (sys_dirs s)) (\<lambda>(d, v). Inr (s\<lparr>sys_dirs := d\<rparr>, v)))
      else if callNo = 22 then with_val 1 (do_pwd s)
      else if callNo = 23 then
        rbind (user_string (reg_rdi r) s) (\<lambda>name.
        rbind (do_create e name (sys_fs s)) (\<lambda>(f, fd). Inr (s\<lparr>sys_fs := f\<rparr>, fd)))
      else if callNo = 24 then
        rbind (do_seek rdi_int rsi_int (sys_fs s)) (\<lambda>(f, v). Inr (s\<lparr>sys_fs := f\<rparr>, v))
      else Inr (s, 1))"

definition fault_handler :: "sys_env \<Rightarrow> regs \<Rightarrow> sys_state \<Rightarrow> (sys_state \<times> int) res" where
  "fault_handler e r s =
     (if reg_intNo r \<le> 0x80 then
        if reg_intNo r = 0xE then with_val 1 (page_fault_handler e s)
        else if reg_intNo r = 0xD then with_val 1 (general_protection_fault_handler (reg_errCode r) s)
        else if reg_intNo r = 0x80 then system_call e r s
        else Inl Halt
      else Inr (s, 1))"

text \<open>
  The stub: \<open>frame\<close> is the stack pointer below the saved registers, which it hands to \<open>fault_handler\<close>. The value returned in
  EAX, whose upper half is zero, is stored over the saved RAX. The result is the new state and the stack pointer from
  which the registers are restored.
\<close>

definition isr_common_stub :: "sys_env \<Rightarrow> u64 \<Rightarrow> sys_state \<Rightarrow> (sys_state \<times> u64) res" where
  "isr_common_stub e frame s =
     rbind (fault_handler e (regs_at (kmem (sys_kernel s)) frame) s) (\<lambda>(s, val).
     let k = (sys_kernel s)\<lparr>kmem := (kmem (sys_kernel s))(frame + 0x70 := ucast (word_of_int val :: u32))\<rparr> in
     rbind (if is_scheduler_on k then context_switch frame k else Inr (k, frame)) (\<lambda>(k, sp).
     Inr (s\<lparr>sys_machine := (sys_machine s)\<lparr>m_kernel := k\<rparr>\<rparr>, sp)))"

definition isr80 :: "sys_env \<Rightarrow> u64 \<Rightarrow> u64 \<Rightarrow> sys_state \<Rightarrow> (sys_state \<times> u64) res" where
  "isr80 e rax frame s =
     (if rax = 1 then
        rbind (on_proc (on_kern sys_exit) s) (\<lambda>s.
        rbind (on_proc (on_kern (Schedule frame)) s) (\<lambda>s.
        let t = threads (sys_kernel s) (currentThread (sys_kernel s))
        in Inr (s, if kernel_thread t = 1 then rsp t else krsp t)))
      else isr_common_stub e frame s)"

text \<open>A hardware interrupt during a system call.\<close>

definition interrupt :: "hw_event \<Rightarrow> sys_state \<Rightarrow> sys_state res" where
  "interrupt ev s = rbind (deliver ev (sys_machine s)) (\<lambda>m. Inr (s\<lparr>sys_machine := m\<rparr>))"

section \<open>Properties\<close>

text \<open>
  C11. The frame that \<open>fork\<close> builds for the child resumes it where the parent made the call: from the child's new kernel
  stack pointer the stub restores exactly the registers of the parent, but for RAX, which holds the number of the child, and
  SS, which is the selector of user data. (The number of the interrupt and the error code, which the stub skips, change places.)
\<close>

theorem fork_int_frame:
  assumes "k \<noteq> 0"
  shows "\<exists>s'. fork_int k r s = Inr s' \<and> krsp (threads s' k) = krsp (threads s k) - 176 \<and>
    regs_at (kmem s') (krsp (threads s' k)) =
      r\<lparr>reg_rax := u64_of_int (pid (threads s k)), reg_ss := 0x23, reg_intNo := reg_errCode r, reg_errCode := reg_intNo r\<rparr>"
proof -
  let ?vs = "[0x23, reg_rsp r, reg_rflags r, reg_cs r, reg_rip r, reg_intNo r, reg_errCode r, u64_of_int (pid (threads s k)),
    reg_rbx r, reg_rcx r, reg_rdx r, reg_rbp r, reg_rdi r, reg_rsi r, reg_r8 r, reg_r9 r, reg_r10 r, reg_r11 r, reg_r12 r,
    reg_r13 r, reg_r14 r, reg_r15 r]"
  have len: "length ?vs = 22" by simp
  have "fork_int k r s = rfold (PushU k) ?vs s"
    using assms by (simp only: fork_int_def get_thread_def if_False rbind_simps)
  moreover have "regs_of_words (rev ?vs) =
      r\<lparr>reg_rax := u64_of_int (pid (threads s k)), reg_ss := 0x23, reg_intNo := reg_errCode r, reg_errCode := reg_intNo r\<rparr>"
    by (simp add: regs_of_words_def)
  ultimately show ?thesis
    using PushU_list [OF assms, of ?vs s] regs_at_pushed [OF len, of "kmem s" "krsp (threads s k)"]
    unfolding len by (intro exI) auto
qed

theorem fork_int_frame_witness:
  "\<exists>s'. fork_int 16 (regs_of_words [1, 2, 3, 4, 5, 6, 7, 8, 9, 10, 11, 12, 13, 14, 15, 16, 17, 18, 19, 20, 21, 22])
       (example_kernel (\<lambda>_. example_thread\<lparr>krsp := 0x9FF8, pid := 5\<rparr>) 16 16 24) = Inr s' \<and>
     regs_at (kmem s') 0x9F48 = regs_of_words [1, 2, 3, 4, 5, 6, 7, 8, 9, 10, 11, 12, 13, 14, 5, 17, 16, 18, 19, 20, 21, 0x23]"
  using fork_int_frame [of 16 "regs_of_words [1, 2, 3, 4, 5, 6, 7, 8, 9, 10, 11, 12, 13, 14, 15, 16, 17, 18, 19, 20, 21, 22]"
      "example_kernel (\<lambda>_. example_thread\<lparr>krsp := 0x9FF8, pid := 5\<rparr>) 16 16 24"]
  by (auto simp: example_kernel_def regs_of_words_def u64_of_int_def)

section \<open>A state for examples\<close>

definition example_sys :: sys_state where
  "example_sys =
     \<lparr>sys_machine = running_machine\<lparr>m_kernel := (example_kernel example_threads 8 16 24)
          \<lparr>kmem := (\<lambda>_. 0)(0x9070 := 20, 0x9078 := 0x80)\<rparr>\<rparr>,
      sys_vmas = (\<lambda>_. zero_vma), sys_mem = (\<lambda>_. 0), sys_fs = example_fs, sys_files = initial_files,
      sys_dirs = \<lparr>tree = (\<lambda>_. empty_tree), rootfs = 8, pwd = 8,
                  dir_heap = \<lparr>vm = example_bump, heap_base = 0, heap_last = 0, blocks = (\<lambda>_. \<lparr>mb_next = 0, mb_size = 0, mb_free = 0\<rparr>)\<rparr>\<rparr>,
      reading_finished = 1\<rparr>"

definition example_env :: "(sys_state \<Rightarrow> sys_state res) list \<Rightarrow> sys_env" where
  "example_env evs =
     \<lparr>e_img = \<lparr>tar_base = 0, tar_end = 0, tar_bytes = []\<rparr>, e_dev = id, e_area_name = 0, e_executable = [], e_temp_ptr = 0,
      e_cr2 = 0, e_frame = 0, e_string = (\<lambda>_. [0]), e_events = evs\<rparr>"

end
