(* ===== verification/Faults.thy ===== *)
theory Faults
  imports Syscalls
begin

text \<open>
  Page faults: a fault on a copy-on-write page gives the process a copy of its own, the growth of the stack maps the page
  below the newest memory area, and every page fault that returns changes the RAX of the interrupted program.
\<close>

section \<open>Bytes of a page\<close>

abbreviation sys_vm :: "sys_state \<Rightarrow> vm_state" where
  "sys_vm s \<equiv> vm (kheap (sys_kernel s))"

lemma bit_of_nat_small: "i < 4096 \<Longrightarrow> bit (of_nat i :: u64) k \<Longrightarrow> k < 12"
proof -
  assume i: "i < 4096" and k: "bit (of_nat i :: u64) k"
  have "take_bit 12 i = i" using i by (simp add: take_bit_nat_eq_self)
  then have "(of_nat i :: u64) = take_bit 12 (of_nat i)" by (metis take_bit_of_nat)
  with k show "k < 12" by (metis bit_take_bit_iff)
qed

lemma page_byte:
  assumes "i < 4096"
  shows "indices (PAGE_PHYSICAL_ADDRESS v + of_nat i) = indices v"
    and "(PAGE_PHYSICAL_ADDRESS v + of_nat i) AND 0xFFF = of_nat i"
proof -
  let ?P = "PAGE_PHYSICAL_ADDRESS v" and ?i = "of_nat i :: u64"
  have small: "bit ?i k \<Longrightarrow> k < 12" for k using bit_of_nat_small [OF assms] .
  have or: "?P + ?i = ?P OR ?i"
    by (rule disjunctive_add) (use small in \<open>force simp: bit_PHYS\<close>)
  have m9: "bit (0x1FF :: u64) k \<longleftrightarrow> k < 9" and m12: "bit (0xFFF :: u64) k \<longleftrightarrow> k < 12" for k
  proof -
    have "(0x1FF :: u64) = mask 9" "(0xFFF :: u64) = mask 12" by (simp_all add: mask_eq_exp_minus_1)
    then show "bit (0x1FF :: u64) k \<longleftrightarrow> k < 9" "bit (0xFFF :: u64) k \<longleftrightarrow> k < 12"
      by (simp_all only: bit_mask_iff possible_bit_word) auto
  qed
  have "drop_bit n (?P OR ?i) AND 0x1FF = drop_bit n v AND 0x1FF" if "12 \<le> n" "n \<le> 39" for n
    by (rule bit_word_eqI) (use that small in \<open>force simp: bit_and_iff bit_or_iff bit_drop_bit_eq m9 bit_PHYS\<close>)
  then show "indices (?P + ?i) = indices v"
    unfolding or indices_def PAGE_PML4_OFFSET_def PAGE_POINTER_OFFSET_def PAGE_DIRECTORY_OFFSET_def PAGE_TABLE_OFFSET_def
    by simp
  show "(?P + ?i) AND 0xFFF = ?i"
    unfolding or by (rule bit_word_eqI) (use small in \<open>auto simp: bit_and_iff bit_or_iff m12 bit_PHYS\<close>)
qed

lemma copy_from_user_bytes:
  assumes "\<And>i. i < n \<Longrightarrow> vaddr (a + of_nat i) p = Inr (q i)"
  shows "copy_from_user a n p = Inr (map (\<lambda>i. user_mem p (q i)) [0..<n])"
  using assms by (induction n) (simp_all add: copy_from_user_def rfold_append get_byte_def)

lemma vaddr_user_mem [simp]: "vaddr a (p\<lparr>user_mem := m\<rparr>) = vaddr a p"
  by (simp add: vaddr_def)

lemma copy_to_user_bytes:
  assumes "\<And>i. i < length bs \<Longrightarrow> vaddr (a + of_nat i) p = Inr (b + of_nat i)" and "length bs \<le> 2 ^ 63"
  shows "copy_to_user a bs p =
    Inr (p\<lparr>user_mem := \<lambda>x. if unat (x - b) < length bs then bs ! unat (x - b) else user_mem p x\<rparr>)"
proof -
  have "n \<le> length bs \<Longrightarrow> rfold (\<lambda>i p. put_byte (a + of_nat i) (bs ! i) p) [0..<n] p =
      Inr (p\<lparr>user_mem := \<lambda>x. if unat (x - b) < n then bs ! unat (x - b) else user_mem p x\<rparr>)" for n
  proof (induction n)
    case (Suc n)
    have n: "unat (of_nat n :: u64) = n" using Suc.prems assms(2) by (simp add: unat_of_nat)
    have "x = b + of_nat n \<longleftrightarrow> unat (x - b) = n" for x
      using n by (metis add_diff_cancel_left' diff_add_cancel add.commute word_unat_eq_iff)
    then have "(\<lambda>x. if unat (x - b) < Suc n then bs ! unat (x - b) else user_mem p x) =
        (\<lambda>x. if unat (x - b) < n then bs ! unat (x - b) else user_mem p x)(b + of_nat n := bs ! n)"
      by (auto simp: fun_eq_iff less_Suc_eq)
    then show ?case using Suc assms(1) [of n] by (simp add: rfold_append put_byte_def)
  qed simp
  then show ?thesis by (simp add: copy_to_user_def)
qed

section \<open>The entry of a page\<close>

lemma missing_located: "locate m T is = Some x \<Longrightarrow> missing m T is = 0"
  by (induction m T "is" rule: missing.induct) (auto split: if_splits)

lemma located_entry:
  assumes "paging L v" and "locate (phys_mem v) (cr3 v) (indices a) = Some (T, i)"
  shows "vload (get_pte_recurse a) v = Inr (phys_mem v (ent T i))"
  using recursive_access(2) [of "phys_mem v" "cr3 v" a] assms
  by (auto simp: paging_def indices_def vload_def split: if_splits)

text \<open>A page below \<open>2\<^sup>4\<^sup>7\<close>, the half of the processes, that is present in the frame \<open>f\<close> and marked copy-on-write.\<close>

definition shared_page :: "(u64 \<Rightarrow> nat) \<Rightarrow> vm_state \<Rightarrow> u64 \<Rightarrow> u64 \<Rightarrow> bool" where
  "shared_page L v a f \<longleftrightarrow> paging L v \<and> a < 2 ^ 47 \<and>
     (\<exists>T i. locate (phys_mem v) (cr3 v) (indices a) = Some (T, i) \<and> present (phys_mem v (ent T i)) \<and>
        phys_mem v (ent T i) AND PTE_COW \<noteq> 0 \<and> PAGE_PHYSICAL_ADDRESS (phys_mem v (ent T i)) = f)"

lemma user_slot: "a < 2 ^ 47 \<Longrightarrow> PAGE_PML4_OFFSET a \<noteq> 510"
proof -
  assume "a < 2 ^ 47"
  then have "unat a < 2 ^ 47" by (simp add: word_less_nat_alt)
  then have "unat a div 2 ^ 39 < 256" by (simp add: less_mult_imp_div_less)
  then have "unat (PAGE_PML4_OFFSET a) \<noteq> 510" by (simp add: unat_offset)
  then show ?thesis by auto
qed

lemma shared_page_walk:
  assumes "shared_page L v a f" and "j < 4096"
  shows "walk (phys_mem v) (cr3 v) (PAGE_PHYSICAL_ADDRESS a + of_nat j) = Some (f + of_nat j)"
  using assms(1) page_byte [OF assms(2), of a] by (auto simp: shared_page_def walk_def)

lemma cow_fault_copies:
  assumes sh: "shared_page L (vm (kheap (kern_st p))) a f"
    and blk: "mmgr_alloc_block (phys_mgr (vm (kheap (kern_st p)))) = Inr (mgr, b)" "frame_addr b"
    and cur: "currentThread (kern_st p) = c" "c \<noteq> 0" "pcr3 (threads (kern_st p) c) = cr3 (vm (kheap (kern_st p)))"
  obtains p' where "cow_fault a p = Inr p'"
    and "user_mem p' = (\<lambda>x. if unat (x - b) < 4096 then user_mem p (f + (x - b)) else user_mem p x)"
    and "cr3 (vm (kheap (kern_st p'))) = cr3 (vm (kheap (kern_st p)))"
    and "\<And>w. PAGE_PML4_OFFSET w \<noteq> 510 \<Longrightarrow>
      walk (phys_mem (vm (kheap (kern_st p')))) (cr3 (vm (kheap (kern_st p)))) w =
      (if indices w = indices a then Some (b + (w AND 0xFFF))
       else walk (phys_mem (vm (kheap (kern_st p)))) (cr3 (vm (kheap (kern_st p)))) w)"
    and "is_scheduler_on (kern_st p') = is_scheduler_on (kern_st p)"
proof -
  let ?k = "kern_st p" and ?pg = "PAGE_PHYSICAL_ADDRESS a"
  define v1 where "v1 = (vm (kheap ?k))\<lparr>phys_mgr := mgr\<rparr>"
  define p1 where "p1 = p\<lparr>kern_st := ?k\<lparr>kheap := (kheap ?k)\<lparr>vm := v1\<rparr>\<rparr>\<rparr>"
  have slot: "PAGE_PML4_OFFSET a \<noteq> 510" using sh user_slot by (simp add: shared_page_def)
  have pg: "paging L v1" using sh by (simp add: shared_page_def paging_def v1_def)
  have miss: "missing (phys_mem v1) (cr3 v1) (indices a) = 0"
    using sh missing_located by (fastforce simp: shared_page_def v1_def)
  then have av: "available L v1 (missing (phys_mem v1) (cr3 v1) (indices a))" by (simp add: available_def)
  obtain v2 L2 where m: "vmmgr_map_page_after_paging b a True v1 = Inr v2" "cr3 v2 = cr3 v1"
      "\<And>w. PAGE_PML4_OFFSET w \<noteq> 510 \<Longrightarrow> walk (phys_mem v2) (cr3 v1) w =
        (if indices w = indices a then Some (b + (w AND 0xFFF)) else walk (phys_mem v1) (cr3 v1) w)"
    by (rule map_page_after_refines [OF pg slot blk(2) av, of True]) blast
  define p2 where "p2 = p1\<lparr>kern_st := ?k\<lparr>kheap := (kheap ?k)\<lparr>vm := v2\<lparr>cr3 := cr3 v1\<rparr>\<rparr>\<rparr>\<rparr>"
  let ?bs = "map (\<lambda>j. user_mem p1 (f + of_nat j)) [0..<4096]"
  have rd: "copy_from_user ?pg 4096 p1 = Inr ?bs"
    by (rule copy_from_user_bytes) (use shared_page_walk [OF sh] in \<open>simp add: vaddr_def p1_def v1_def\<close>)
  have tr: "vaddr (?pg + of_nat j) p2 = Inr (b + of_nat j)" if "j < 4096" for j
  proof -
    have "PAGE_PML4_OFFSET (?pg + of_nat j) \<noteq> 510"
      using page_byte(1) [OF that, of a] slot by (simp add: indices_def)
    then show ?thesis using m(2,3) page_byte [OF that, of a] by (simp add: vaddr_def p2_def)
  qed
  have wr: "copy_to_user ?pg ?bs p2 = Inr (p2\<lparr>user_mem := \<lambda>x. if unat (x - b) < 4096 then ?bs ! unat (x - b) else user_mem p2 x\<rparr>)"
    using copy_to_user_bytes [of ?bs ?pg p2 b] tr by simp
  have run: "cow_fault a p = copy_to_user ?pg ?bs p2"
    using blk(1) rd m(1,2) cur
    by (simp add: cow_fault_def kalloc_block_def on_kern_def on_vm_def get_thread_def reload_cr3_def Let_def
        v1_def [symmetric] p1_def [symmetric]) (simp add: p1_def p2_def v1_def)
  show ?thesis
    by (rule that [OF run [unfolded wr]])
       (use m(2,3) in \<open>auto simp: p2_def p1_def v1_def fun_eq_iff\<close>)
qed

section \<open>The growth of the stack\<close>

lemma kmalloc_tables:
  "kmalloc n b s = Inr (s', v) \<Longrightarrow> phys_mem (vm (kheap s')) = phys_mem (vm (kheap s)) \<and> cr3 (vm (kheap s')) = cr3 (vm (kheap s))"
  by (auto simp: kmalloc_def sub_malloc_def vmmgr_alloc_page_def find_block_def extend_heap_def split_block_def set_free_def Let_def
      split: if_splits option.splits prod.splits)

lemma kalloc_block_tables:
  "kalloc_block s = Inr (s', v) \<Longrightarrow> phys_mem (vm (kheap s')) = phys_mem (vm (kheap s)) \<and> cr3 (vm (kheap s')) = cr3 (vm (kheap s))"
  by (auto simp: kalloc_block_def)

lemma mmap_ready_threads:
  "mmap_ready addr vma b s2 p \<Longrightarrow>
     mmap_ready addr vma b (s2\<lparr>threads := T\<rparr>) (p\<lparr>kern_st := (kern_st p)\<lparr>threads := T\<rparr>\<rparr>)"
  by (fastforce simp: mmap_ready_def kmalloc_def kalloc_block_def)

lemma mmap_ready_tables:
  assumes "mmap_ready addr vma b s2 p"
  shows "phys_mem (vm (kheap s2)) = phys_mem (vm (kheap (kern_st p)))" and "cr3 (vm (kheap s2)) = cr3 (vm (kheap (kern_st p)))"
  using assms unfolding mmap_ready_def by (auto dest!: kmalloc_tables kalloc_block_tables)

lemma grow_stack_maps:
  assumes c: "currentThread (kern_st p) = c" "c \<noteq> 0" and xs: "vma_list p c xs" "xs \<noteq> []" "vma \<notin> set xs"
    and ready: "mmap_ready (vm_start (vma_mem p (last xs)) - 0x1000) vma b s2 p"
  obtains p' where "grow_stack nm p = Inr p'" and "cr3 (vm (kheap (kern_st p'))) = cr3 (vm (kheap (kern_st p)))"
    and "\<And>v. PAGE_PML4_OFFSET v \<noteq> 510 \<Longrightarrow> walk (phys_mem (vm (kheap (kern_st p')))) (cr3 (vm (kheap (kern_st p)))) v =
      (if indices v = indices (vm_start (vma_mem p (last xs)) - 0x1000) then Some (b + (v AND 0xFFF))
       else walk (phys_mem (vm (kheap (kern_st p)))) (cr3 (vm (kheap (kern_st p)))) v)"
    and "user_mem p' = user_mem p"
proof -
  let ?T = "(threads (kern_st p))(c := (threads (kern_st p) c)\<lparr>no_stack_pages := no_stack_pages (threads (kern_st p) c) + 1\<rparr>)"
  let ?p = "p\<lparr>kern_st := (kern_st p)\<lparr>threads := ?T\<rparr>\<rparr>" and ?a = "vm_start (vma_mem p (last xs)) - 0x1000"
  have last: "mmap_cache (threads (kern_st p) c) = last xs" "last xs \<noteq> 0"
    using xs areas_nonzero [of "vma_mem p" _ xs "last xs"] by (auto simp: vma_list_def)
  have run: "grow_stack nm p = mmap nm ?a 4096 c ?p"
    using c last by (simp add: grow_stack_def on_kern_def upd_thread_def get_thread_def Let_def)
  have xs': "vma_list ?p c xs" using xs(1) by (simp add: vma_list_def)
  note t = mmap_ready_tables [OF ready]
  obtain p' where p': "mmap nm ?a 4096 c ?p = Inr p'" "cr3 (vm (kheap (kern_st p'))) = cr3 (vm (kheap (s2\<lparr>threads := ?T\<rparr>)))"
      "\<And>v. PAGE_PML4_OFFSET v \<noteq> 510 \<Longrightarrow> walk (phys_mem (vm (kheap (kern_st p')))) (cr3 (vm (kheap (s2\<lparr>threads := ?T\<rparr>)))) v =
        (if indices v = indices ?a then Some (b + (v AND 0xFFF))
         else walk (phys_mem (vm (kheap (s2\<lparr>threads := ?T\<rparr>)))) (cr3 (vm (kheap (s2\<lparr>threads := ?T\<rparr>)))) v)"
      "user_mem p' = user_mem ?p"
    by (rule mmap_adds_area [OF mmap_ready_threads [OF ready, of ?T] xs' xs(3) c(2), of nm 4096]) blast
  show ?thesis by (rule that [of p']) (use run p' t in simp_all)
qed

lemma near_area_list: "areas m a xs \<Longrightarrow> near_area m addr a = Some (\<exists>x\<in>set xs. vm_start (m x) - addr \<le> 100)"
  by (induction xs arbitrary: a) (simp_all add: near_area.simps)

lemma page_fault_grows:
  assumes cur: "currentThread (sys_kernel s) = c" "c \<noteq> 0" "kernel_thread (threads (sys_kernel s) c) = 0"
      "no_stack_pages (threads (sys_kernel s) c) \<le> 4"
    and near: "near_area (sys_vmas s) (e_cr2 e) (mmap_first (threads (sys_kernel s) c)) = Some True"
    and xs: "vma_list (proc_of s) c xs" "xs \<noteq> []" "vma \<notin> set xs"
    and ready: "mmap_ready (vm_start (sys_vmas s (last xs)) - 0x1000) vma b s2 (proc_of s)"
  obtains s' where "page_fault_handler e s = Inr s'" and "cr3 (sys_vm s') = cr3 (sys_vm s)" and "sys_mem s' = sys_mem s"
    and "\<And>v. PAGE_PML4_OFFSET v \<noteq> 510 \<Longrightarrow> walk (phys_mem (sys_vm s')) (cr3 (sys_vm s)) v =
      (if indices v = indices (vm_start (sys_vmas s (last xs)) - 0x1000) then Some (b + (v AND 0xFFF))
       else walk (phys_mem (sys_vm s)) (cr3 (sys_vm s)) v)"
proof -
  let ?p = "proc_of s"
  have k: "kern_st ?p = sys_kernel s" "vma_mem ?p = sys_vmas s" "user_mem ?p = sys_mem s" by (simp_all add: proc_of_def sys_kernel_def)
  obtain p' where p': "grow_stack (e_area_name e) ?p = Inr p'" "cr3 (vm (kheap (kern_st p'))) = cr3 (sys_vm s)"
      "\<And>v. PAGE_PML4_OFFSET v \<noteq> 510 \<Longrightarrow> walk (phys_mem (vm (kheap (kern_st p')))) (cr3 (sys_vm s)) v =
        (if indices v = indices (vm_start (sys_vmas s (last xs)) - 0x1000) then Some (b + (v AND 0xFFF))
         else walk (phys_mem (sys_vm s)) (cr3 (sys_vm s)) v)" "user_mem p' = sys_mem s"
    by (rule grow_stack_maps [of ?p c, unfolded k, OF cur(1,2) xs ready]) blast
  have run: "page_fault_handler e s = Inr (set_proc p' s)"
    using cur near p'(1) by (simp add: page_fault_handler_def get_thread_def on_proc_def Let_def)
  show ?thesis by (rule that [OF run]) (use p'(2-4) in \<open>simp_all add: set_proc_def sys_kernel_def\<close>)
qed

section \<open>The saved RAX\<close>

lemma upd_thread_kmem: "upd_thread k f s = Inr s' \<Longrightarrow> kmem s' = kmem s"
  by (auto simp: upd_thread_def split: if_splits)

lemma append_run_queue_kmem: "append_run_queue k s = Inr s' \<Longrightarrow> kmem s' = kmem s"
  by (auto simp: append_run_queue_def split: if_splits dest!: upd_thread_kmem)

lemma next_runnable_kmem: "next_runnable_kthread s = Inr (s', r) \<Longrightarrow> kmem s' = kmem s"
  by (auto simp: next_runnable_kthread_def remove_runnable_kthread_def split: option.splits if_splits dest!: upd_thread_kmem)

lemma context_switch_kmem: "context_switch frame s = Inr (s', sp) \<Longrightarrow> kmem s' = kmem s"
  by (auto simp: context_switch_def runnable_kthread_def Let_def split: if_splits
      dest!: next_runnable_kmem upd_thread_kmem append_run_queue_kmem)

lemma regs_at_rax: "regs_at (m(a + 0x70 := v)) a = (regs_at m a)\<lparr>reg_rax := v\<rparr>"
  by (simp add: regs_at_def regs_of_words_def)

section \<open>An example\<close>

text \<open>
  The machine of \<open>Paging_On\<close> with tables for the first two megabytes, where the page of the heap is shared copy-on-write, and a
  process with an area for its stack and one for its heap.
\<close>

definition shared_mem :: "u64 \<Rightarrow> u64" where
  "shared_mem = (((example_mem(ent 0x1000 0 := fill 0 0x8000 True))(ent 0x8000 0 := fill 0 0x9000 True))
     (ent 0x9000 0 := fill 0 0xA000 True))(ent 0xA000 0x80 := 0x400000000000B005)"

definition shared_level :: "u64 \<Rightarrow> nat" where
  "shared_level = ((example_level(0x8000 := 4 - 1))(0x9000 := 3 - 1))(0xA000 := 2 - 1)"

definition shared_vm :: vm_state where
  "shared_vm = example_paged\<lparr>phys_mem := shared_mem, phys_mgr := example_mgr 128\<rparr>"

lemma shared_frames: "frame_addr 0x8000" "frame_addr 0xA000" "frame_addr 0x9000"
  by (simp_all add: frame_addr_def)

lemma shared_plain: "plain 0x400000000000B005"
  unfolding plain_def by code_simp

lemma shared_tables: "Page_Walk.tables shared_level shared_mem"
proof -
  note [simp] = ent_eq_iff regular_def
  note f = example_frames shared_frames
  have z: "example_mem (ent T j) = 0" if "frame_addr T" "T \<notin> {0x1000, 0x2000, 0x3000, 0x4000}" "unat j < 512" for T j
    using that f by (auto simp: example_mem_def)
  have z0: "example_mem (ent 0x1000 0) = 0" by (simp add: example_mem_eq ent_def)
  have "Page_Walk.tables shared_level (((example_mem(ent 0x1000 0 := fill 0 0x8000 True))(ent 0x8000 0 := fill 0 0x9000 True))
       (ent 0x9000 0 := fill 0 0xA000 True))"
    unfolding shared_level_def
    by (intro adds_blank_table example_tables) (use f z z0 in \<open>simp_all add: example_level_def\<close>)
  then show ?thesis
    unfolding shared_mem_def
    by (rule tables_set_page(1)) (use shared_plain in \<open>simp_all add: shared_level_def\<close>)
qed

definition shared_sys :: "u64 \<Rightarrow> u64 \<Rightarrow> sys_state" where
  "shared_sys first final =
     example_sys\<lparr>sys_machine := (sys_machine example_sys)\<lparr>m_kernel :=
         (example_kernel (\<lambda>_. example_thread\<lparr>kernel_thread := 0, pcr3 := 0x1000, mmap_first := first, mmap_cache := final\<rparr>) 8 16 24)
         \<lparr>kheap := \<lparr>vm = shared_vm, heap_base = 0x1000, heap_last = 0, blocks = (\<lambda>_. \<lparr>mb_next = 0, mb_size = 40, mb_free = 1\<rparr>)\<rparr>,
          kmem := (\<lambda>_. 0)(0x9070 := 77, 0x9078 := 0xE)\<rparr>\<rparr>,
       sys_vmas := (\<lambda>_. zero_vma)(0x100 := zero_vma\<lparr>vm_start := UserStack, vm_next := 0x200\<rparr>, 0x200 := zero_vma\<lparr>vm_start := UserHeap\<rparr>),
       sys_mem := (\<lambda>_. 0)(0xB123 := 65)\<rparr>"

lemma shared_sys_simps [simp]:
  "sys_vm (shared_sys first final) = shared_vm" "currentThread (sys_kernel (shared_sys first final)) = 24"
  "threads (sys_kernel (shared_sys first final)) 24 =
     example_thread\<lparr>kernel_thread := 0, pcr3 := 0x1000, mmap_first := first, mmap_cache := final\<rparr>"
  "sys_mem (shared_sys first final) = (\<lambda>_. 0)(0xB123 := 65)" "cr3 shared_vm = 0x1000" "phys_mgr shared_vm = example_mgr 128"
  "is_scheduler_on (sys_kernel (shared_sys first final)) = False"
  by (simp_all add: shared_sys_def sys_kernel_def example_kernel_def shared_vm_def example_paged_def)

lemma shared_mem_eq:
  "shared_mem = example_mem(0x1000 := 0x8007, 0x8000 := 0x9007, 0x9000 := 0xA007, 0xA400 := 0x400000000000B005)"
  by (simp add: shared_mem_def ent_def fill_def)

lemma shared_paging: "paging shared_level shared_vm"
  using shared_tables example_points
  by (simp add: paging_def shared_vm_def example_paged_def shared_mem_eq example_mem_eq ent_def shared_level_def
      example_level_def PAGE_PHYSICAL_ADDRESS_def)

lemma shared_locate:
  assumes "indices a = [0, 0, 0, i]"
  shows "locate shared_mem 0x1000 (indices a) = Some (0xA000, i)"
proof -
  have "points 0x8007" "points 0x9007" "points 0xA007" by (simp_all add: points_def bit_iff_odd)
  then show ?thesis
    unfolding assms by (simp add: shared_mem_eq example_mem_eq ent_def PAGE_PHYSICAL_ADDRESS_def)
qed

lemma shared_heap_page:
  assumes "a = 0x80123 \<or> a = 0x80000"
  shows "shared_page shared_level shared_vm a 0xB000"
proof -
  have i: "indices a = [0, 0, 0, 0x80]"
    using assms by (auto simp: indices_def PAGE_PML4_OFFSET_def PAGE_POINTER_OFFSET_def PAGE_DIRECTORY_OFFSET_def PAGE_TABLE_OFFSET_def)
  have "locate (phys_mem shared_vm) (cr3 shared_vm) (indices a) = Some (0xA000, 0x80)"
    using shared_locate [OF i] by (simp add: shared_vm_def example_paged_def)
  moreover have "phys_mem shared_vm (ent 0xA000 0x80) = 0x400000000000B005"
    by (simp add: shared_vm_def shared_mem_eq ent_def)
  moreover have "present 0x400000000000B005" by (simp add: present_def bit_iff_odd)
  ultimately show ?thesis
    using shared_paging assms by (auto simp: shared_page_def PTE_COW_def PAGE_PHYSICAL_ADDRESS_def)
qed

lemma shared_frame:
  obtains mgr b where "mmgr_alloc_block (example_mgr 128) = Inr (mgr, b)" and "frame_addr b"
proof -
  have "mmgr_supply 1 (example_mgr 128)" by (rule example_mgr_supply) simp_all
  then obtain mgr b where "mmgr_alloc_block (example_mgr 128) = Inr (mgr, b)" "b \<noteq> 0"
    by (auto simp: eval_nat_numeral split: sum.splits)
  then show ?thesis using that alloc_frame(1) [OF example_mgr_inv [of 128]] by auto
qed

lemma heap_indices: "indices (UserHeap - 0x1000) = [0, 0, 0, 0x7F]"
  by (simp add: indices_def PAGE_PML4_OFFSET_def PAGE_POINTER_OFFSET_def PAGE_DIRECTORY_OFFSET_def PAGE_TABLE_OFFSET_def UserHeap_def)

lemma shared_ready:
  assumes b: "mmgr_alloc_block (example_mgr 128) = Inr (mgr, b)" "frame_addr b"
  obtains s2 where "mmap_ready (UserHeap - 0x1000) 0x1010 b s2 (proc_of (shared_sys first final))"
proof -
  let ?k = "sys_kernel (shared_sys first final)"
  have heap: "kheap ?k = \<lparr>vm = shared_vm, heap_base = 0x1000, heap_last = 0, blocks = (\<lambda>_. \<lparr>mb_next = 0, mb_size = 40, mb_free = 1\<rparr>)\<rparr>"
    by (simp add: shared_sys_def sys_kernel_def)
  have al: "align8 40 = 40" by (simp add: align8_def)
  obtain s1 where 1: "kmalloc 40 False ?k = Inr (s1, 0x1010)" "vm (kheap s1) = shared_vm"
    by (simp add: kmalloc_def sub_malloc_def heap al find_block_def find_block_loop.simps ALLOC_BLOCK_SIZE_def set_free_def
        u64_of_int_def Let_def)
  define s2 where "s2 = s1\<lparr>kheap := (kheap s1)\<lparr>vm := shared_vm\<lparr>phys_mgr := mgr\<rparr>\<rparr>\<rparr>"
  have "kalloc_block s1 = Inr (s2, b)" using 1(2) b(1) by (simp add: kalloc_block_def s2_def)
  moreover have "paging shared_level (vm (kheap s2))" using shared_paging by (simp add: paging_def s2_def)
  moreover have "locate (phys_mem (vm (kheap s2))) (cr3 (vm (kheap s2))) (indices (UserHeap - 0x1000)) = Some (0xA000, 0x7F)"
    using shared_locate [OF heap_indices] by (simp add: s2_def shared_vm_def example_paged_def)
  moreover have "PAGE_PML4_OFFSET (UserHeap - 0x1000) \<noteq> 510" using heap_indices by (simp add: indices_def)
  ultimately have "mmap_ready (UserHeap - 0x1000) 0x1010 b s2 (proc_of (shared_sys first final))"
    using 1(1) b(2) missing_located by (fastforce simp: mmap_ready_def proc_of_def sys_kernel_def available_def)
  then show ?thesis by (rule that)
qed

lemma page_fault_cow:
  assumes sh: "shared_page L (sys_vm s) (e_cr2 e) f"
    and blk: "mmgr_alloc_block (phys_mgr (sys_vm s)) = Inr (mgr, b)" "frame_addr b"
    and cur: "currentThread (sys_kernel s) = c" "c \<noteq> 0" "pcr3 (threads (sys_kernel s) c) = cr3 (sys_vm s)"
    and far: "near_area (sys_vmas s) (e_cr2 e) (mmap_first (threads (sys_kernel s) c)) = Some False"
  obtains s' where "page_fault_handler e s = Inr s'"
    and "sys_mem s' = (\<lambda>x. if unat (x - b) < 4096 then sys_mem s (f + (x - b)) else sys_mem s x)"
    and "cr3 (sys_vm s') = cr3 (sys_vm s)"
    and "\<And>w. PAGE_PML4_OFFSET w \<noteq> 510 \<Longrightarrow> walk (phys_mem (sys_vm s')) (cr3 (sys_vm s)) w =
      (if indices w = indices (e_cr2 e) then Some (b + (w AND 0xFFF)) else walk (phys_mem (sys_vm s)) (cr3 (sys_vm s)) w)"
    and "is_scheduler_on (sys_kernel s') = is_scheduler_on (sys_kernel s)"
proof -
  let ?a = "e_cr2 e" and ?p = "proc_of s"
  have k: "kern_st ?p = sys_kernel s" "user_mem ?p = sys_mem s" by (simp_all add: proc_of_def sys_kernel_def)
  obtain p' where p': "cow_fault ?a ?p = Inr p'"
      "user_mem p' = (\<lambda>x. if unat (x - b) < 4096 then sys_mem s (f + (x - b)) else sys_mem s x)"
      "cr3 (vm (kheap (kern_st p'))) = cr3 (sys_vm s)"
      "\<And>w. PAGE_PML4_OFFSET w \<noteq> 510 \<Longrightarrow> walk (phys_mem (vm (kheap (kern_st p')))) (cr3 (sys_vm s)) w =
        (if indices w = indices ?a then Some (b + (w AND 0xFFF)) else walk (phys_mem (sys_vm s)) (cr3 (sys_vm s)) w)"
      "is_scheduler_on (kern_st p') = is_scheduler_on (sys_kernel s)"
    by (rule cow_fault_copies [of L ?p ?a f mgr b c, unfolded k, OF sh blk cur]) blast
  obtain T i where pte: "vload (get_pte_recurse ?a) (sys_vm s) = Inr (phys_mem (sys_vm s) (ent T i))"
      "phys_mem (sys_vm s) (ent T i) AND PTE_COW \<noteq> 0"
    using sh located_entry by (fastforce simp: shared_page_def)
  have run: "page_fault_handler e s = Inr (set_proc p' s)"
    using cur far pte p'(1) by (simp add: page_fault_handler_def get_thread_def on_proc_def Let_def)
  show ?thesis by (rule that [OF run]) (use p'(2-5) in \<open>simp_all add: set_proc_def sys_kernel_def\<close>)
qed

section \<open>Properties\<close>

text \<open>
  C10. A write to a page that \<open>fork\<close> has shared. If the page of the faulting address is present and marked copy-on-write,
  the address is neither the start of a memory area nor at most 100 bytes below one, and the allocator returns a frame, then the
  handler makes the page of the process translate into that frame, with the bytes of the old frame. No byte outside the new
  frame changes, so the other process that shares the old one sees its own bytes as before, and no other page of the process
  moves.
\<close>

theorem page_fault_copies_page:
  assumes sh: "shared_page L (sys_vm s) (e_cr2 e) f"
    and blk: "mmgr_alloc_block (phys_mgr (sys_vm s)) = Inr (mgr, b)" "frame_addr b"
    and cur: "currentThread (sys_kernel s) = c" "c \<noteq> 0" "pcr3 (threads (sys_kernel s) c) = cr3 (sys_vm s)"
    and far: "near_area (sys_vmas s) (e_cr2 e) (mmap_first (threads (sys_kernel s) c)) = Some False"
  shows "\<exists>s'. page_fault_handler e s = Inr s' \<and>
    (\<forall>j<4096. walk (phys_mem (sys_vm s')) (cr3 (sys_vm s')) (PAGE_PHYSICAL_ADDRESS (e_cr2 e) + of_nat j) =
        Some (b + of_nat j) \<and> sys_mem s' (b + of_nat j) = sys_mem s (f + of_nat j)) \<and>
    (\<forall>x. 4096 \<le> unat (x - b) \<longrightarrow> sys_mem s' x = sys_mem s x) \<and>
    (\<forall>w. PAGE_PML4_OFFSET w \<noteq> 510 \<and> indices w \<noteq> indices (e_cr2 e) \<longrightarrow>
       walk (phys_mem (sys_vm s')) (cr3 (sys_vm s')) w =
       walk (phys_mem (sys_vm s)) (cr3 (sys_vm s)) w)"
proof -
  let ?a = "e_cr2 e"
  obtain s' where s': "page_fault_handler e s = Inr s'"
      "sys_mem s' = (\<lambda>x. if unat (x - b) < 4096 then sys_mem s (f + (x - b)) else sys_mem s x)" "cr3 (sys_vm s') = cr3 (sys_vm s)"
      "\<And>w. PAGE_PML4_OFFSET w \<noteq> 510 \<Longrightarrow> walk (phys_mem (sys_vm s')) (cr3 (sys_vm s)) w =
        (if indices w = indices ?a then Some (b + (w AND 0xFFF)) else walk (phys_mem (sys_vm s)) (cr3 (sys_vm s)) w)"
    by (rule page_fault_cow [OF assms]) blast
  have slot: "PAGE_PML4_OFFSET (PAGE_PHYSICAL_ADDRESS ?a + of_nat j) \<noteq> 510" if "j < 4096" for j
    using page_byte(1) [OF that, of ?a] user_slot [of ?a] sh by (simp add: indices_def shared_page_def)
  have u: "unat (of_nat j :: u64) = j" if "j < 4096" for j using that by (simp add: unat_of_nat)
  show ?thesis using s' slot page_byte u by (intro exI [of _ s']) auto
qed

theorem page_fault_copies_page_witness:
  "\<exists>s' b. page_fault_handler (example_env []\<lparr>e_cr2 := 0x80123\<rparr>) (shared_sys 0 0) = Inr s' \<and>
     walk (phys_mem (sys_vm s')) (cr3 (sys_vm s')) 0x80123 = Some (b + 0x123) \<and> sys_mem s' (b + 0x123) = 65"
proof -
  obtain mgr b where b: "mmgr_alloc_block (example_mgr 128) = Inr (mgr, b)" "frame_addr b" by (rule shared_frame)
  have near: "near_area m a 0 = Some False" for m a by (simp add: near_area.simps)
  have pg: "PAGE_PHYSICAL_ADDRESS 0x80123 = 0x80000" by (simp add: PAGE_PHYSICAL_ADDRESS_def)
  have j: "(0x123 :: nat) < 4096" by simp
  from page_fault_copies_page [where L = shared_level and s = "shared_sys 0 0" and e = "example_env []\<lparr>e_cr2 := 0x80123\<rparr>"
      and f = "0xB000" and mgr = mgr and b = b and c = 24] shared_heap_page b near
  obtain s' where s': "page_fault_handler (example_env []\<lparr>e_cr2 := 0x80123\<rparr>) (shared_sys 0 0) = Inr s'"
      "\<forall>j<4096. walk (phys_mem (sys_vm s')) (cr3 (sys_vm s')) (0x80000 + of_nat j) = Some (b + of_nat j) \<and>
         sys_mem s' (b + of_nat j) = sys_mem (shared_sys 0 0) (0xB000 + of_nat j)"
    by (auto simp: pg example_thread_def)
  from s'(2) [rule_format, OF j] s'(1) show ?thesis by auto
qed

text \<open>
  C23. A page fault is not transparent to the program: when the handler returns, the stub stores its result over the saved RAX,
  so that the frame from which the program resumes holds 1 there, whatever the register was, and is otherwise as the
  handler left it.
\<close>

theorem page_fault_loses_rax:
  assumes "reg_intNo (regs_at (kmem (sys_kernel s)) frame) = 0xE" and "page_fault_handler e s = Inr s1"
    and "isr_common_stub e frame s = Inr (s2, sp)"
  shows "regs_at (kmem (sys_kernel s2)) frame = (regs_at (kmem (sys_kernel s1)) frame)\<lparr>reg_rax := 1\<rparr>"
proof -
  have "fault_handler e (regs_at (kmem (sys_kernel s)) frame) s = Inr (s1, 1)"
    using assms(1,2) by (simp add: fault_handler_def with_val_def)
  then have "kmem (sys_kernel s2) = (kmem (sys_kernel s1))(frame + 0x70 := 1)"
    using assms(3) by (auto simp: isr_common_stub_def sys_kernel_def Let_def split: if_splits dest!: context_switch_kmem)
  then show ?thesis by (simp only: regs_at_rax)
qed

theorem page_fault_loses_rax_witness:
  "\<exists>s2 sp. isr_common_stub (example_env []\<lparr>e_cr2 := 0x80123\<rparr>) 0x9000 (shared_sys 0 0) = Inr (s2, sp) \<and>
     reg_rax (regs_at (kmem (sys_kernel (shared_sys 0 0))) 0x9000) = 77 \<and> reg_rax (regs_at (kmem (sys_kernel s2)) 0x9000) = 1"
proof -
  let ?e = "example_env []\<lparr>e_cr2 := 0x80123\<rparr>" and ?s = "shared_sys 0 0"
  obtain mgr b where b: "mmgr_alloc_block (example_mgr 128) = Inr (mgr, b)" "frame_addr b" by (rule shared_frame)
  have near: "near_area m a 0 = Some False" for m a by (simp add: near_area.simps)
  obtain s1 where 1: "page_fault_handler ?e ?s = Inr s1" "\<not> is_scheduler_on (sys_kernel s1)"
    by (rule page_fault_cow [where L = shared_level and s = ?s and e = ?e and f = "0xB000" and mgr = mgr and b = b and c = 24])
       (use shared_heap_page b near in \<open>auto simp: example_thread_def\<close>)
  have regs: "reg_intNo (regs_at (kmem (sys_kernel ?s)) 0x9000) = 0xE" "reg_rax (regs_at (kmem (sys_kernel ?s)) 0x9000) = 77"
    by (simp_all add: regs_at_def regs_of_words_def shared_sys_def sys_kernel_def)
  then have "fault_handler ?e (regs_at (kmem (sys_kernel ?s)) 0x9000) ?s = Inr (s1, 1)"
    using 1(1) by (simp add: fault_handler_def with_val_def)
  with 1(2) obtain s2 sp where 2: "isr_common_stub ?e 0x9000 ?s = Inr (s2, sp)"
    by (simp add: isr_common_stub_def Let_def)
  from page_fault_loses_rax [OF regs(1) 1(1) 2] show ?thesis using 2 regs(2) by auto
qed

text \<open>
  C24. The growth of the stack maps the wrong page. For a fault just below some area the handler maps the page below the newest
  area of the process to a fresh frame; this need not be the page that was hit. Unless the faulting address lies in that page, its
  translation stays what it was, and the program faults again at the same place.
\<close>

theorem stack_growth_misses_page:
  assumes cur: "currentThread (sys_kernel s) = c" "c \<noteq> 0" "kernel_thread (threads (sys_kernel s) c) = 0"
      "no_stack_pages (threads (sys_kernel s) c) \<le> 4"
    and near: "near_area (sys_vmas s) (e_cr2 e) (mmap_first (threads (sys_kernel s) c)) = Some True"
    and xs: "vma_list (proc_of s) c xs" "xs \<noteq> []" "vma \<notin> set xs"
    and ready: "mmap_ready (vm_start (sys_vmas s (last xs)) - 0x1000) vma b s2 (proc_of s)"
    and other: "indices (e_cr2 e) \<noteq> indices (vm_start (sys_vmas s (last xs)) - 0x1000)" "PAGE_PML4_OFFSET (e_cr2 e) \<noteq> 510"
  shows "\<exists>s'. page_fault_handler e s = Inr s' \<and>
    walk (phys_mem (sys_vm s')) (cr3 (sys_vm s')) (e_cr2 e) = walk (phys_mem (sys_vm s)) (cr3 (sys_vm s)) (e_cr2 e) \<and>
    (\<forall>v. indices v = indices (vm_start (sys_vmas s (last xs)) - 0x1000) \<longrightarrow>
       walk (phys_mem (sys_vm s')) (cr3 (sys_vm s')) v = Some (b + (v AND 0xFFF)))"
proof -
  obtain s' where s': "page_fault_handler e s = Inr s'" "cr3 (sys_vm s') = cr3 (sys_vm s)"
      "\<And>v. PAGE_PML4_OFFSET v \<noteq> 510 \<Longrightarrow> walk (phys_mem (sys_vm s')) (cr3 (sys_vm s)) v =
        (if indices v = indices (vm_start (sys_vmas s (last xs)) - 0x1000) then Some (b + (v AND 0xFFF))
         else walk (phys_mem (sys_vm s)) (cr3 (sys_vm s)) v)"
    by (rule page_fault_grows [OF cur near xs ready]) blast
  have "PAGE_PML4_OFFSET v \<noteq> 510" if "indices v = indices (vm_start (sys_vmas s (last xs)) - 0x1000)" for v
    using that ready by (auto simp: mmap_ready_def indices_def)
  then show ?thesis using s' other by (intro exI [of _ s']) simp
qed

theorem stack_growth_misses_page_witness:
  "\<exists>s'. page_fault_handler (example_env []\<lparr>e_cr2 := UserStack - 8\<rparr>) (shared_sys 0x100 0x200) = Inr s' \<and>
     walk (phys_mem (sys_vm s')) (cr3 (sys_vm s')) (UserStack - 8) = None \<and>
     walk (phys_mem (sys_vm s')) (cr3 (sys_vm s')) (UserHeap - 0x1000) \<noteq> None"
proof -
  let ?e = "example_env []\<lparr>e_cr2 := UserStack - 8\<rparr>" and ?s = "shared_sys 0x100 0x200"
  have near: "near_area (sys_vmas ?s) (UserStack - 8) 0x100 = Some True"
    by (simp add: near_area.simps shared_sys_def)
  have last: "vm_start (sys_vmas ?s 0x200) = UserHeap" by (simp add: shared_sys_def)
  have xs: "vma_list (proc_of ?s) 24 [0x100, 0x200]"
    by (simp add: vma_list_def proc_of_def shared_sys_def example_kernel_def zero_vma_def)
  obtain mgr b where b: "mmgr_alloc_block (example_mgr 128) = Inr (mgr, b)" "frame_addr b" by (rule shared_frame)
  obtain s2 where ready: "mmap_ready (UserHeap - 0x1000) 0x1010 b s2 (proc_of ?s)" by (rule shared_ready [OF b])
  have i: "indices (UserStack - 8) = [0, 0, 5, 0x1FE]" "indices (UserHeap - 0x1000) = [0, 0, 0, 0x7F]" "PAGE_PML4_OFFSET (UserStack - 8) \<noteq> 510"
    by (simp_all add: indices_def PAGE_PML4_OFFSET_def PAGE_POINTER_OFFSET_def PAGE_DIRECTORY_OFFSET_def PAGE_TABLE_OFFSET_def
        UserStack_def UserHeap_def)
  have "points 0x8007" "points 0x9007" by (simp_all add: points_def bit_iff_odd)
  then have none: "walk (phys_mem shared_vm) 0x1000 (UserStack - 8) = None"
    by (simp add: walk_def i(1) shared_vm_def shared_mem_eq example_mem_eq ent_def PAGE_PHYSICAL_ADDRESS_def points_def)
  from stack_growth_misses_page [of ?s 24 ?e "[0x100, 0x200]" "0x1010" b s2] near xs ready i last none
  show ?thesis by (auto simp: example_thread_def)
qed

text \<open>
  C26. A write to a page that \<open>fork\<close> has shared is not always followed by a copy: at the first byte of a memory area, or at most
  100 bytes below it, the handler takes the fault for one of the stack. It maps the page below the newest area, and unless this is
  the page of the faulting address, that page still translates into the shared frame and no byte of the memory has changed.
\<close>

theorem cow_fault_at_area_start:
  assumes sh: "shared_page L (sys_vm s) (e_cr2 e) f"
    and cur: "currentThread (sys_kernel s) = c" "c \<noteq> 0" "kernel_thread (threads (sys_kernel s) c) = 0"
      "no_stack_pages (threads (sys_kernel s) c) \<le> 4"
    and xs: "vma_list (proc_of s) c xs" "area \<in> set xs" "vma \<notin> set xs"
    and start: "vm_start (sys_vmas s area) - e_cr2 e \<le> 100"
    and ready: "mmap_ready (vm_start (sys_vmas s (last xs)) - 0x1000) vma b s2 (proc_of s)"
    and other: "indices (e_cr2 e) \<noteq> indices (vm_start (sys_vmas s (last xs)) - 0x1000)"
  shows "\<exists>s'. page_fault_handler e s = Inr s' \<and> sys_mem s' = sys_mem s \<and>
    (\<forall>j<4096. walk (phys_mem (sys_vm s')) (cr3 (sys_vm s')) (PAGE_PHYSICAL_ADDRESS (e_cr2 e) + of_nat j) = Some (f + of_nat j))"
proof -
  have "areas (sys_vmas s) (mmap_first (threads (sys_kernel s) c)) xs" using xs(1) by (simp add: vma_list_def proc_of_def sys_kernel_def)
  then have near: "near_area (sys_vmas s) (e_cr2 e) (mmap_first (threads (sys_kernel s) c)) = Some True"
    using near_area_list start xs(2) by auto
  have "xs \<noteq> []" using xs(2) by auto
  then obtain s' where s': "page_fault_handler e s = Inr s'" "cr3 (sys_vm s') = cr3 (sys_vm s)" "sys_mem s' = sys_mem s"
      "\<And>v. PAGE_PML4_OFFSET v \<noteq> 510 \<Longrightarrow> walk (phys_mem (sys_vm s')) (cr3 (sys_vm s)) v =
        (if indices v = indices (vm_start (sys_vmas s (last xs)) - 0x1000) then Some (b + (v AND 0xFFF))
         else walk (phys_mem (sys_vm s)) (cr3 (sys_vm s)) v)"
    using page_fault_grows [OF cur near xs(1) _ xs(3) ready] by blast
  let ?a = "e_cr2 e"
  have "PAGE_PML4_OFFSET (PAGE_PHYSICAL_ADDRESS ?a + of_nat j) \<noteq> 510" if "j < 4096" for j
    using page_byte(1) [OF that, of ?a] user_slot [of ?a] sh by (simp add: indices_def shared_page_def)
  then show ?thesis
    using s' other page_byte(1) [of _ ?a] shared_page_walk [OF sh] by (intro exI [of _ s']) simp
qed

theorem cow_fault_at_area_start_witness:
  "\<exists>s'. page_fault_handler (example_env []\<lparr>e_cr2 := UserHeap\<rparr>) (shared_sys 0x100 0x200) = Inr s' \<and>
     walk (phys_mem (sys_vm s')) (cr3 (sys_vm s')) UserHeap = Some 0xB000"
proof -
  let ?e = "example_env []\<lparr>e_cr2 := UserHeap\<rparr>" and ?s = "shared_sys 0x100 0x200"
  have h: "UserHeap = 0x80000" by (simp add: UserHeap_def)
  have sh: "shared_page shared_level (sys_vm ?s) (e_cr2 ?e) 0xB000" using shared_heap_page [of "0x80000"] by (simp add: h)
  have st: "vm_start (sys_vmas ?s 0x200) = UserHeap" by (simp add: shared_sys_def)
  have xs: "vma_list (proc_of ?s) 24 [0x100, 0x200]"
    by (simp add: vma_list_def proc_of_def shared_sys_def example_kernel_def zero_vma_def)
  obtain mgr b where b: "mmgr_alloc_block (example_mgr 128) = Inr (mgr, b)" "frame_addr b" by (rule shared_frame)
  obtain s2 where ready: "mmap_ready (UserHeap - 0x1000) 0x1010 b s2 (proc_of ?s)" by (rule shared_ready [OF b])
  have i: "indices UserHeap \<noteq> indices (UserHeap - 0x1000)"
    by (simp add: h indices_def PAGE_PML4_OFFSET_def PAGE_POINTER_OFFSET_def PAGE_DIRECTORY_OFFSET_def PAGE_TABLE_OFFSET_def)
  have pg: "PAGE_PHYSICAL_ADDRESS UserHeap = UserHeap" by (simp add: h PAGE_PHYSICAL_ADDRESS_def)
  from cow_fault_at_area_start [of _ ?s ?e "0xB000" 24 "[0x100, 0x200]" "0x200" "0x1010" b s2, OF sh _ _ _ _ xs]
  obtain s' where s': "page_fault_handler ?e ?s = Inr s'"
      "\<forall>j<4096. walk (phys_mem (sys_vm s')) (cr3 (sys_vm s')) (UserHeap + of_nat j) = Some (0xB000 + of_nat j)"
    using ready i by (auto simp: st pg example_thread_def)
  from s'(2) [rule_format, of 0] s'(1) show ?thesis by auto
qed

end
