(* ===== verification/Reading.thy ===== *)
theory Reading
  imports Faults
begin

text \<open>
  Reading from the keyboard, from the keys to the buffer of the process: the keyboard interrupts that arrive while \<open>doread\<close>
  waits fill the line, and the call copies it to the process, together with what an earlier, longer line left in the array.
\<close>

section \<open>Keys during a read\<close>

definition with_keyboard :: "console \<Rightarrow> line_buffer \<Rightarrow> sys_state \<Rightarrow> sys_state" where
  "with_keyboard con b s =
     s\<lparr>sys_machine := (sys_machine s)\<lparr>m_keyboard := (m_keyboard (sys_machine s))\<lparr>kb_console := con, kb_line := b\<rparr>\<rparr>\<rparr>"

abbreviation sys_keyboard :: "sys_state \<Rightarrow> keyboard" where
  "sys_keyboard s \<equiv> m_keyboard (sys_machine s)"

definition keyboard_ready :: "sys_state \<Rightarrow> bool" where
  "keyboard_ready s \<longleftrightarrow> length (irq_routines (sys_machine s)) = 16 \<and>
     irq_routines (sys_machine s) ! 1 = Some Keyboard_routine \<and> console_inv (kb_console (sys_keyboard s))"

lemma with_keyboard_simps [simp]:
  "sys_line (with_keyboard con b s) = b" "with_keyboard con' b' (with_keyboard con b s) = with_keyboard con' b' s"
  "typed (sys_keyboard (with_keyboard con b s)) = typed (sys_keyboard s)"
  "proc_of (with_keyboard con b s) = proc_of s"
  "sys_kernel (with_keyboard con b s) = sys_kernel s" "sys_mem (with_keyboard con b s) = sys_mem s"
  by (auto simp: with_keyboard_def sys_line_def typed_def keycode_to_ascii_def fun_eq_iff proc_of_def sys_kernel_def)

lemma key_step:
  assumes k: "keyboard_ready s" and c: "unat c < 83" "c \<notin> {0x1D, 0x2A, 0x36, 0x38, 0x3A}" and r: "reading (sys_line s) \<noteq> 0"
    and b: "write_io_buff (typed (sys_keyboard s) c) (sys_line s) = Inr b"
  obtains con where "interrupt (Key 1 c) s = Inr (with_keyboard con b s)" and "console_inv con"
proof -
  let ?m = "sys_machine s" let ?k = "m_keyboard ?m"
  have inv: "console_inv (kb_console ?k)" using k by (simp add: keyboard_ready_def)
  obtain con where con: "keyboard_handler 1 c ?k = Inr (?k\<lparr>kb_console := con, kb_line := b\<rparr>)" "console_inv con"
    by (rule keyboard_handler_make [OF c inv r [unfolded sys_line_def] b [unfolded sys_line_def]])
  let ?con = "outb 0x20 0x20 (outb 0xA0 0x20 con)"
  have "console_inv ?con" using con(2) by (simp add: outb_def console_inv_def)
  moreover have "interrupt (Key 1 c) s = Inr (with_keyboard ?con b s)"
    using k con(1) by (simp add: interrupt_def irq_entry keyboard_ready_def run_entry_def m_outb_def with_keyboard_def Let_def)
  ultimately show ?thesis using that by blast
qed

lemma typing_line:
  assumes "keyboard_ready s" and "reading (sys_line s) = 1" and "\<forall>c\<in>set cs. text_key (sys_keyboard s) c"
    and "cs \<noteq> [] \<or> first_char (sys_line s) \<noteq> 0"
    and "io_buff (sys_line s) = Some (int i)" and "i + length cs < length (iobuff (sys_line s))"
  shows "\<exists>con. busy_wait (\<lambda>s. reading (sys_line s) = 1) (map (\<lambda>c. interrupt (Key 1 c)) (cs @ [0x1C])) s =
    Inr (with_keyboard con \<lparr>iobuff = filled i (map (typed (sys_keyboard s)) cs @ [13]) (iobuff (sys_line s)),
      io_buff = Some (int (i + length cs + 1)), reading = 0, first_char = 1\<rparr> s)"
  using assms
proof (induction cs arbitrary: s i)
  case Nil
  have e: "typed (sys_keyboard s) 0x1C = 13" by (simp add: typed_def enter_key)
  let ?b = "\<lparr>iobuff = filled i [13] (iobuff (sys_line s)), io_buff = Some (int (i + 1)), reading = 0, first_char = 1\<rparr>"
  have b: "write_io_buff 13 (sys_line s) = Inr ?b"
    using write_io_buff_at [OF Nil(5), of 13] Nil filled_Cons [of i "iobuff (sys_line s)" "[]" 13] by simp
  obtain con where "interrupt (Key 1 0x1C) s = Inr (with_keyboard con ?b s)"
    by (rule key_step [of s "0x1C", unfolded e, OF Nil(1) _ _ _ b]) (use Nil in auto)
  then show ?case using Nil(2) by auto
next
  case (Cons c cs)
  then have c: "unat c < 83" "c \<notin> {0x1D, 0x2A, 0x36, 0x38, 0x3A}" "typed (sys_keyboard s) c \<notin> {10, 13}"
    by (simp_all add: text_key_def)
  let ?x = "typed (sys_keyboard s) c" and ?l = "sys_line s"
  let ?b = "?l\<lparr>iobuff := (iobuff ?l)[i := ?x], io_buff := Some (int (Suc i)), first_char := 1\<rparr>"
  have i: "i < length (iobuff ?l)" using Cons.prems(6) by simp
  have "write_io_buff ?x ?l = Inr ?b" using write_io_buff_at [OF Cons.prems(5) i, of ?x] c(3) by simp
  then obtain con where con: "interrupt (Key 1 c) s = Inr (with_keyboard con ?b s)" "console_inv con"
    using key_step [OF Cons.prems(1) c(1,2)] Cons.prems(2) by auto
  let ?s = "with_keyboard con ?b s"
  have t: "typed (sys_keyboard ?s) = typed (sys_keyboard s)" by simp
  have r: "keyboard_ready ?s" using Cons.prems(1) con(2) by (simp add: keyboard_ready_def with_keyboard_def)
  have "\<forall>c\<in>set cs. text_key (sys_keyboard ?s) c" using Cons.prems(3) t by (simp add: text_key_def)
  from Cons.IH [OF r _ this, of "Suc i"] Cons.prems(2,6) show ?case
    using con(1) filled_Cons [OF i] unfolding t by simp
qed

section \<open>Strings of a process\<close>

lemma user_string_bytes:
  assumes "\<And>i. i \<le> n \<Longrightarrow> vaddr (a + of_nat i) p = Inr (b + of_nat i)" and "\<And>i. i < n \<Longrightarrow> user_mem p (b + of_nat i) \<noteq> 0"
    and "user_mem p (b + of_nat n) = 0"
  shows "user_string_loop a acc p = Some (Inr (acc @ map (\<lambda>i. user_mem p (b + of_nat i)) [0..<n] @ [0]))"
  using assms
proof (induction n arbitrary: a b acc)
  case 0
  then show ?case by (simp add: user_string_loop.simps get_byte_def)
next
  case (Suc n)
  have 0: "get_byte a p = Inr (user_mem p b)" "user_mem p b \<noteq> 0"
    using Suc.prems(1) [of 0] Suc.prems(2) [of 0] by (simp_all add: get_byte_def)
  have "user_string_loop (a + 1) (acc @ [user_mem p b]) p =
      Some (Inr ((acc @ [user_mem p b]) @ map (\<lambda>i. user_mem p (b + 1 + of_nat i)) [0..<n] @ [0]))"
    by (rule Suc.IH) (use Suc.prems(1) [of "Suc _"] Suc.prems(2) [of "Suc _"] Suc.prems(3) in \<open>simp_all add: add.assoc\<close>)
  then show ?case
    using 0 by (simp add: user_string_loop.simps [of a] upt_conv_Cons map_Suc_upt [symmetric] add.assoc del: upt_Suc map_Suc_upt)
qed

text \<open>The first \<open>n + 1\<close> bytes from \<open>buf\<close> on lie in one piece of memory, at \<open>b\<close>.\<close>

definition buffer_at :: "u64 \<Rightarrow> u64 \<Rightarrow> nat \<Rightarrow> proc_state \<Rightarrow> bool" where
  "buffer_at buf b n p \<longleftrightarrow> (\<forall>i\<le>n. vaddr (buf + of_nat i) p = Inr (b + of_nat i))"

lemma copied_string:
  assumes at: "buffer_at buf b (length l) p" and len: "length l \<le> 2 ^ 62" and z: "user_mem p (b + of_nat (length l)) = 0" "0 \<notin> set l"
  obtains p' where "copy_to_user buf l p = Inr p'" and "kern_st p' = kern_st p"
    and "user_mem p' = (\<lambda>x. if unat (x - b) < length l then l ! unat (x - b) else user_mem p x)"
    and "user_string_loop buf [] p' = Some (Inr (l @ [0]))" and "copy_from_user buf (length l) p' = Inr l"
proof -
  define m where "m = (\<lambda>x. if unat (x - b) < length l then l ! unat (x - b) else user_mem p x)"
  let ?p = "p\<lparr>user_mem := m\<rparr>"
  have u: "unat (of_nat i :: u64) = i" if "i \<le> length l" for i using that len by (simp add: unat_of_nat)
  have run: "copy_to_user buf l p = Inr ?p"
    unfolding m_def using at len by (intro copy_to_user_bytes) (simp_all add: buffer_at_def)
  have m: "m (b + of_nat i) = l ! i" if "i < length l" for i using that u [of i] by (simp add: m_def)
  have l: "map (\<lambda>i. m (b + of_nat i)) [0..<length l] = l" by (intro nth_equalityI) (simp_all add: m)
  have "m (b + of_nat (length l)) = 0" using z(1) u [of "length l"] by (simp add: m_def)
  then have "user_string_loop buf [] ?p = Some (Inr ([] @ map (\<lambda>i. user_mem ?p (b + of_nat i)) [0..<length l] @ [0]))"
    using at m z(2) by (intro user_string_bytes) (auto simp: buffer_at_def in_set_conv_nth)
  then have "user_string_loop buf [] ?p = Some (Inr (l @ [0]))" using l by simp
  moreover have "copy_from_user buf (length l) ?p = Inr (map (\<lambda>i. user_mem ?p (b + of_nat i)) [0..<length l])"
    by (rule copy_from_user_bytes) (use at in \<open>simp add: buffer_at_def\<close>)
  then have "copy_from_user buf (length l) ?p = Inr l" using l by simp
  ultimately show ?thesis by (intro that [OF run]) (simp_all add: m_def)
qed

lemma vaddr_cong: "kheap (kern_st p) = kheap (kern_st q) \<Longrightarrow> vaddr a p = vaddr a q"
  by (simp add: vaddr_def)

lemma cstring_append: "0 \<notin> set l \<Longrightarrow> cstring (l @ r) = l @ cstring r"
  by (induction l) (auto simp: cstring_def)

lemma line_string:
  assumes "0 \<notin> set t" and "0 \<in> set r" and "l = t @ cstring r"
  shows "strlen (t @ r) = Inr (int (length l))" and "take (length l) (t @ r) = l" and "0 \<notin> set l"
    and "length l < length (t @ r)"
proof -
  have c: "cstring (t @ r) = l" using cstring_append [OF assms(1)] assms(3) by simp
  show "strlen (t @ r) = Inr (int (length l))" using assms(2) c strlen_Inr [of "t @ r"] by simp
  show "take (length l) (t @ r) = l" using take_cstring [of "t @ r"] unfolding c .
  show "0 \<notin> set l" unfolding c [symmetric] by (auto simp: cstring_def dest: set_takeWhileD)
  show "length l < length (t @ r)" using length_cstring [of "t @ r"] assms(2) unfolding c by simp
qed

section \<open>Properties\<close>

text \<open>
  C14. Reading a line. While no other process reads, a call that reads from the keyboard returns once a line of text has been typed,
  and the buffer of the process then holds the characters of the keys and the line end 13, followed by whatever the array of the
  kernel held behind them up to its terminator: the rest of an earlier line, when that was longer. The result is the length
  of all this, where the buffer of the process holds a zero behind it, and no other byte of memory has changed. The line with its
  end fits into the array, of which a byte behind it is zero.
\<close>

theorem doread_returns_line:
  assumes kb: "keyboard_ready s" "\<forall>c\<in>set cs. text_key (sys_keyboard s) c \<and> typed (sys_keyboard s) c \<noteq> 0"
      "cs \<noteq> [] \<or> first_char (sys_line s) \<noteq> 0"
    and idle: "reading (sys_line s) \<noteq> 1" "reading_finished s \<noteq> 0"
    and old: "length (iobuff (sys_line s)) = 1024" "0 \<in> set (drop (Suc (length cs)) (iobuff (sys_line s)))"
    and l: "l = map (typed (sys_keyboard s)) cs @ [13] @ cstring (drop (Suc (length cs)) (iobuff (sys_line s)))"
    and buf: "buffer_at buf b (length l) (proc_of s)" "sys_mem s (b + of_nat (length l)) = 0"
    and ev: "e_events e = map (\<lambda>c. interrupt (Key 1 c)) (cs @ [0x1C])"
  shows "\<exists>s'. doread e buf 0 cnt s = Inr (s', int (length l)) \<and> copy_from_user buf (length l) (proc_of s') = Inr l \<and>
    sys_mem s' = (\<lambda>x. if unat (x - b) < length l then l ! unat (x - b) else sys_mem s x) \<and>
    reading (sys_line s') = 0 \<and> reading_finished s' = 1"
proof -
  let ?t = "map (typed (sys_keyboard s)) cs @ [13]" and ?r = "drop (Suc (length cs)) (iobuff (sys_line s))"
  define s1 where "s1 = set_line ((sys_line (sys_sti s))\<lparr>reading := 1, io_buff := Some 0\<rparr>) ((sys_sti s)\<lparr>reading_finished := 0\<rparr>)"
  have kb1: "typed (sys_keyboard s1) = typed (sys_keyboard s)" "keyboard_ready s1"
      "sys_line s1 = (sys_line s)\<lparr>reading := 1, io_buff := Some (int 0)\<rparr>"
    using kb(1)
    by (simp_all add: s1_def set_line_def sys_sti_def sys_line_def keyboard_ready_def typed_def keycode_to_ascii_def fun_eq_iff)
  have cs: "length cs < 1024" using old by (cases "Suc (length cs) < 1024") auto
  then obtain con where w: "busy_wait (\<lambda>s. reading (sys_line s) = 1) (e_events e) s1 =
      Inr (with_keyboard con \<lparr>iobuff = ?t @ ?r, io_buff = Some (int (length cs + 1)), reading = 0, first_char = 1\<rparr> s1)"
    using typing_line [of s1 cs 0] kb kb1 old(1) unfolding ev by (auto simp: text_key_def filled_def)
  define s2 where "s2 = with_keyboard con \<lparr>iobuff = ?t @ ?r, io_buff = Some (int (length cs + 1)), reading = 0, first_char = 1\<rparr> s1"
  have nz: "0 \<notin> set ?t" using kb(2) by auto
  note len = line_string [OF nz old(2) l [folded append_assoc]]
  have bound: "length l \<le> 2 ^ 62" using len(4) old(1) cs by simp
  have heap: "kheap (kern_st (proc_of s2)) = kheap (kern_st (proc_of s))" "user_mem (proc_of s2) = sys_mem s"
    by (simp_all add: s2_def s1_def set_line_def sys_sti_def proc_of_def sys_kernel_def enable_interrupts_def with_keyboard_def)
  have at: "buffer_at buf b (length l) (proc_of s2)" using buf(1) vaddr_cong [OF heap(1)] by (simp add: buffer_at_def)
  obtain p' where p': "copy_to_user buf l (proc_of s2) = Inr p'" "user_string_loop buf [] p' = Some (Inr (l @ [0]))"
      "copy_from_user buf (length l) p' = Inr l" "user_mem p' = (\<lambda>x. if unat (x - b) < length l then l ! unat (x - b) else sys_mem s x)"
    by (rule copied_string [OF at, unfolded heap(2)]) (use len(3) bound buf(2) in auto)
  define s3 where "s3 = set_line ((sys_line (set_proc p' s2))\<lparr>reading := 0\<rparr>) ((set_proc p' s2)\<lparr>reading_finished := 1\<rparr>)"
  have p3: "proc_of s3 = p'" "reading (sys_line s3) = 0" "reading_finished s3 = 1" "sys_mem s3 = user_mem p'"
    by (simp_all add: s3_def set_line_def sys_line_def set_proc_def proc_of_def)
  have w2: "busy_wait (\<lambda>s. reading (sys_line s) = 1) (e_events e) s1 = Inr s2" using w by (simp only: s2_def)
  define A where "A = iobuff (sys_line s2)"
  have "A = ?t @ ?r" by (simp add: A_def s2_def)
  then have "strlen A = Inr (int (length l))" "take (length l) A = l" using len(1,2) by simp_all
  moreover have "strlen (l @ [0]) = Inr (int (length l))" using len(3) strlen_Inr [of "l @ [0]"] by simp
  ultimately have "doread e buf 0 cnt s = Inr (s3, int (length l))"
    using idle w2 p'(1,2) p3(1)
    by (simp add: doread_def doread_line_def on_proc_def user_string_def Let_def s1_def [symmetric] A_def [symmetric] s3_def [symmetric])
       (simp add: sys_sti_def sys_line_def)
  then show ?thesis using p3 p'(3,4) by (intro exI [of _ s3]) simp
qed

text \<open>A process that reads "ls" after it has read "hello".\<close>

theorem doread_returns_line_witness:
  "\<exists>s'. doread (example_env (map (\<lambda>c. interrupt (Key 1 c)) [0x26, 0x1F, 0x1C])) 0x80000 0 100
      (with_keyboard (kb_console example_keyboard)
        \<lparr>iobuff = [104, 101, 108, 108, 111, 13] @ replicate 1018 0, io_buff = Some 6, reading = 0, first_char = 1\<rparr> (shared_sys 0 0)) =
      Inr (s', 6) \<and>
    copy_from_user 0x80000 6 (proc_of s') = Inr [108, 115, 13, 108, 111, 13] \<and> sys_mem s' 0xB006 = 0 \<and> sys_mem s' 0xB123 = 65"
proof -
  let ?old = "[104, 101, 108, 108, 111, 13] @ replicate 1018 0" and ?l = "[108, 115, 13, 108, 111, 13] :: u8 list"
  let ?k = "with_keyboard (kb_console example_keyboard) \<lparr>iobuff = ?old, io_buff = Some 6, reading = 0, first_char = 1\<rparr> (shared_sys 0 0)"
  let ?e = "example_env (map (\<lambda>c. interrupt (Key 1 c)) [0x26, 0x1F, 0x1C])"
  have ready: "keyboard_ready ?k"
    using example_keyboard_inv
    by (simp add: keyboard_ready_def with_keyboard_def shared_sys_def example_sys_def running_machine_def example_machine_def)
  have flags: "typed (sys_keyboard (shared_sys 0 0)) = typed example_keyboard"
    by (simp add: typed_def keycode_to_ascii_def fun_eq_iff shared_sys_def example_sys_def running_machine_def example_machine_def)
  have t: "map (typed example_keyboard) [0x26, 0x1F] = [108, 115]"
    by (simp add: typed_def scan_code_values keycode_to_ascii_def example_keyboard_def)
  then have keys: "\<forall>c\<in>set [0x26, 0x1F]. text_key (sys_keyboard ?k) c \<and> typed (sys_keyboard ?k) c \<noteq> 0"
    by (simp add: text_key_def flags)
  have "cstring (108 # 111 # 13 # replicate 1018 (0 :: u8)) = [108, 111, 13]" by (simp add: cstring_def)
  then have l: "?l = map (typed (sys_keyboard ?k)) [0x26, 0x1F] @ [13] @
      cstring (drop (Suc (length [0x26 :: u8, 0x1F])) (iobuff (sys_line ?k)))"
    using t flags by simp
  have kern: "kern_st (proc_of (shared_sys 0 0)) = sys_kernel (shared_sys 0 0)" by (simp add: proc_of_def sys_kernel_def)
  have "PAGE_PHYSICAL_ADDRESS 0x80123 = 0x80000" by (simp add: PAGE_PHYSICAL_ADDRESS_def)
  then have at: "buffer_at 0x80000 0xB000 (length ?l) (proc_of ?k)"
    using shared_page_walk [OF shared_heap_page, of "0x80123"] kern
    by (simp add: buffer_at_def vaddr_def Let_def)
  have fin: "reading_finished ?k \<noteq> 0" "sys_mem ?k = (\<lambda>_. 0)(0xB123 := 65)"
    by (simp_all add: with_keyboard_def shared_sys_def example_sys_def)
  have ev: "e_events ?e = map (\<lambda>c. interrupt (Key 1 c)) ([0x26, 0x1F] @ [0x1C])" by (simp add: example_env_def)
  have m: "sys_mem ?k (0xB000 + of_nat (length ?l)) = 0" "0 \<in> set (drop (Suc (length [0x26 :: u8, 0x1F])) (iobuff (sys_line ?k)))"
    by (simp_all add: fin(2))
  have n: "length ?l = 6" by simp
  show ?thesis
    using doread_returns_line [OF ready keys _ _ fin(1) _ m(2) l at m(1) ev, of 100] unfolding n by auto
qed

end
