(* ===== verification/User_Programs.thy ===== *)
theory User_Programs
  imports Std_Fns Console
begin

text \<open>
  User space: \<open>printf\<close> of \<open>libc/printf.c\<close>, and the command line of the shell, \<open>bin/shell/shell.c\<close>. The string functions of
  \<open>libc/stdlib.c\<close> are those of \<open>sys/stdfns.c\<close>, letter by letter, and are modelled in \<open>Std_Fns\<close>. A pointer into the array of
  a command line is an offset. That array is a local one of \<open>parseline\<close>, and the pointers outlive it: what its memory holds when
  \<open>eval\<close> reads through them is an argument. So are the arrays that the code does not initialise.
\<close>

section \<open>The printf of user programs\<close>

definition put_char :: "u8 \<Rightarrow> u8 list \<times> u16 \<Rightarrow> (u8 list \<times> u16) res" where
  "put_char c = (\<lambda>(buf, cnt). rbind (arr_set buf (uint cnt) c) (\<lambda>buf. Inr (buf, cnt + 1)))"

text \<open>The loops of \<open>%s\<close>, and of \<open>%d\<close> and \<open>%x\<close>, which copy eight characters of the number.\<close>

fun put_string :: "u8 list \<Rightarrow> u8 list \<times> u16 \<Rightarrow> (u8 list \<times> u16) res" where
  "put_string [] b = Inl OutOfBounds"
| "put_string (c # cs) b = (if c = 0 then Inr b else rbind (put_char c b) (put_string cs))"

definition put_number :: "int \<Rightarrow> u8 list \<times> u16 \<Rightarrow> (u8 list \<times> u16) res" where
  "put_number i b =
     rbind (convert (u64_of_int i) 10) (\<lambda>conv.
     rfold (\<lambda>ind b. rbind (arr_get conv (int ind)) (\<lambda>c. if c \<noteq> 32 then put_char c b else Inr b)) [0..<8] b)"

fun user_printf_loop :: "u8 list \<Rightarrow> printf_arg list \<Rightarrow> u8 list \<times> u16 \<Rightarrow> (u8 list \<times> u16) res" where
  "user_printf_loop [] args b = Inl OutOfBounds"
| "user_printf_loop (c # p) args b =
     (if c = 0 then Inr b
      else if c \<noteq> 37 then rbind (put_char c b) (user_printf_loop p args)
      else case p of
        [] \<Rightarrow> Inl OutOfBounds
      | d # p \<Rightarrow>
          if d = 99 then
            (case args of IntArg i # args \<Rightarrow> rbind (put_char (word_of_int i) b) (user_printf_loop p args) | _ \<Rightarrow> Inl WildPointer)
          else if d = 115 then
            (case args of StrArg t # args \<Rightarrow> rbind (put_string t b) (user_printf_loop p args) | _ \<Rightarrow> Inl WildPointer)
          else if d = 100 then
            (case args of IntArg i # args \<Rightarrow> rbind (put_number i b) (user_printf_loop p args) | _ \<Rightarrow> Inl WildPointer)
          else if d = 120 then
            (case args of IntArg i # args \<Rightarrow>
               rbind (put_char 48 b) (\<lambda>b.
               rbind (put_char 120 b) (\<lambda>b. rbind (put_number i b) (user_printf_loop p args)))
             | _ \<Rightarrow> Inl WildPointer)
          else user_printf_loop p args b)"

text \<open>The string that is written, up to the first zero of the array, which starts with the contents \<open>buf\<close>.\<close>

definition user_printf :: "u8 list \<Rightarrow> u8 list \<Rightarrow> printf_arg list \<Rightarrow> u8 list res" where
  "user_printf buf fmt args =
     rbind (user_printf_loop fmt args (buf, 0)) (\<lambda>(buf, _).
     if 0 \<in> set buf then Inr (cstring buf) else Inl OutOfBounds)"

section \<open>The command line\<close>

definition MAXARGS :: nat where
  "MAXARGS = 10"

definition delims :: "u8 list" where
  "delims = [32, 9, 13, 10, 0, 0, 0, 0, 0, 0]"

text \<open>The loop of \<open>parseline\<close> from the offset \<open>buf\<close> on: the offsets stored in \<open>argv\<close>.\<close>

function parse_loop :: "u8 list \<Rightarrow> nat \<Rightarrow> nat \<Rightarrow> nat list \<Rightarrow> nat list res" where
  "parse_loop arr endbuf buf argv =
     (if buf < endbuf then
        rbind (strcpsn (drop buf arr) delims) (\<lambda>next_str_ind.
        if length argv < MAXARGS then parse_loop arr endbuf (buf + 1 + nat next_str_ind) (argv @ [buf])
        else Inl OutOfBounds)
      else Inr argv)"
  by pat_completeness auto

termination parse_loop
  by (relation "measure (\<lambda>(_, e, b, _). e - b)") auto

text \<open>The value returned, the array, and the entries of \<open>argv\<close> that are set; the others keep the NULL of the caller.\<close>

fun parseline :: "u8 list \<Rightarrow> u8 list option \<Rightarrow> (int \<times> u8 list \<times> nat list) res" where
  "parseline arr None = Inr (-1, arr, [])"
| "parseline arr (Some cmdline) =
     rbind (strncpy arr cmdline 100) (\<lambda>arr.
     rbind (strlen arr) (\<lambda>n.
     rbind (parse_loop arr (nat n) 0 []) (\<lambda>argv. Inr (0, arr, argv))))"

text \<open>What a command does: the system calls of the shell, with the string they get, None where it is the NULL of a missing word.\<close>

datatype command = Cls | Print_pwd | Usage | Exec "u8 list option" | Cd "u8 list option" | Invalid

text \<open>
  The loop of \<open>eval\<close> that copies the first word of \<open>tmp\<close>. Its test takes the length of the whole array, which is positive from
  the current character on exactly when the index is still below it.
\<close>

fun copy_word :: "u8 list \<Rightarrow> u8 list res" where
  "copy_word [] = Inl OutOfBounds"
| "copy_word (c # cs) =
     (if c = 32 \<or> c = 13 then Inr []
      else rbind (strlen (c # cs)) (\<lambda>n. if n = 0 then Inr [] else rbind (copy_word cs) (\<lambda>w. Inr (c # w))))"

text \<open>A pointer of \<open>argv\<close>, with the memory that it refers to, None where it is NULL, and reading through it.\<close>

definition argv_at :: "u8 list \<Rightarrow> nat list \<Rightarrow> nat \<Rightarrow> u8 list option" where
  "argv_at mem argv i = (if i < length argv then Some (drop (argv ! i) mem) else None)"

definition deref :: "u8 list option \<Rightarrow> u8 list res" where
  "deref p = (case p of None \<Rightarrow> Inl NullPointer | Some w \<Rightarrow> Inr w)"

definition user_string :: "string \<Rightarrow> u8 list" where
  "user_string t = map of_char t @ [0]"

definition eval_word :: "u8 list \<Rightarrow> u8 list option \<Rightarrow> command res" where
  "eval_word cmd arg =
     rbind (strcmp cmd (user_string ''cls'')) (\<lambda>r. if r = 0 then Inr Cls else
     rbind (strcmp cmd (user_string ''pwd'')) (\<lambda>r. if r = 0 then Inr Print_pwd else
     rbind (strcmp cmd (user_string ''h'')) (\<lambda>r. if r = 0 then Inr Usage else
     rbind (strcmp cmd (user_string ''exec'')) (\<lambda>r. if r = 0 then Inr (Exec arg) else
     rbind (strcmp cmd (user_string ''cd'')) (\<lambda>r. if r = 0 then Inr (Cd arg) else
     rbind (strcmp cmd (user_string ''ps'')) (\<lambda>r. if r = 0 then Inr (Exec (Some (user_string ''bin/ps''))) else
     rbind (strcmp cmd (user_string ''ll'')) (\<lambda>r. if r = 0 then Inr (Exec (Some (user_string ''bin/ll''))) else
     rbind (strcmp cmd (user_string ''ls'')) (\<lambda>r. if r = 0 then Inr (Exec (Some (user_string ''bin/ls''))) else
     Inr Invalid))))))))"

text \<open>
  When \<open>parseline\<close> has left the array \<open>arr\<close>, the memory where it was holds \<open>dead i arr\<close> at the \<open>i\<close>-th use of a pointer into it:
  when \<open>strlen\<close> reads the first word, when \<open>strncpy\<close> copies it, and when the second word is handed to a system call.
\<close>

definition eval :: "(nat \<Rightarrow> u8 list \<Rightarrow> u8 list) \<Rightarrow> u8 list \<Rightarrow> u8 list \<Rightarrow> command res" where
  "eval dead arr cmdline =
     rbind (parseline arr (Some cmdline)) (\<lambda>(_, arr, argv).
     rbind (deref (argv_at (dead 0 arr) argv 0)) (\<lambda>w.
     rbind (strlen w) (\<lambda>n.
     rbind (deref (argv_at (dead 1 arr) argv 0)) (\<lambda>w.
     rbind (strncpy (replicate 100 0) w (word_of_int n)) (\<lambda>tmp.
     rbind (copy_word tmp) (\<lambda>cmd.
     eval_word (cmd @ replicate (100 - length cmd) 0) (argv_at (dead 2 arr) argv 1)))))))"

text \<open>What the main loop does with the line it has read: the last character is cut off.\<close>

definition shell_line :: "(nat \<Rightarrow> u8 list \<Rightarrow> u8 list) \<Rightarrow> u8 list \<Rightarrow> u8 list \<Rightarrow> command res" where
  "shell_line dead arr cmdline =
     rbind (strlen cmdline) (\<lambda>n. rbind (arr_set cmdline (n - 1) 0) (eval dead arr))"

section \<open>The words of a line\<close>

definition is_delim :: "u8 \<Rightarrow> bool" where
  "is_delim c = (c \<in> {32, 9, 13, 10})"

lemma delims_set: "c \<notin> set (cstring delims) \<longleftrightarrow> \<not> is_delim c" "0 \<in> set delims"
  by (auto simp: delims_def cstring_def is_delim_def)

lemma next_word:
  assumes "0 \<notin> set line" and "i < length line"
  shows "strcpsn (drop i (line @ 0 # r)) delims = Inr (int (length (takeWhile (\<lambda>c. \<not> is_delim c) (drop i line))))"
proof -
  have "cstring (drop i (line @ 0 # r)) = drop i line"
    using assms by (auto simp: cstring_def takeWhile_append dest: in_set_dropD)
  then show ?thesis
    using strcpsn_loop_Inr [of "drop i (line @ 0 # r)" delims 0] assms(2) by (simp add: strcpsn_def delims_set)
qed

text \<open>The starts of the words behind the position \<open>i\<close>: the positions that follow a delimiter.\<close>

definition word_starts :: "u8 list \<Rightarrow> nat \<Rightarrow> nat list" where
  "word_starts line i = filter (\<lambda>j. is_delim (line ! (j - 1))) [Suc i..<length line]"

lemma word_starts_step:
  assumes "i < length line" and k: "k = length (takeWhile (\<lambda>c. \<not> is_delim c) (drop i line))"
  shows "word_starts line i = (if Suc (i + k) < length line then Suc (i + k) # word_starts line (Suc (i + k)) else [])"
proof -
  have le: "k \<le> length line - i" using length_takeWhile_le [of "\<lambda>c. \<not> is_delim c" "drop i line"] by (simp add: k)
  have no: "\<not> is_delim (line ! j)" if "i \<le> j" "j < i + k" for j
    using nth_mem [of "j - i" "takeWhile (\<lambda>c. \<not> is_delim c) (drop i line)"] that le
    by (fastforce simp: k takeWhile_nth dest: set_takeWhileD)
  have yes: "is_delim (line ! (i + k))" if "i + k < length line"
    using nth_length_takeWhile [of "\<lambda>c. \<not> is_delim c" "drop i line"] that by (simp add: k)
  have none: "filter (\<lambda>j. is_delim (line ! (j - 1))) [Suc i..<m] = []" if "m \<le> Suc (i + k)" for m
    using no that by (auto simp: filter_empty_conv)
  show ?thesis
  proof (cases "i + k < length line")
    case True
    then have "[Suc i..<length line] = [Suc i..<Suc (i + k)] @ [Suc (i + k)..<length line]"
      using upt_add_eq_append [of "Suc i" "Suc (i + k)" "length line - Suc (i + k)"]
      by (simp only: le_add_diff_inverse Suc_le_eq Suc_le_mono le_add1)
    then show ?thesis using yes [OF True] none [of "Suc (i + k)"] by (auto simp: word_starts_def upt_conv_Cons)
  qed (use le none [of "length line"] in \<open>simp add: word_starts_def\<close>)
qed

lemma parse_loop_words:
  assumes "0 \<notin> set line"
  shows "i < length line \<Longrightarrow> length (argv @ i # word_starts line i) \<le> MAXARGS \<Longrightarrow>
    parse_loop (line @ 0 # r) (length line) i argv = Inr (argv @ i # word_starts line i)"
proof (induction "length line - i" arbitrary: i argv rule: less_induct)
  case less
  let ?k = "length (takeWhile (\<lambda>c. \<not> is_delim c) (drop i line))" let ?j = "Suc (i + ?k)"
  note w = word_starts_step [OF less.prems(1) refl]
  have step: "parse_loop (line @ 0 # r) (length line) i argv = parse_loop (line @ 0 # r) (length line) ?j (argv @ [i])"
    by (subst parse_loop.simps) (use next_word [OF assms less.prems(1), of r] less.prems in \<open>simp del: parse_loop.simps\<close>)
  show ?case
  proof (cases "?j < length line")
    case True
    then show ?thesis using less.hyps [of ?j "argv @ [i]"] less.prems w step by (simp del: parse_loop.simps)
  qed (use step w in \<open>simp add: parse_loop.simps [of _ _ ?j]\<close>)
qed

lemma parseline_words:
  assumes "0 \<notin> set line" "line \<noteq> []" "length line < 100" "length arr = 100" "length (word_starts line 0) < MAXARGS"
  shows "parseline arr (Some (line @ replicate (100 - length line) 0)) =
    Inr (0, line @ replicate (100 - length line) 0, 0 # word_starts line 0)"
proof -
  obtain k where k: "100 - length line = Suc k" using assms(3) by (metis Suc_diff_Suc)
  have str: "cstring (line @ 0 # r) = line" for r using assms(1) by (auto simp: cstring_def takeWhile_append)
  show ?thesis
    using parse_loop_words [OF assms(1), of 0 "[]" "replicate k 0"] assms k
    by (simp add: strncpy_Inr strlen_Inr str del: parse_loop.simps)
qed

text \<open>The word that is compared, and the table of the commands.\<close>

definition first_word :: "u8 list \<Rightarrow> u8 list" where
  "first_word line = takeWhile (\<lambda>c. c \<noteq> 32 \<and> c \<noteq> 13) line"

definition command_table :: "u8 list option \<Rightarrow> (string \<times> command) list" where
  "command_table arg = [(''cls'', Cls), (''pwd'', Print_pwd), (''h'', Usage), (''exec'', Exec arg), (''cd'', Cd arg),
     (''ps'', Exec (Some (user_string ''bin/ps''))), (''ll'', Exec (Some (user_string ''bin/ll''))),
     (''ls'', Exec (Some (user_string ''bin/ls'')))]"

definition command_of :: "u8 list \<Rightarrow> u8 list option \<Rightarrow> command" where
  "command_of w arg = (case find (\<lambda>(t, _). map of_char t = w) (command_table arg) of None \<Rightarrow> Invalid | Some (_, c) \<Rightarrow> c)"

lemma cstring_stop: "0 \<notin> set w \<Longrightarrow> cstring (w @ 0 # r) = w"
  by (auto simp: cstring_def takeWhile_append)

lemma strcmp_user_string:
  assumes "0 \<notin> set w" and "0 \<notin> set (map of_char t :: u8 list)"
  shows "strcmp (w @ 0 # r) (user_string t) = Inr (if map of_char t = w then 0 else 1)"
  using assms by (auto simp: strcmp_Inr cstring_stop user_string_def)

lemma eval_word_command: "0 \<notin> set w \<Longrightarrow> eval_word (w @ 0 # r) arg = Inr (command_of w arg)"
  by (simp add: eval_word_def strcmp_user_string command_of_def command_table_def)

lemma copy_word_first: "0 \<notin> set line \<Longrightarrow> copy_word (line @ 0 # r) = Inr (first_word line)"
  by (induction line) (simp_all add: first_word_def strlen_Inr cstring_def)

text \<open>The string behind the start of the second word, to the end of the line.\<close>

definition second_word :: "u8 list \<Rightarrow> u8 list option" where
  "second_word line =
     (case word_starts line 0 of [] \<Rightarrow> None | j # _ \<Rightarrow> Some (drop j line @ replicate (100 - length line) 0))"

lemma second_word_argv:
  assumes "length line < 100"
  shows "argv_at (line @ replicate (100 - length line) 0) (0 # word_starts line 0) 1 = second_word line"
proof (cases "word_starts line 0")
  case (Cons j js)
  then have "j \<in> set (word_starts line 0)" by simp
  then have "j < length line" by (auto simp: word_starts_def)
  then show ?thesis using Cons by (simp add: argv_at_def second_word_def)
qed (simp add: argv_at_def second_word_def)

text \<open>The word that \<open>eval\<close> gets out of the memory of the array, when that holds \<open>d0\<close> at the first use and \<open>d1\<close> at the second.\<close>

definition stale_word :: "u8 list \<Rightarrow> u8 list \<Rightarrow> u8 list" where
  "stale_word d0 d1 = first_word (cstring (take (length (cstring d0)) d1))"

lemma stale_word_copied:
  assumes "0 \<in> set d0" and "length (cstring d0) < 100" and "length (cstring d0) \<le> length d1"
  shows "rbind (strlen d0) (\<lambda>n. rbind (strncpy (replicate 100 0) d1 (word_of_int n)) copy_word) = Inr (stale_word d0 d1)"
    and "\<exists>k. 100 - length (stale_word d0 d1) = Suc k" and "0 \<notin> set (stale_word d0 d1)"
proof -
  let ?n = "length (cstring d0)" let ?v = "cstring (take ?n d1)"
  have n: "unat (word_of_int (int ?n) :: u32) = ?n" using assms(2) by (simp add: unsigned_of_nat take_bit_nat_eq_self)
  have z: "0 \<notin> set ?v" by (auto simp: cstring_def dest: set_takeWhileD)
  obtain k where k: "100 - ?n = Suc k" using assms(2) by (metis Suc_diff_Suc)
  have "\<exists>r. xs @ 0 # r' = cstring xs @ 0 # r" for xs and r' :: "u8 list" by (induction xs) (auto simp: cstring_def)
  then obtain r where r: "take ?n d1 @ 0 # replicate k 0 = ?v @ 0 # r" by blast
  have "strncpy (replicate 100 0) d1 (word_of_int (int ?n)) = Inr (take ?n d1 @ 0 # replicate k 0)"
    using assms(2,3) n k by (simp add: strncpy_Inr)
  then show "rbind (strlen d0) (\<lambda>n. rbind (strncpy (replicate 100 0) d1 (word_of_int n)) copy_word) = Inr (stale_word d0 d1)"
    using copy_word_first [OF z, of r] assms(1) unfolding r stale_word_def by (simp add: strlen_Inr)
  have "length (stale_word d0 d1) \<le> length ?v" by (simp add: stale_word_def first_word_def length_takeWhile_le)
  also have "\<dots> \<le> length (take ?n d1)" by (simp add: cstring_def length_takeWhile_le del: length_take)
  finally have "length (stale_word d0 d1) < 100" using assms(2,3) by simp
  then show "\<exists>k. 100 - length (stale_word d0 d1) = Suc k" by (metis Suc_diff_Suc)
  show "0 \<notin> set (stale_word d0 d1)" using z unfolding stale_word_def first_word_def by (auto dest: set_takeWhileD)
qed

lemma eval_runs_command:
  assumes "line \<noteq> []" and "0 \<notin> set line" and "length line < 100" and "length (word_starts line 0) < MAXARGS"
    and "length arr = 100" and A: "A = line @ replicate (100 - length line) 0"
    and d: "0 \<in> set (dead 0 A)" "length (cstring (dead 0 A)) < 100" "length (cstring (dead 0 A)) \<le> length (dead 1 A)"
  shows "eval dead arr A =
    Inr (command_of (stale_word (dead 0 A) (dead 1 A)) (argv_at (dead 2 A) (0 # word_starts line 0) 1))"
proof -
  note s = stale_word_copied [OF d]
  obtain k where k: "100 - length (stale_word (dead 0 A) (dead 1 A)) = Suc k" using s(2) by blast
  have p: "parseline arr (Some A) = Inr (0, A, 0 # word_starts line 0)" using parseline_words [OF assms(2,1,3,5,4)] by (simp only: A)
  have "argv_at (dead i A) (0 # word_starts line 0) 0 = Some (dead i A)" for i by (simp add: argv_at_def)
  then show ?thesis
    using p s(1) d(1) eval_word_command [OF s(3), of "replicate k 0"] k
    by (auto simp: eval_def deref_def strlen_Inr rbind_def split: sum.splits)
qed

text \<open>
  C16: the main loop of the shell cuts off the last character of the line it has read and splits the rest into words, but the
  command it runs is not determined by the line: the pointers to the words refer to the array of \<open>parseline\<close>, which has returned.
  For every line of at most 98 characters with at most ten words, and whatever strings of at most 99 characters the memory of that
  array holds when it is read, the command is the one that the table gives for the first word of what is found there, up to a
  blank or a carriage return, and its argument is what is found where the second word of the line was. Only if all uses still
  find the array as it was left, the command and the argument are those of the line.
\<close>

theorem shell_runs_command:
  assumes "line \<noteq> []" and "0 \<notin> set line" and "c \<noteq> 0" and "length line < 99" and "length (word_starts line 0) < MAXARGS"
    and "length arr = 100" and A: "A = line @ replicate (100 - length line) 0"
    and d: "0 \<in> set (dead 0 A)" "length (cstring (dead 0 A)) < 100" "length (cstring (dead 0 A)) \<le> length (dead 1 A)"
  shows "shell_line dead arr (line @ c # replicate (99 - length line) 0) =
      Inr (command_of (stale_word (dead 0 A) (dead 1 A)) (argv_at (dead 2 A) (0 # word_starts line 0) 1)) \<and>
    ((\<forall>i. dead i A = A) \<longrightarrow>
       shell_line dead arr (line @ c # replicate (99 - length line) 0) = Inr (command_of (first_word line) (second_word line)))"
proof -
  obtain k where k: "99 - length line = Suc k" using assms(4) by (metis Suc_diff_Suc)
  have n: "100 - length line = Suc (Suc k)" using k by simp
  have "strlen (line @ c # replicate (99 - length line) 0) = Inr (int (Suc (length line)))"
    using cstring_stop [of "line @ [c]" "replicate k 0"] assms(2,3) by (simp add: strlen_Inr k)
  moreover have "arr_set (line @ c # replicate (99 - length line) 0) (int (length line)) 0 = Inr A"
    by (simp add: arr_set_def A k n)
  ultimately have run: "shell_line dead arr (line @ c # replicate (99 - length line) 0) =
      Inr (command_of (stale_word (dead 0 A) (dead 1 A)) (argv_at (dead 2 A) (0 # word_starts line 0) 1))"
    using eval_runs_command [where dead = dead, OF assms(1,2) _ assms(5,6) A] d assms(4) by (simp add: shell_line_def)
  have c: "cstring A = line" "cstring line = line"
    using cstring_stop [OF assms(2)] assms(2) by (auto simp: A n cstring_def takeWhile_eq_all_conv)
  have "stale_word A A = first_word line" by (simp add: stale_word_def c) (simp add: A c)
  moreover have "argv_at A (0 # word_starts line 0) 1 = second_word line"
    unfolding A by (rule second_word_argv) (use assms(4) in simp)
  ultimately show ?thesis using run by simp
qed

text \<open>The array as it was left, and with its first bytes overwritten.\<close>

theorem shell_runs_command_witness:
  "shell_line (\<lambda>_ a. a) (replicate 100 7) (map of_char ''exec bin/ls'' @ 10 # replicate 88 0) =
     Inr (Exec (Some (map of_char ''bin/ls'' @ replicate 89 0))) \<and>
   shell_line (\<lambda>_ a. map of_char ''pwd'' @ 0 # drop 4 a) (replicate 100 7) (map of_char ''exec bin/ls'' @ 10 # replicate 88 0) =
     Inr Print_pwd"
proof -
  let ?line = "map of_char ''exec bin/ls'' :: u8 list" let ?A = "?line @ replicate (100 - length ?line) 0"
  have "shell_line (\<lambda>_ a. a) (replicate 100 7) (?line @ 10 # replicate 88 0) = Inr (Exec (Some (map of_char ''bin/ls'' @ replicate 89 0)))"
    using shell_runs_command [of ?line 10 "replicate 100 7" ?A "\<lambda>_ a. a"]
    by (simp add: word_starts_def is_delim_def MAXARGS_def first_word_def stale_word_def second_word_def argv_at_def command_of_def
        command_table_def upt_rec cstring_def)
  moreover have "shell_line (\<lambda>_ a. map of_char ''pwd'' @ 0 # drop 4 a) (replicate 100 7) (?line @ 10 # replicate 88 0) = Inr Print_pwd"
    using shell_runs_command [of ?line 10 "replicate 100 7" ?A "\<lambda>_ a. map of_char ''pwd'' @ 0 # drop 4 a"]
    by (simp add: word_starts_def is_delim_def MAXARGS_def first_word_def stale_word_def command_of_def command_table_def upt_rec
        cstring_def)
  ultimately show ?thesis by simp
qed

text \<open>
  An empty line, which the code means to ignore, is copied from the NULL pointer before the test.
\<close>

lemma eval_empty_line:
  assumes "length arr = 100" and "length cmdline = 100" and "cmdline ! 0 = 0"
  shows "eval dead arr cmdline = Inl NullPointer"
proof -
  obtain r where "cmdline = 0 # r" using assms by (cases cmdline) auto
  then show ?thesis
    using assms by (simp add: eval_def strncpy_Inr strlen_Inr cstring_def argv_at_def deref_def)
qed

section \<open>Printing numbers\<close>

lemma put_char_Inl: "put_char c b = Inl e \<Longrightarrow> e = OutOfBounds"
  by (cases b) (auto simp: put_char_def arr_set_def rbind_def split: if_splits)

lemma put_digits_faults:
  assumes "k \<in> set ks" and "length conv \<le> k"
  shows "rfold (\<lambda>ind b. rbind (arr_get conv (int ind)) (\<lambda>c. if c \<noteq> 32 then put_char c b else Inr b)) ks b = Inl OutOfBounds"
  using assms(1)
proof (induction ks arbitrary: b)
  case (Cons a ks)
  show ?case
  proof (cases "a < length conv")
    case True
    then have "k \<in> set ks" using Cons.prems assms(2) by auto
    then show ?thesis
      using Cons.IH True by (cases "put_char (conv ! a) b") (auto dest: put_char_Inl)
  qed (simp add: arr_get_def)
qed simp

lemma put_number_faults:
  assumes "0 \<le> i" and "i < 1000000"
  shows "put_number i b = Inl OutOfBounds"
proof -
  have n: "unat (u64_of_int i) = nat i"
  proof -
    have "u64_of_int i = of_nat (nat i)" using assms(1) u64_of_int_nat [of "nat i"] by (simp only: nat_0_le)
    then show ?thesis using assms by (simp only: unsigned_of_nat) (simp add: take_bit_nat_eq_self)
  qed
  have "length (digits 10 (nat i)) \<le> 6" using assms by (intro digits_length) simp_all
  then show ?thesis
    using put_digits_faults [of 7 "[0..<8]"] n by (simp add: put_number_def convert_Inr digit_text_def)
qed

text \<open>
  C25: \<open>%d\<close> of a number of at most six digits reads behind the end of the static buffer of \<open>convert_u\<close>, whatever
  text stands before it: eight characters are copied, but the digits and the terminating zero are at most seven.
\<close>

theorem user_printf_number_faults:
  assumes "0 \<notin> set pre" and "37 \<notin> set pre" and "0 \<le> i" and "i < 1000000"
  shows "user_printf buf (pre @ 37 # 100 # rest) (IntArg i # args) = Inl OutOfBounds"
proof -
  have "user_printf_loop (pre @ 37 # 100 # rest) (IntArg i # args) b = Inl OutOfBounds" for b
    using assms(1,2)
  proof (induction pre arbitrary: b)
    case (Cons c pre)
    then show ?case by (cases "put_char c b") (auto dest: put_char_Inl)
  qed (simp add: put_number_faults [OF assms(3,4)])
  then show ?thesis by (simp add: user_printf_def)
qed

theorem user_printf_number_faults_witness:
  "user_printf (replicate 100 0) (user_string ''pid %d'') [IntArg 12] = Inl OutOfBounds"
  using user_printf_number_faults [of "map of_char ''pid ''" 12 "replicate 100 0" "[0]" "[]"] by (simp add: user_string_def)

end
