(* ===== verification/Spec2Isabelle.thy ===== *)
theory Spec2Isabelle
  imports Virt_Alloc List_Head Reading User_Programs
begin

text \<open>
  A verification of the SBUNIX kernel, the C sources under \<open>src/SBUNIX-C-H\<close> (paths below are relative to it).

  \<^bold>\<open>The program.\<close> SBUNIX is a small kernel for x86-64. \<open>boot\<close> in \<open>sys/main.c\<close> sets up the descriptor tables and
  interrupts, reads the memory map, builds the kernel's page tables, switches paging on and starts the scheduler with a first
  thread. That thread unpacks the archive of programs that is linked into the kernel, starts the disk driver and the file
  system, and runs the shell. From then on threads are switched by timer interrupts, by system calls and by \<open>Yield\<close>.

  \<^bold>\<open>How C is modelled\<close> (\<open>Prelude\<close>). Machine integers are words of their width; a C \<open>int\<close> whose overflow plays no part is an
  \<open>int\<close>. State is passed explicitly, one record per component with the names of the C globals and structure fields. Memory
  that is reached through pointers is a function from addresses to the structures that lie there. Everything C leaves undefined
  is a value: an operation returns \<open>Inl\<close> of a fault for an access outside an array, a NULL or wild pointer and a division by
  zero, so a theorem that says \<open>Inr\<close> also says that none of these happens. \<open>Halt\<close> is the fault of code that does not return
  (\<open>PANIC\<close> and endless loops). Loops that need not end are \<open>partial_function (option)\<close>, and None becomes \<open>Halt\<close>, so the
  theorems that such an operation returns are theorems about termination. Only the iteration macro of the lists,
  \<open>list_for_each\<close>, has fuel; the theorem about it gives as much as the list has entries and one more step, and then it returns.
  Hardware and code that is not under \<open>src\<close> is a parameter: the AHCI controller is a function on the registers and memory with
  the predicate \<open>ahci_device\<close> for what its documents promise of the sectors that the disk has, and the status registers are
  cleared by writing ones to them, as those documents say; the bytes of the archive, the values that the keyboard ports
  return, the stack pointers the processor finds at an interrupt, the addresses of assembler stubs and, for the shell, what the
  memory of a local array holds after its function has returned are arguments. For system
  calls these are gathered in the record \<open>sys_env\<close>, with the faulting address of \<open>cr2\<close> and, where a call waits with interrupts
  on, the list of the interrupts that arrive meanwhile. The kernel reads and writes through the page tables: an address that the
  walk does not translate is a fault; the write bit is not consulted, since no source sets the write protection of \<open>cr0\<close>.

  \<^bold>\<open>Theories and components.\<close>

  \<^item> \<open>Bitmap\<close>, \<open>Alloc_Contract\<close>: the bitmap code that three allocators share, with its 32-bit shift, and the contract of a
    block allocator as a locale, with the facts every client needs (distinct blocks, undoing allocations).
  \<^item> \<open>Phys_Alloc\<close>: frames of physical memory (\<open>sys/mm/mmgr.c\<close>, \<open>include/sys/mm/mmgr.h\<close>, \<open>regions.h\<close>), from reading the memory
    map of the loader on. \<open>Virt_Alloc\<close>: pages of kernel addresses (\<open>sys/mm/vmmgr_page_allocator.c\<close>). \<open>Fs_Alloc\<close>: disk
    blocks (\<open>sys/fs_mmgr.c\<close>). Each interprets the contract on its own operations.
  \<^item> \<open>Page_Entry\<close>, \<open>Virtual_Memory\<close>, \<open>Page_Walk\<close>, \<open>Kernel_Map\<close>: page table entries (\<open>sys/mm/vmmgr_p*.c\<close>), mapping and the
    recursive slot (\<open>sys/mm/vmmgr_virtual.c\<close>), the walk of the processor as the specification, and the map of the kernel that
    \<open>vmmgr_init\<close> builds. \<open>Paging_On\<close>, \<open>Page_Copy\<close>: the functions of \<open>sys/mm/vmmgr_virtual.c\<close> that change page tables
    through the recursive slot once paging is on: mapping, and copying and clearing the tables of a process.
  \<^item> \<open>List_Head\<close>: the circular lists of \<open>include/sys/list.h\<close>, against sequences.
  \<^item> \<open>Kernel_Heap\<close>: \<open>sub_malloc\<close> and \<open>sub_free\<close> (\<open>sys/mm/myalloc.c\<close>).
  \<^item> \<open>Queue_Links\<close>, \<open>Kthread\<close>, \<open>Scheduling\<close>: threads, their queues and the scheduler (\<open>sys/kthread.c\<close>). The contract of a
    doubly linked queue is a locale, interpreted for the run queue and for the list of all threads.
  \<^item> \<open>Std_Fns\<close>, \<open>Console\<close>, \<open>Keyboard_Codes\<close>, \<open>Keyboard\<close>: strings and numbers, screen and line buffer (\<open>sys/stdfns.c\<close>), and the
    keyboard (\<open>sys/kb.c\<close>, \<open>include/sys/kb.h\<close>).
  \<^item> \<open>Timer\<close>, \<open>Interrupts\<close>, \<open>Preemption\<close>: the timer (\<open>sys/timer.c\<close>), descriptor tables and interrupt dispatch (\<open>sys/gdt.c\<close>,
    \<open>sys/idt.c\<close>, \<open>sys/irq.c\<close>, \<open>sys/irq.s\<close>), and what interrupts do together.
  \<^item> \<open>Ahci\<close>, \<open>File_System\<close>: the disk driver (\<open>sys/ahci.c\<close>, \<open>include/ahci.h\<close>) and the file system on it (\<open>sys/fs.c\<close>).
  \<^item> \<open>Tarfs\<close>, \<open>Elf\<close>: the archive of programs and their headers (\<open>sys/elf.c\<close>, \<open>include/elf.h\<close>, \<open>include/sys/tarfs.h\<close>).
  \<^item> \<open>Process\<close>: memory areas (\<open>sys/mmap.c\<close>) and the loading of programs (\<open>sys/exec.c\<close>). \<open>Syscalls\<close>: the system calls and
    the handlers of exceptions (\<open>sys/isr.c\<close>), their dispatch (\<open>fault_handler\<close> in \<open>sys/idt.c\<close>) and what the stubs of
    \<open>sys/isr.s\<close> save and restore; its state \<open>sys_state\<close> joins those of all components. \<open>Faults\<close>: page faults. \<open>Reading\<close>: a read from the keyboard while keys arrive.
  \<^item> \<open>User_Programs\<close>: the \<open>printf\<close> of user programs (\<open>libc/printf.c\<close>) and the command line of the shell
    (\<open>bin/shell/shell.c\<close>).

  \<^bold>\<open>What is shown.\<close> The allocators hand out what was free, nothing twice and nothing outside, from the state that the boot code
  leaves, and freeing undoes allocating; the theorems also say how much of the memory the 32-bit shift loses. \<open>vmmgr_map_page\<close>
  changes the translation of exactly one page, \<open>vmmgr_init\<close> makes the processor translate every byte of the kernel as intended, and
  the addresses computed for the recursive slot reach the entries they are meant for. Scheduling is first come, first served;
  under any sequence of timer interrupts and pressed keys, as long as the line buffer has room, no thread is lost and every living
  thread gets the processor within a bound that depends on its place in the queue and its sleep only. Lists, console and heap refine or meet abstract
  specifications. On a controller that follows its documents what is written to a sector or a file is read back; what the
  code destroys beside it is stated too. Reading the archive ends and finds the file. With paging on, mapping again changes one
  page only; a fork leaves both processes with the same frames, marked copy-on-write, and registers that differ in RAX only; the fault
  on such a page, unless it is at the start of a memory area, gives the process a frame of its own with the same bytes and leaves
  the old one as it was. A read from the keyboard returns the line that was typed, with what an earlier one left behind it in the
  array, and the shell turns what it finds in the memory of its line into the system call that its table names. A number of
  theorems state errors of the code: where the model returns a fault, or a result that its comments or callers exclude.

  \<^bold>\<open>Not modelled.\<close>

  \<^item> Of \<open>sys/ahci.c\<close> \<open>append_disk\<close>, which nothing calls, and \<open>init_ahci\<close>, which maps the registers.
  \<^item> \<open>sys/fork.c\<close> and most of \<open>include/sys/task.h\<close> are commented out; \<open>sys/mm/slob.c\<close> is compiled and never called;
    \<open>sys/mm/vmmgr_virtual.cpp\<close> is not compiled; \<open>sys/mm/paging.c\<close> reads control registers.
  \<^item> Of user space: \<open>malloc\<close>, which first prints its size with \<open>%d\<close> and with that reads outside a
    buffer, as \<open>User_Programs\<close> shows; the wrappers of interrupt 0x80, which are single assembler statements; and the programs other
    than the shell, which only try out system calls.
  \<^item> The assembler files except for their effect on the data of the C code (\<open>Switch_To_Thread\<close>, the interrupt stubs), and
    \<open>boot\<close> and \<open>start\<close> beyond the initialisation they call, which is modelled with its components.
\<close>

end
